(* ===== verification/Prelude.thy ===== *)
theory Prelude imports Main "HOL-Library.Word" begin

text \<open>
  Shared vocabulary of the development: the machine integers of the Rust code, its
  \<open>Result\<close> type as a sum with \<open>?\<close> as \<open>and_then\<close>, byte strings with the big- and
  little-endian conversions of \<open>to_be_bytes\<close>, \<open>to_le_bytes\<close>, \<open>from_be_bytes\<close> and
  \<open>from_le_bytes\<close>, slices, and the two interfaces (locales) that every packet codec and
  every wire enumeration of the protocol crate satisfies.
\<close>

unbundle bit_operations_syntax

named_theorems codec_simps \<open>rewrite rules that compute the fields of an encoded packet\<close>
named_theorems field_defs \<open>definitions of the readers of fixed-offset fields\<close>

section \<open>Machine integers\<close>

text \<open>
  A signed \<open>i32\<close> has the bits of a \<open>u32\<close>; it is read by \<open>sint\<close> where its sign
  matters. \<open>usize\<close> is 64 bits wide on the supported targets, and every length of a Rust
  vector fits into it, so lengths are natural numbers; where the code converts or adds
  with a check, the check is written out.
\<close>

type_synonym u8 = "8 word"
type_synonym u16 = "16 word"
type_synonym u32 = "32 word"
type_synonym i32 = "32 word"
type_synonym u64 = "64 word"
type_synonym bytes = "8 word list"

lemma unat_less_256 [simp]: "unat (b :: u8) < 256"
  using unsigned_less [of b] by simp

lemma unat_less_65536 [simp]: "unat (w :: u16) < 65536"
  using unsigned_less [of w] by simp

lemma unat_less_2p32 [simp]: "unat (w :: u32) < 4294967296"
  using unsigned_less [of w] by simp

lemma unat_less_2p64 [simp]: "unat (w :: u64) < 18446744073709551616"
  using unsigned_less [of w] by simp

lemma unat_of_nat_u8 [simp]: "n < 256 \<Longrightarrow> unat (of_nat n :: u8) = n"
  by (simp add: unat_of_nat take_bit_nat_eq_self)

lemma unat_of_nat_u16 [simp]: "n < 65536 \<Longrightarrow> unat (of_nat n :: u16) = n"
  by (simp add: unat_of_nat take_bit_nat_eq_self)

lemma unat_of_nat_u32 [simp]: "n < 4294967296 \<Longrightarrow> unat (of_nat n :: u32) = n"
  by (simp add: unat_of_nat take_bit_nat_eq_self)

lemma unat_of_nat_u64 [simp]: "n < 18446744073709551616 \<Longrightarrow> unat (of_nat n :: u64) = n"
  by (simp add: unat_of_nat take_bit_nat_eq_self)

lemma ucast_u8_u16_u8 [simp]: "ucast (ucast (b :: u8) :: u16) = b"
  by (rule bit_word_eqI) (simp add: bit_simps)

lemma ucast_u8_u32_u8 [simp]: "ucast (ucast (b :: u8) :: u32) = b"
  by (rule bit_word_eqI) (simp add: bit_simps)

section \<open>Results\<close>

text \<open>
  \<open>Result<T, E>\<close> is \<open>'e + 'a\<close>: \<open>Inl\<close> is \<open>Err\<close>, \<open>Inr\<close> is \<open>Ok\<close>. The \<open>?\<close>
  operator and \<open>Result::and_then\<close> are \<open>and_then\<close>; \<open>check\<close> is the early
  \<open>if c { return Err(e) }\<close>.
\<close>

definition and_then :: "'e + 'a \<Rightarrow> ('a \<Rightarrow> 'e + 'b) \<Rightarrow> 'e + 'b" where
  "and_then r f = (case r of Inl e \<Rightarrow> Inl e | Inr x \<Rightarrow> f x)"

lemma and_then_simps [simp]:
  "and_then (Inl e) f = Inl e"
  "and_then (Inr x) f = f x"
  by (simp_all add: and_then_def)

lemma and_then_Inr_iff: "and_then r f = Inr y \<longleftrightarrow> (\<exists>x. r = Inr x \<and> f x = Inr y)"
  by (cases r) simp_all

lemma and_then_Inl_iff:
  "and_then r f = Inl e \<longleftrightarrow> r = Inl e \<or> (\<exists>x. r = Inr x \<and> f x = Inl e)"
  by (cases r) simp_all

lemma and_then_cong [fundef_cong]:
  assumes "r = s" and "\<And>x. s = Inr x \<Longrightarrow> f x = g x"
  shows "and_then r f = and_then s g"
  using assms by (cases s) simp_all

lemma and_then_assoc: "and_then (and_then r f) g = and_then r (\<lambda>x. and_then (f x) g)"
  by (cases r) simp_all

definition ok_or :: "'e \<Rightarrow> 'a option \<Rightarrow> 'e + 'a" where
  "ok_or e x = (case x of None \<Rightarrow> Inl e | Some y \<Rightarrow> Inr y)"

lemma ok_or_simps [simp]: "ok_or e None = Inl e" "ok_or e (Some x) = Inr x"
  by (simp_all add: ok_or_def)

lemma ok_or_Inr_iff [simp]: "ok_or e x = Inr y \<longleftrightarrow> x = Some y"
  by (cases x) simp_all

lemmas result_iffs = and_then_Inr_iff and_then_Inl_iff

text \<open>
  The loop \<open>for x in xs \<dots> push(f(x)?)\<close> that stops at the first error.
\<close>

fun map_result :: "('a \<Rightarrow> 'e + 'b) \<Rightarrow> 'a list \<Rightarrow> 'e + 'b list" where
  "map_result f [] = Inr []"
| "map_result f (x # xs) =
     and_then (f x) (\<lambda>y. and_then (map_result f xs) (\<lambda>ys. Inr (y # ys)))"

lemma map_result_Inr_iff:
  "map_result f xs = Inr ys \<longleftrightarrow> list_all2 (\<lambda>x y. f x = Inr y) xs ys"
  by (induction xs arbitrary: ys) (auto simp: and_then_Inr_iff list_all2_Cons1)

lemma map_result_total:
  assumes "\<And>x. x \<in> set xs \<Longrightarrow> f x = Inr (g x)"
  shows "map_result f xs = Inr (map g xs)"
  using assms by (induction xs) simp_all

lemma length_map_result: "map_result f xs = Inr ys \<Longrightarrow> length ys = length xs"
  by (auto simp: map_result_Inr_iff dest: list_all2_lengthD)

section \<open>Bytes of a machine integer\<close>

text \<open>
  \<open>le_bytes n w\<close> is the \<open>n\<close> low bytes of \<open>w\<close>, least significant first (the
  \<open>to_le_bytes\<close> of the type whose width is \<open>n\<close> bytes); \<open>le_word\<close> puts them back.
\<close>

fun le_bytes :: "nat \<Rightarrow> 'a::len word \<Rightarrow> bytes" where
  "le_bytes 0 w = []"
| "le_bytes (Suc n) w = ucast w # le_bytes n (drop_bit 8 w)"

fun le_word :: "bytes \<Rightarrow> 'a::len word" where
  "le_word [] = 0"
| "le_word (b # bs) = ucast b OR push_bit 8 (le_word bs)"

definition be_bytes :: "nat \<Rightarrow> 'a::len word \<Rightarrow> bytes" where
  "be_bytes n w = rev (le_bytes n w)"

definition be_word :: "bytes \<Rightarrow> 'a::len word" where
  "be_word bs = le_word (rev bs)"

lemma length_le_bytes [simp]: "length (le_bytes n w) = n"
  by (induction n arbitrary: w) simp_all

lemma length_be_bytes [simp]: "length (be_bytes n w) = n"
  by (simp add: be_bytes_def)

lemma le_word_le_bytes_take: "le_word (le_bytes n w) = take_bit (8 * n) w"
  for w :: "'a::len word"
proof (induction n arbitrary: w)
  case 0
  show ?case by simp
next
  case (Suc n)
  show ?case
    by (rule bit_word_eqI) (auto simp: Suc.IH bit_simps)
qed

lemma le_word_le_bytes: "LENGTH('a) \<le> 8 * n \<Longrightarrow> le_word (le_bytes n w) = (w :: 'a::len word)"
  by (simp add: le_word_le_bytes_take take_bit_word_eq_self)

lemma bit_le_word_high:
  "8 * length bs \<le> n \<Longrightarrow> \<not> bit (le_word bs :: 'a::len word) n"
  by (induction bs arbitrary: n) (auto simp: bit_simps dest: bit_imp_le_length)

lemma le_bytes_le_word:
  "8 * length bs \<le> LENGTH('a) \<Longrightarrow> le_bytes (length bs) (le_word bs :: 'a::len word) = bs"
proof (induction bs)
  case Nil
  show ?case by simp
next
  case (Cons b bs)
  have low: "ucast (le_word (b # bs) :: 'a word) = b"
    using Cons.prems by (intro bit_word_eqI) (auto simp: bit_simps)
  have high: "drop_bit 8 (le_word (b # bs) :: 'a word) = le_word bs"
    using Cons.prems
    by (intro bit_word_eqI) (auto simp: bit_simps bit_le_word_high not_less add.commute dest: bit_imp_le_length)
  show ?case
    using Cons low high by simp
qed

lemma be_word_be_bytes: "LENGTH('a) \<le> 8 * n \<Longrightarrow> be_word (be_bytes n w) = (w :: 'a::len word)"
  by (simp add: be_word_def be_bytes_def le_word_le_bytes)

lemma be_bytes_be_word:
  "length bs = n \<Longrightarrow> 8 * n \<le> LENGTH('a) \<Longrightarrow> be_bytes n (be_word bs :: 'a::len word) = bs"
  using le_bytes_le_word [of "rev bs", where ?'a = 'a]
  by (simp add: be_word_def be_bytes_def)

lemma le_bytes_le_word_n:
  "length bs = n \<Longrightarrow> 8 * n \<le> LENGTH('a) \<Longrightarrow> le_bytes n (le_word bs :: 'a::len word) = bs"
  using le_bytes_le_word [of bs, where ?'a = 'a] by simp

lemma le_bytes_two: "le_bytes 2 w = [ucast w, ucast (drop_bit 8 w)]"
  by (simp add: numeral_2_eq_2)

declare le_bytes.simps [simp del]

section \<open>Slices and fields at fixed offsets\<close>

text \<open>
  \<open>slice xs a b\<close> is \<open>&xs[a..b]\<close>. Rust panics when \<open>b\<close> exceeds the length; every
  slice of the protocol crate stands behind a length check, which the models keep as the
  guard of the same branch.
\<close>

definition slice :: "'a list \<Rightarrow> nat \<Rightarrow> nat \<Rightarrow> 'a list" where
  "slice xs a b = take (b - a) (drop a xs)"

lemma length_slice [simp]: "length (slice xs a b) = min (b - a) (length xs - a)"
  by (simp add: slice_def min.commute)

lemma slice_all [codec_simps]: "length xs \<le> b \<Longrightarrow> slice xs 0 b = xs"
  by (simp add: slice_def)

lemma slice_append_skip [codec_simps]:
  "length xs \<le> a \<Longrightarrow> slice (xs @ ys) a b = slice ys (a - length xs) (b - length xs)"
  by (simp add: slice_def)

lemma slice_append_in [codec_simps]: "b \<le> length xs \<Longrightarrow> slice (xs @ ys) a b = slice xs a b"
  by (cases "a \<le> b") (auto simp: slice_def)

lemma slice_append_over [codec_simps]:
  "length xs \<le> b \<Longrightarrow> slice (xs @ ys) 0 b = xs @ slice ys 0 (b - length xs)"
  by (simp add: slice_def)

lemma slice_Cons_skip [codec_simps]: "0 < a \<Longrightarrow> slice (x # xs) a b = slice xs (a - 1) (b - 1)"
  by (cases a; cases b) (simp_all add: slice_def)

lemma slice_Cons_take [codec_simps]: "0 < b \<Longrightarrow> slice (x # xs) 0 b = x # slice xs 0 (b - 1)"
  by (cases b) (simp_all add: slice_def)

lemma slice_zero [simp]: "slice xs a a = []"
  by (simp add: slice_def)

lemma slice_append_slice: "a \<le> b \<Longrightarrow> b \<le> c \<Longrightarrow> slice xs a b @ slice xs b c = slice xs a c"
proof -
  assume "a \<le> b" and "b \<le> c"
  then have "drop b xs = drop (b - a) (drop a xs)" and "c - a = (b - a) + (c - b)"
    by simp_all
  then show ?thesis
    unfolding slice_def by (metis take_add)
qed

lemma slice_append_drop: "a \<le> b \<Longrightarrow> slice xs a b @ drop b xs = drop a xs"
proof -
  assume "a \<le> b"
  then have "drop b xs = drop (b - a) (drop a xs)" by simp
  then show ?thesis unfolding slice_def by (metis append_take_drop_id)
qed

lemma slice_single: "b = Suc a \<Longrightarrow> a < length xs \<Longrightarrow> slice xs a b = [xs ! a]"
  by (simp add: slice_def take_Suc hd_drop_conv_nth)

definition read_u16_le :: "bytes \<Rightarrow> nat \<Rightarrow> u16" where
  "read_u16_le bs off = le_word (slice bs off (off + 2))"

definition read_u32_be :: "bytes \<Rightarrow> nat \<Rightarrow> u32" where
  "read_u32_be bs off = be_word (slice bs off (off + 4))"

definition read_u64_be :: "bytes \<Rightarrow> nat \<Rightarrow> u64" where
  "read_u64_be bs off = be_word (slice bs off (off + 8))"

lemmas read_defs [field_defs] = read_u16_le_def read_u32_be_def read_u64_be_def

lemma word_of_bytes [codec_simps]:
  "be_word (be_bytes 4 w) = (w :: u32)"
  "be_word (be_bytes 8 x) = (x :: u64)"
  "le_word (le_bytes 2 v) = (v :: u16)"
  by (simp_all add: be_word_be_bytes le_word_le_bytes)

lemma bytes_of_fields:
  "off + 2 \<le> length bs \<Longrightarrow> le_bytes 2 (read_u16_le bs off) = slice bs off (off + 2)"
  "off + 4 \<le> length bs \<Longrightarrow> be_bytes 4 (read_u32_be bs off) = slice bs off (off + 4)"
  "off + 8 \<le> length bs \<Longrightarrow> be_bytes 8 (read_u64_be bs off) = slice bs off (off + 8)"
  by (simp_all add: read_defs le_bytes_le_word_n be_bytes_be_word)

section \<open>Interfaces of the protocol crate\<close>

text \<open>
  A wire enumeration: the number a constructor is sent as and the \<open>TryFrom\<close> that reads
  it back. The two laws make the set of accepted numbers exactly the set of codes.
\<close>

locale wire_enum =
  fixes code :: "'a \<Rightarrow> 'w" and try_from :: "'w \<Rightarrow> 'e + 'a"
  assumes try_from_code: "try_from (code x) = Inr x"
    and code_try_from: "try_from w = Inr x \<Longrightarrow> code x = w"
begin

lemma try_from_Inr_iff: "try_from w = Inr x \<longleftrightarrow> w = code x"
  using try_from_code code_try_from by metis

lemma code_eq_iff: "code x = code y \<longleftrightarrow> x = y"
  using try_from_code by (metis sum.inject(2))

lemma try_from_Inl_iff: "(\<exists>e. try_from w = Inl e) \<longleftrightarrow> w \<notin> range code"
  by (cases "try_from w") (auto simp: try_from_Inr_iff try_from_code image_iff)

end

text \<open>
  A packet codec: \<open>enc\<close> may refuse a packet the program can build but the format cannot
  carry, \<open>dec\<close> refuses malformed bytes. The laws: a well-formed packet is encoded, what
  was encoded decodes to the same packet, and every decoded packet is well-formed. Hence
  encoding is injective and re-encoding a received packet never fails and never changes it.
\<close>

locale codec =
  fixes wf :: "'a \<Rightarrow> bool" and enc :: "'a \<Rightarrow> 'f + bytes" and dec :: "bytes \<Rightarrow> 'e + 'a"
  assumes enc_total: "wf x \<Longrightarrow> \<exists>b. enc x = Inr b"
    and round_trip: "wf x \<Longrightarrow> enc x = Inr b \<Longrightarrow> dec b = Inr x"
    and dec_wf: "dec b = Inr x \<Longrightarrow> wf x"
begin

lemma enc_inj: "wf x \<Longrightarrow> wf y \<Longrightarrow> enc x = Inr b \<Longrightarrow> enc y = Inr b \<Longrightarrow> x = y"
  using round_trip by (metis sum.inject(2))

lemma enc_dec: "wf x \<Longrightarrow> \<exists>b. enc x = Inr b \<and> dec b = Inr x"
  using enc_total round_trip by blast

lemma re_encode: "dec b = Inr x \<Longrightarrow> \<exists>c. enc x = Inr c \<and> dec c = Inr x"
  using enc_dec dec_wf by blast

end

text \<open>
  A canonical codec: moreover only one byte string decodes to a packet, the one the
  encoder writes.
\<close>

locale canonical_codec = codec +
  assumes canonical: "dec b = Inr x \<Longrightarrow> enc x = Inr b"
begin

lemma dec_iff: "dec b = Inr x \<longleftrightarrow> wf x \<and> enc x = Inr b"
  using canonical round_trip dec_wf by blast

lemma dec_inj: "dec b = Inr x \<Longrightarrow> dec c = Inr x \<Longrightarrow> b = c"
  using canonical by (metis sum.inject(2))

end

end
