(* ===== verification/Wire_Enums.thy ===== *)
theory Wire_Enums imports Prelude begin

text \<open>
  The enumerations of \<open>protocol/src/lib.rs\<close> with the numbers they are sent as, their
  \<open>TryFrom\<close> conversions, and \<open>ProtocolError\<close>. Every enumeration interprets
  \<open>wire_enum\<close>; the ones the daemon uses as map keys get the linear order that
  \<open>derive(Ord)\<close> gives them (the order of their discriminants).
\<close>

section \<open>Errors\<close>

datatype protocol_error =
    TruncatedHeader (actual: nat) (expected: nat)
  | InvalidMagic
  | UnsupportedVersion u8
  | InvalidFrameType u8
  | InvalidDirection u8
  | InvalidTransferType u8
  | InvalidTransferStatus i32
  | InvalidPayloadLength (actual: nat) (expected: nat)
  | InvalidDescriptorSet string
  | InvalidControlTransfer string
  | InvalidBulkPayload string
  | InvalidUsbIpPacket string
  | InvalidHidReport string

section \<open>Frame enumerations\<close>

datatype frame_type =
    Request | Response | Event | AttachRequest | AttachResponse | DetachRequest
  | DetachResponse | CancelRequest | CancelResponse | ResetRequest | ResetResponse

fun frame_type_code :: "frame_type \<Rightarrow> u8" where
  "frame_type_code Request = 1"
| "frame_type_code Response = 2"
| "frame_type_code Event = 3"
| "frame_type_code AttachRequest = 4"
| "frame_type_code AttachResponse = 5"
| "frame_type_code DetachRequest = 6"
| "frame_type_code DetachResponse = 7"
| "frame_type_code CancelRequest = 8"
| "frame_type_code CancelResponse = 9"
| "frame_type_code ResetRequest = 10"
| "frame_type_code ResetResponse = 11"

definition frame_type_try_from :: "u8 \<Rightarrow> protocol_error + frame_type" where
  "frame_type_try_from v =
    (if v = 1 then Inr Request
     else if v = 2 then Inr Response
     else if v = 3 then Inr Event
     else if v = 4 then Inr AttachRequest
     else if v = 5 then Inr AttachResponse
     else if v = 6 then Inr DetachRequest
     else if v = 7 then Inr DetachResponse
     else if v = 8 then Inr CancelRequest
     else if v = 9 then Inr CancelResponse
     else if v = 10 then Inr ResetRequest
     else if v = 11 then Inr ResetResponse
     else Inl (InvalidFrameType v))"

interpretation frame_types: wire_enum frame_type_code frame_type_try_from
proof
  show "frame_type_try_from (frame_type_code x) = Inr x" for x
    by (cases x) (simp_all add: frame_type_try_from_def)
  show "frame_type_try_from w = Inr x \<Longrightarrow> frame_type_code x = w" for w x
    by (auto simp: frame_type_try_from_def split: if_splits)
qed

datatype transfer_status = Ok | Failed | Cancelled | Timeout | Stall | Reset

fun transfer_status_code :: "transfer_status \<Rightarrow> i32" where
  "transfer_status_code Ok = 0"
| "transfer_status_code Failed = -1"
| "transfer_status_code Cancelled = -2"
| "transfer_status_code Timeout = -3"
| "transfer_status_code Stall = -4"
| "transfer_status_code Reset = -5"

definition transfer_status_try_from :: "i32 \<Rightarrow> protocol_error + transfer_status" where
  "transfer_status_try_from v =
    (if v = 0 then Inr Ok
     else if v = -1 then Inr Failed
     else if v = -2 then Inr Cancelled
     else if v = -3 then Inr Timeout
     else if v = -4 then Inr Stall
     else if v = -5 then Inr Reset
     else Inl (InvalidTransferStatus v))"

interpretation transfer_statuses: wire_enum transfer_status_code transfer_status_try_from
proof
  show "transfer_status_try_from (transfer_status_code x) = Inr x" for x
    by (cases x) (simp_all add: transfer_status_try_from_def)
  show "transfer_status_try_from w = Inr x \<Longrightarrow> transfer_status_code x = w" for w x
    by (auto simp: transfer_status_try_from_def split: if_splits)
qed

datatype direction = HostToDevice | DeviceToHost

fun direction_code :: "direction \<Rightarrow> u8" where
  "direction_code HostToDevice = 1"
| "direction_code DeviceToHost = 2"

definition direction_try_from :: "u8 \<Rightarrow> protocol_error + direction" where
  "direction_try_from v =
    (if v = 1 then Inr HostToDevice
     else if v = 2 then Inr DeviceToHost
     else Inl (InvalidDirection v))"

interpretation directions: wire_enum direction_code direction_try_from
proof
  show "direction_try_from (direction_code x) = Inr x" for x
    by (cases x) (simp_all add: direction_try_from_def)
  show "direction_try_from w = Inr x \<Longrightarrow> direction_code x = w" for w x
    by (auto simp: direction_try_from_def split: if_splits)
qed

datatype transfer_type = Control | Bulk | Interrupt | Isochronous

fun transfer_type_code :: "transfer_type \<Rightarrow> u8" where
  "transfer_type_code Control = 1"
| "transfer_type_code Bulk = 2"
| "transfer_type_code Interrupt = 3"
| "transfer_type_code Isochronous = 4"

definition transfer_type_try_from :: "u8 \<Rightarrow> protocol_error + transfer_type" where
  "transfer_type_try_from v =
    (if v = 1 then Inr Control
     else if v = 2 then Inr Bulk
     else if v = 3 then Inr Interrupt
     else if v = 4 then Inr Isochronous
     else Inl (InvalidTransferType v))"

interpretation transfer_types: wire_enum transfer_type_code transfer_type_try_from
proof
  show "transfer_type_try_from (transfer_type_code x) = Inr x" for x
    by (cases x) (simp_all add: transfer_type_try_from_def)
  show "transfer_type_try_from w = Inr x \<Longrightarrow> transfer_type_code x = w" for w x
    by (auto simp: transfer_type_try_from_def split: if_splits)
qed

section \<open>USB/IP enumerations\<close>

datatype usbip_command = CmdSubmit | CmdUnlink | RetSubmit | RetUnlink

fun usbip_command_code :: "usbip_command \<Rightarrow> u32" where
  "usbip_command_code CmdSubmit = 1"
| "usbip_command_code CmdUnlink = 2"
| "usbip_command_code RetSubmit = 3"
| "usbip_command_code RetUnlink = 4"

definition usbip_command_try_from :: "u32 \<Rightarrow> protocol_error + usbip_command" where
  "usbip_command_try_from v =
    (if v = 1 then Inr CmdSubmit
     else if v = 2 then Inr CmdUnlink
     else if v = 3 then Inr RetSubmit
     else if v = 4 then Inr RetUnlink
     else Inl (InvalidUsbIpPacket ''unsupported command''))"

interpretation usbip_commands: wire_enum usbip_command_code usbip_command_try_from
proof
  show "usbip_command_try_from (usbip_command_code x) = Inr x" for x
    by (cases x) (simp_all add: usbip_command_try_from_def)
  show "usbip_command_try_from w = Inr x \<Longrightarrow> usbip_command_code x = w" for w x
    by (auto simp: usbip_command_try_from_def split: if_splits)
qed

datatype usbip_direction = Out | In

fun usbip_direction_code :: "usbip_direction \<Rightarrow> u32" where
  "usbip_direction_code Out = 0"
| "usbip_direction_code In = 1"

definition usbip_direction_try_from :: "u32 \<Rightarrow> protocol_error + usbip_direction" where
  "usbip_direction_try_from v =
    (if v = 0 then Inr Out
     else if v = 1 then Inr In
     else Inl (InvalidUsbIpPacket ''unsupported direction''))"

interpretation usbip_directions: wire_enum usbip_direction_code usbip_direction_try_from
proof
  show "usbip_direction_try_from (usbip_direction_code x) = Inr x" for x
    by (cases x) (simp_all add: usbip_direction_try_from_def)
  show "usbip_direction_try_from w = Inr x \<Longrightarrow> usbip_direction_code x = w" for w x
    by (auto simp: usbip_direction_try_from_def split: if_splits)
qed

section \<open>Descriptor types and standard requests\<close>

definition USB_DESC_DEVICE :: u8 where "USB_DESC_DEVICE = 1"
definition USB_DESC_CONFIGURATION :: u8 where "USB_DESC_CONFIGURATION = 2"
definition USB_DESC_STRING :: u8 where "USB_DESC_STRING = 3"
definition USB_DESC_INTERFACE :: u8 where "USB_DESC_INTERFACE = 4"
definition USB_DESC_ENDPOINT :: u8 where "USB_DESC_ENDPOINT = 5"
definition USB_DESC_HID_REPORT :: u8 where "USB_DESC_HID_REPORT = 0x22"

lemmas desc_codes [simp] =
  USB_DESC_DEVICE_def USB_DESC_CONFIGURATION_def USB_DESC_STRING_def
  USB_DESC_INTERFACE_def USB_DESC_ENDPOINT_def USB_DESC_HID_REPORT_def

datatype usb_descriptor_type =
  Device | Configuration | StringDesc | Interface | Endpoint | Report

fun usb_descriptor_type_code :: "usb_descriptor_type \<Rightarrow> u8" where
  "usb_descriptor_type_code Device = USB_DESC_DEVICE"
| "usb_descriptor_type_code Configuration = USB_DESC_CONFIGURATION"
| "usb_descriptor_type_code StringDesc = USB_DESC_STRING"
| "usb_descriptor_type_code Interface = USB_DESC_INTERFACE"
| "usb_descriptor_type_code Endpoint = USB_DESC_ENDPOINT"
| "usb_descriptor_type_code Report = USB_DESC_HID_REPORT"

definition usb_descriptor_type_try_from :: "u8 \<Rightarrow> protocol_error + usb_descriptor_type" where
  "usb_descriptor_type_try_from v =
    (if v = USB_DESC_DEVICE then Inr Device
     else if v = USB_DESC_CONFIGURATION then Inr Configuration
     else if v = USB_DESC_STRING then Inr StringDesc
     else if v = USB_DESC_INTERFACE then Inr Interface
     else if v = USB_DESC_ENDPOINT then Inr Endpoint
     else if v = USB_DESC_HID_REPORT then Inr Report
     else Inl (InvalidControlTransfer ''unsupported descriptor type''))"

interpretation usb_descriptor_types:
  wire_enum usb_descriptor_type_code usb_descriptor_type_try_from
proof
  show "usb_descriptor_type_try_from (usb_descriptor_type_code x) = Inr x" for x
    by (cases x) (simp_all add: usb_descriptor_type_try_from_def)
  show "usb_descriptor_type_try_from w = Inr x \<Longrightarrow> usb_descriptor_type_code x = w" for w x
    by (auto simp: usb_descriptor_type_try_from_def split: if_splits)
qed

definition USB_REQ_SET_ADDRESS :: u8 where "USB_REQ_SET_ADDRESS = 5"
definition USB_REQ_GET_DESCRIPTOR :: u8 where "USB_REQ_GET_DESCRIPTOR = 6"
definition USB_REQ_SET_CONFIGURATION :: u8 where "USB_REQ_SET_CONFIGURATION = 9"

lemmas req_codes [simp] =
  USB_REQ_SET_ADDRESS_def USB_REQ_GET_DESCRIPTOR_def USB_REQ_SET_CONFIGURATION_def

datatype usb_standard_request = SetAddress | GetDescriptor | SetConfiguration

definition usb_standard_request_try_from :: "u8 \<Rightarrow> protocol_error + usb_standard_request" where
  "usb_standard_request_try_from v =
    (if v = USB_REQ_SET_ADDRESS then Inr SetAddress
     else if v = USB_REQ_GET_DESCRIPTOR then Inr GetDescriptor
     else if v = USB_REQ_SET_CONFIGURATION then Inr SetConfiguration
     else Inl (InvalidControlTransfer ''unsupported standard request''))"

section \<open>The derived orders\<close>

instantiation direction :: linorder begin
definition less_eq_direction :: "direction \<Rightarrow> direction \<Rightarrow> bool" where
  "less_eq_direction x y = (direction_code x \<le> direction_code y)"
definition less_direction :: "direction \<Rightarrow> direction \<Rightarrow> bool" where
  "less_direction x y = (direction_code x < direction_code y)"
instance
  by standard
    (auto simp: less_eq_direction_def less_direction_def directions.code_eq_iff[symmetric])
end

instantiation transfer_type :: linorder begin
definition less_eq_transfer_type :: "transfer_type \<Rightarrow> transfer_type \<Rightarrow> bool" where
  "less_eq_transfer_type x y = (transfer_type_code x \<le> transfer_type_code y)"
definition less_transfer_type :: "transfer_type \<Rightarrow> transfer_type \<Rightarrow> bool" where
  "less_transfer_type x y = (transfer_type_code x < transfer_type_code y)"
instance
  by standard
    (auto simp: less_eq_transfer_type_def less_transfer_type_def
      transfer_types.code_eq_iff[symmetric])
end

end
