(* ===== verification/Usbip_Packets.thy ===== *)
theory Usbip_Packets imports Wire_Enums begin

text \<open>
  The USB/IP packets of \<open>protocol/src/lib.rs\<close>: the basic header, \<open>CMD_SUBMIT\<close>,
  \<open>RET_SUBMIT\<close>, \<open>CMD_UNLINK\<close> and \<open>RET_UNLINK\<close>, with their encoders and decoders.
  \<open>CMD_SUBMIT\<close> is a canonical codec; the other three have padding the decoder does not
  look at, so they are codecs and the theorems say exactly which bytes they accept.
\<close>

definition USBIP_HEADER_LEN :: nat where "USBIP_HEADER_LEN = 48"
definition USBIP_NO_ISO_PACKETS :: u32 where "USBIP_NO_ISO_PACKETS = 0xffffffff"

lemma USBIP_HEADER_LEN_eq [simp]: "USBIP_HEADER_LEN = 48"
  by (simp add: USBIP_HEADER_LEN_def)

section \<open>The basic header\<close>

record usbip_header_basic =
  command :: usbip_command
  seqnum :: u32
  devid :: u32
  hdr_direction :: usbip_direction
  hdr_endpoint :: u32

definition usbip_header_encode :: "usbip_header_basic \<Rightarrow> bytes" where
  "usbip_header_encode h =
     be_bytes 4 (usbip_command_code (command h)) @
     be_bytes 4 (seqnum h) @
     be_bytes 4 (devid h) @
     be_bytes 4 (usbip_direction_code (hdr_direction h)) @
     be_bytes 4 (hdr_endpoint h)"

definition usbip_header_decode :: "bytes \<Rightarrow> protocol_error + usbip_header_basic" where
  "usbip_header_decode bs =
     (if length bs < 20 then Inl (InvalidUsbIpPacket ''basic header too short'')
      else and_then (usbip_command_try_from (read_u32_be bs 0)) (\<lambda>cmd.
           and_then (usbip_direction_try_from (read_u32_be bs 12)) (\<lambda>dir.
             Inr \<lparr>command = cmd, seqnum = read_u32_be bs 4, devid = read_u32_be bs 8,
                  hdr_direction = dir, hdr_endpoint = read_u32_be bs 16\<rparr>)))"

lemma length_usbip_header_encode [simp]: "length (usbip_header_encode h) = 20"
  by (simp add: usbip_header_encode_def)

lemma usbip_header_decode_encode [simp]:
  "usbip_header_decode (usbip_header_encode h @ rest) = Inr h"
  by (simp add: usbip_header_decode_def usbip_header_encode_def field_defs codec_simps
      usbip_commands.try_from_code usbip_directions.try_from_code)

lemma usbip_header_decode_encode' [simp]:
  "usbip_header_decode (usbip_header_encode h) = Inr h"
  using usbip_header_decode_encode [of h "[]"] by simp

lemma usbip_header_decode_canonical:
  assumes "usbip_header_decode bs = Inr h"
  shows "20 \<le> length bs" and "usbip_header_encode h = slice bs 0 20"
proof -
  show len: "20 \<le> length bs"
    using assms by (auto simp: usbip_header_decode_def split: if_splits)
  have fields: "usbip_command_code (command h) = read_u32_be bs 0"
    "usbip_direction_code (hdr_direction h) = read_u32_be bs 12"
    "seqnum h = read_u32_be bs 4" "devid h = read_u32_be bs 8"
    "hdr_endpoint h = read_u32_be bs 16"
    using assms
    by (auto simp: usbip_header_decode_def and_then_Inr_iff usbip_commands.try_from_Inr_iff
        usbip_directions.try_from_Inr_iff split: if_splits)
  have "usbip_header_encode h =
      slice bs 0 4 @ slice bs 4 8 @ slice bs 8 12 @ slice bs 12 16 @ slice bs 16 20"
    using len by (simp add: usbip_header_encode_def fields bytes_of_fields)
  also have "\<dots> = slice bs 0 20"
    by (simp add: slice_append_slice)
  finally show "usbip_header_encode h = slice bs 0 20" .
qed

section \<open>\<open>CMD_SUBMIT\<close>\<close>

record usbip_cmd_submit =
  cs_header :: usbip_header_basic
  cs_transfer_flags :: u32
  cs_transfer_buffer_length :: u32
  cs_start_frame :: u32
  cs_number_of_packets :: u32
  cs_interval :: u32
  cs_setup :: bytes
  cs_transfer_buffer :: bytes

definition usbip_cmd_submit_new ::
  "u32 \<Rightarrow> u32 \<Rightarrow> usbip_direction \<Rightarrow> u32 \<Rightarrow> bytes \<Rightarrow> bytes \<Rightarrow> usbip_cmd_submit" where
  "usbip_cmd_submit_new seq dev dir ep buffer setup =
     \<lparr>cs_header = \<lparr>command = CmdSubmit, seqnum = seq, devid = dev,
                   hdr_direction = dir, hdr_endpoint = ep\<rparr>,
      cs_transfer_flags = 0,
      cs_transfer_buffer_length = of_nat (length buffer),
      cs_start_frame = 0,
      cs_number_of_packets = USBIP_NO_ISO_PACKETS,
      cs_interval = 0,
      cs_setup = setup,
      cs_transfer_buffer = buffer\<rparr>"

definition usbip_cmd_submit_encode :: "usbip_cmd_submit \<Rightarrow> protocol_error + bytes" where
  "usbip_cmd_submit_encode p =
     (if command (cs_header p) \<noteq> CmdSubmit
      then Inl (InvalidUsbIpPacket ''submit header command mismatch'')
      else if hdr_direction (cs_header p) = Out
        \<and> length (cs_transfer_buffer p) \<noteq> unat (cs_transfer_buffer_length p)
      then Inl (InvalidUsbIpPacket ''OUT transfer length mismatch'')
      else if hdr_direction (cs_header p) = In \<and> cs_transfer_buffer p \<noteq> []
      then Inl (InvalidUsbIpPacket ''IN submit must not carry a transfer buffer'')
      else Inr (usbip_header_encode (cs_header p) @
                be_bytes 4 (cs_transfer_flags p) @
                be_bytes 4 (cs_transfer_buffer_length p) @
                be_bytes 4 (cs_start_frame p) @
                be_bytes 4 (cs_number_of_packets p) @
                be_bytes 4 (cs_interval p) @
                cs_setup p @
                cs_transfer_buffer p))"

definition usbip_cmd_submit_decode :: "bytes \<Rightarrow> protocol_error + usbip_cmd_submit" where
  "usbip_cmd_submit_decode bs =
     (if length bs < USBIP_HEADER_LEN then Inl (InvalidUsbIpPacket ''submit too short'')
      else and_then (usbip_header_decode (slice bs 0 20)) (\<lambda>header.
        if command header \<noteq> CmdSubmit
        then Inl (InvalidUsbIpPacket ''submit command mismatch'')
        else let transfer_buffer_length = read_u32_be bs 24;
                 expected_payload_len =
                   (if hdr_direction header = Out then unat transfer_buffer_length else 0)
             in if length bs \<noteq> USBIP_HEADER_LEN + expected_payload_len
                then Inl (InvalidUsbIpPacket ''submit payload length mismatch'')
                else Inr \<lparr>cs_header = header,
                          cs_transfer_flags = read_u32_be bs 20,
                          cs_transfer_buffer_length = transfer_buffer_length,
                          cs_start_frame = read_u32_be bs 28,
                          cs_number_of_packets = read_u32_be bs 32,
                          cs_interval = read_u32_be bs 36,
                          cs_setup = slice bs 40 48,
                          cs_transfer_buffer = drop USBIP_HEADER_LEN bs\<rparr>))"

text \<open>
  \<open>cs_setup\<close> is a Rust array of eight bytes, which the first conjunct says of the list
  that models it; the other conjuncts are the checks of the encoder.
\<close>

definition wf_cmd_submit :: "usbip_cmd_submit \<Rightarrow> bool" where
  "wf_cmd_submit p \<longleftrightarrow>
     length (cs_setup p) = 8 \<and>
     command (cs_header p) = CmdSubmit \<and>
     (case hdr_direction (cs_header p) of
        Out \<Rightarrow> length (cs_transfer_buffer p) = unat (cs_transfer_buffer_length p)
      | In \<Rightarrow> cs_transfer_buffer p = [])"

interpretation cmd_submit:
  canonical_codec wf_cmd_submit usbip_cmd_submit_encode usbip_cmd_submit_decode
proof
  fix p :: usbip_cmd_submit and bs :: bytes
  show "wf_cmd_submit p \<Longrightarrow> \<exists>b. usbip_cmd_submit_encode p = Inr b"
    by (cases "hdr_direction (cs_header p)")
      (auto simp: wf_cmd_submit_def usbip_cmd_submit_encode_def)
  show "wf_cmd_submit p \<Longrightarrow> usbip_cmd_submit_encode p = Inr bs \<Longrightarrow>
      usbip_cmd_submit_decode bs = Inr p"
    by (cases "hdr_direction (cs_header p)")
      (auto simp: wf_cmd_submit_def usbip_cmd_submit_encode_def usbip_cmd_submit_decode_def
        field_defs codec_simps)
  assume dec: "usbip_cmd_submit_decode bs = Inr p"
  show "wf_cmd_submit p"
    using dec
    by (auto simp: wf_cmd_submit_def usbip_cmd_submit_decode_def Let_def and_then_Inr_iff
        split: if_splits usbip_direction.splits)
  have len: "48 \<le> length bs"
    using dec by (auto simp: usbip_cmd_submit_decode_def split: if_splits)
  have hdr: "usbip_header_encode (cs_header p) = slice bs 0 20"
    using dec usbip_header_decode_canonical(2) len
    by (auto simp: usbip_cmd_submit_decode_def Let_def and_then_Inr_iff codec_simps
        split: if_splits)
  have "usbip_cmd_submit_encode p = Inr (slice bs 0 20 @ slice bs 20 24 @ slice bs 24 28 @
      slice bs 28 32 @ slice bs 32 36 @ slice bs 36 40 @ slice bs 40 48 @ drop 48 bs)"
    using dec len
    by (auto simp: usbip_cmd_submit_decode_def usbip_cmd_submit_encode_def hdr Let_def
        and_then_Inr_iff bytes_of_fields split: if_splits)
  also have "\<dots> = Inr bs"
    by (simp add: slice_append_drop)
  finally show "usbip_cmd_submit_encode p = Inr bs" .
qed

section \<open>\<open>RET_SUBMIT\<close>\<close>

record usbip_ret_submit =
  rs_header :: usbip_header_basic
  rs_status :: i32
  rs_actual_length :: u32
  rs_start_frame :: u32
  rs_number_of_packets :: u32
  rs_error_count :: u32
  rs_transfer_buffer :: bytes

definition usbip_ret_submit_ok_for :: "usbip_cmd_submit \<Rightarrow> bytes \<Rightarrow> usbip_ret_submit" where
  "usbip_ret_submit_ok_for submit buffer =
     \<lparr>rs_header = \<lparr>command = RetSubmit, seqnum = seqnum (cs_header submit), devid = 0,
                   hdr_direction = Out, hdr_endpoint = 0\<rparr>,
      rs_status = 0,
      rs_actual_length = of_nat (length buffer),
      rs_start_frame = 0,
      rs_number_of_packets = USBIP_NO_ISO_PACKETS,
      rs_error_count = 0,
      rs_transfer_buffer = buffer\<rparr>"

definition usbip_ret_submit_encode :: "usbip_ret_submit \<Rightarrow> protocol_error + bytes" where
  "usbip_ret_submit_encode p =
     (if command (rs_header p) \<noteq> RetSubmit
      then Inl (InvalidUsbIpPacket ''ret submit header command mismatch'')
      else if length (rs_transfer_buffer p) \<noteq> unat (rs_actual_length p)
      then Inl (InvalidUsbIpPacket ''ret submit actual length mismatch'')
      else Inr (usbip_header_encode (rs_header p) @
                be_bytes 4 (rs_status p) @
                be_bytes 4 (rs_actual_length p) @
                be_bytes 4 (rs_start_frame p) @
                be_bytes 4 (rs_number_of_packets p) @
                be_bytes 4 (rs_error_count p) @
                replicate 8 0 @
                rs_transfer_buffer p))"

definition usbip_ret_submit_decode :: "bytes \<Rightarrow> protocol_error + usbip_ret_submit" where
  "usbip_ret_submit_decode bs =
     (if length bs < USBIP_HEADER_LEN then Inl (InvalidUsbIpPacket ''ret submit too short'')
      else and_then (usbip_header_decode (slice bs 0 20)) (\<lambda>header.
        if command header \<noteq> RetSubmit
        then Inl (InvalidUsbIpPacket ''ret submit command mismatch'')
        else let actual_length = read_u32_be bs 24
             in if length bs \<noteq> USBIP_HEADER_LEN + unat actual_length
                then Inl (InvalidUsbIpPacket ''ret submit payload length mismatch'')
                else Inr \<lparr>rs_header = header,
                          rs_status = read_u32_be bs 20,
                          rs_actual_length = actual_length,
                          rs_start_frame = read_u32_be bs 28,
                          rs_number_of_packets = read_u32_be bs 32,
                          rs_error_count = read_u32_be bs 36,
                          rs_transfer_buffer = drop USBIP_HEADER_LEN bs\<rparr>))"

definition wf_ret_submit :: "usbip_ret_submit \<Rightarrow> bool" where
  "wf_ret_submit p \<longleftrightarrow>
     command (rs_header p) = RetSubmit \<and> length (rs_transfer_buffer p) = unat (rs_actual_length p)"

lemma ret_submit_encode_Inr_iff:
  "usbip_ret_submit_encode p = Inr bs \<longleftrightarrow> wf_ret_submit p \<and>
     bs = usbip_header_encode (rs_header p) @ be_bytes 4 (rs_status p) @
       be_bytes 4 (rs_actual_length p) @ be_bytes 4 (rs_start_frame p) @
       be_bytes 4 (rs_number_of_packets p) @ be_bytes 4 (rs_error_count p) @
       replicate 8 0 @ rs_transfer_buffer p"
  by (auto simp: usbip_ret_submit_encode_def wf_ret_submit_def)

lemma ret_submit_decode_padded:
  assumes "wf_ret_submit p" and "length pad = 8"
  shows "usbip_ret_submit_decode
     (usbip_header_encode (rs_header p) @ be_bytes 4 (rs_status p) @
       be_bytes 4 (rs_actual_length p) @ be_bytes 4 (rs_start_frame p) @
       be_bytes 4 (rs_number_of_packets p) @ be_bytes 4 (rs_error_count p) @
       pad @ rs_transfer_buffer p) = Inr p"
  using assms
  by (simp add: wf_ret_submit_def usbip_ret_submit_decode_def field_defs codec_simps)

lemma ret_submit_decode_fields:
  assumes "usbip_ret_submit_decode bs = Inr p"
  shows "wf_ret_submit p" and "48 \<le> length bs"
    and "bs = usbip_header_encode (rs_header p) @ be_bytes 4 (rs_status p) @
       be_bytes 4 (rs_actual_length p) @ be_bytes 4 (rs_start_frame p) @
       be_bytes 4 (rs_number_of_packets p) @ be_bytes 4 (rs_error_count p) @
       slice bs 40 48 @ rs_transfer_buffer p"
proof -
  show "wf_ret_submit p"
    using assms
    by (auto simp: wf_ret_submit_def usbip_ret_submit_decode_def Let_def and_then_Inr_iff
        split: if_splits)
  show len: "48 \<le> length bs"
    using assms by (auto simp: usbip_ret_submit_decode_def split: if_splits)
  have hdr: "usbip_header_encode (rs_header p) = slice bs 0 20"
    using assms usbip_header_decode_canonical(2) len
    by (auto simp: usbip_ret_submit_decode_def Let_def and_then_Inr_iff codec_simps
        split: if_splits)
  have fields: "rs_status p = read_u32_be bs 20" "rs_actual_length p = read_u32_be bs 24"
    "rs_start_frame p = read_u32_be bs 28" "rs_number_of_packets p = read_u32_be bs 32"
    "rs_error_count p = read_u32_be bs 36" "rs_transfer_buffer p = drop 48 bs"
    using assms
    by (auto simp: usbip_ret_submit_decode_def Let_def and_then_Inr_iff split: if_splits)
  have "usbip_header_encode (rs_header p) @ be_bytes 4 (rs_status p) @
       be_bytes 4 (rs_actual_length p) @ be_bytes 4 (rs_start_frame p) @
       be_bytes 4 (rs_number_of_packets p) @ be_bytes 4 (rs_error_count p) @
       slice bs 40 48 @ rs_transfer_buffer p
     = slice bs 0 20 @ slice bs 20 24 @ slice bs 24 28 @ slice bs 28 32 @ slice bs 32 36 @
       slice bs 36 40 @ slice bs 40 48 @ drop 48 bs"
    using len by (simp add: fields hdr bytes_of_fields)
  also have "\<dots> = bs"
    by (simp add: slice_append_drop)
  finally show "bs = usbip_header_encode (rs_header p) @ be_bytes 4 (rs_status p) @
       be_bytes 4 (rs_actual_length p) @ be_bytes 4 (rs_start_frame p) @
       be_bytes 4 (rs_number_of_packets p) @ be_bytes 4 (rs_error_count p) @
       slice bs 40 48 @ rs_transfer_buffer p" ..
qed

interpretation ret_submit:
  codec wf_ret_submit usbip_ret_submit_encode usbip_ret_submit_decode
proof
  fix p :: usbip_ret_submit and bs :: bytes
  show "wf_ret_submit p \<Longrightarrow> \<exists>b. usbip_ret_submit_encode p = Inr b"
    by (simp add: wf_ret_submit_def usbip_ret_submit_encode_def)
  show "wf_ret_submit p \<Longrightarrow> usbip_ret_submit_encode p = Inr bs \<Longrightarrow>
      usbip_ret_submit_decode bs = Inr p"
    by (auto simp: ret_submit_encode_Inr_iff ret_submit_decode_padded)
  show "usbip_ret_submit_decode bs = Inr p \<Longrightarrow> wf_ret_submit p"
    by (rule ret_submit_decode_fields)
qed

section \<open>\<open>CMD_UNLINK\<close> and \<open>RET_UNLINK\<close>\<close>

record usbip_cmd_unlink =
  cu_header :: usbip_header_basic
  cu_unlink_seqnum :: u32

definition usbip_cmd_unlink_new :: "u32 \<Rightarrow> u32 \<Rightarrow> u32 \<Rightarrow> usbip_cmd_unlink" where
  "usbip_cmd_unlink_new seq dev unlink_seqnum =
     \<lparr>cu_header = \<lparr>command = CmdUnlink, seqnum = seq, devid = dev,
                   hdr_direction = Out, hdr_endpoint = 0\<rparr>,
      cu_unlink_seqnum = unlink_seqnum\<rparr>"

definition usbip_cmd_unlink_encode :: "usbip_cmd_unlink \<Rightarrow> bytes" where
  "usbip_cmd_unlink_encode p =
     usbip_header_encode (cu_header p) @ be_bytes 4 (cu_unlink_seqnum p) @ replicate 24 0"

definition usbip_cmd_unlink_decode :: "bytes \<Rightarrow> protocol_error + usbip_cmd_unlink" where
  "usbip_cmd_unlink_decode bs =
     (if length bs \<noteq> USBIP_HEADER_LEN then Inl (InvalidUsbIpPacket ''unlink length mismatch'')
      else and_then (usbip_header_decode (slice bs 0 20)) (\<lambda>header.
        if command header \<noteq> CmdUnlink
        then Inl (InvalidUsbIpPacket ''unlink command mismatch'')
        else Inr \<lparr>cu_header = header, cu_unlink_seqnum = read_u32_be bs 20\<rparr>))"

definition wf_cmd_unlink :: "usbip_cmd_unlink \<Rightarrow> bool" where
  "wf_cmd_unlink p \<longleftrightarrow> command (cu_header p) = CmdUnlink"

record usbip_ret_unlink =
  ru_header :: usbip_header_basic
  ru_status :: i32

definition usbip_ret_unlink_new :: "u32 \<Rightarrow> i32 \<Rightarrow> usbip_ret_unlink" where
  "usbip_ret_unlink_new seq status =
     \<lparr>ru_header = \<lparr>command = RetUnlink, seqnum = seq, devid = 0,
                   hdr_direction = Out, hdr_endpoint = 0\<rparr>,
      ru_status = status\<rparr>"

definition usbip_ret_unlink_encode :: "usbip_ret_unlink \<Rightarrow> bytes" where
  "usbip_ret_unlink_encode p =
     usbip_header_encode (ru_header p) @ be_bytes 4 (ru_status p) @ replicate 24 0"

definition usbip_ret_unlink_decode :: "bytes \<Rightarrow> protocol_error + usbip_ret_unlink" where
  "usbip_ret_unlink_decode bs =
     (if length bs \<noteq> USBIP_HEADER_LEN
      then Inl (InvalidUsbIpPacket ''ret unlink length mismatch'')
      else and_then (usbip_header_decode (slice bs 0 20)) (\<lambda>header.
        if command header \<noteq> RetUnlink
        then Inl (InvalidUsbIpPacket ''ret unlink command mismatch'')
        else Inr \<lparr>ru_header = header, ru_status = read_u32_be bs 20\<rparr>))"

definition wf_ret_unlink :: "usbip_ret_unlink \<Rightarrow> bool" where
  "wf_ret_unlink p \<longleftrightarrow> command (ru_header p) = RetUnlink"

text \<open>
  The last 24 bytes are padding: the decoders accept any.
\<close>

lemma cmd_unlink_decode_padded:
  "wf_cmd_unlink p \<Longrightarrow> length pad = 24 \<Longrightarrow>
   usbip_cmd_unlink_decode
     (usbip_header_encode (cu_header p) @ be_bytes 4 (cu_unlink_seqnum p) @ pad) = Inr p"
  by (simp add: wf_cmd_unlink_def usbip_cmd_unlink_decode_def field_defs codec_simps)

lemma ret_unlink_decode_padded:
  "wf_ret_unlink p \<Longrightarrow> length pad = 24 \<Longrightarrow>
   usbip_ret_unlink_decode
     (usbip_header_encode (ru_header p) @ be_bytes 4 (ru_status p) @ pad) = Inr p"
  by (simp add: wf_ret_unlink_def usbip_ret_unlink_decode_def field_defs codec_simps)

lemma cmd_unlink_decode_fields:
  assumes "usbip_cmd_unlink_decode bs = Inr p"
  shows "wf_cmd_unlink p" and "length bs = 48"
    and "usbip_header_encode (cu_header p) @ be_bytes 4 (cu_unlink_seqnum p) = slice bs 0 24"
proof -
  show wf: "wf_cmd_unlink p" and len: "length bs = 48"
    using assms
    by (auto simp: usbip_cmd_unlink_decode_def wf_cmd_unlink_def and_then_Inr_iff split: if_splits)
  have "usbip_header_encode (cu_header p) = slice bs 0 20"
    and "cu_unlink_seqnum p = read_u32_be bs 20"
    using assms usbip_header_decode_canonical(2) len
    by (auto simp: usbip_cmd_unlink_decode_def and_then_Inr_iff codec_simps split: if_splits)
  then show "usbip_header_encode (cu_header p) @ be_bytes 4 (cu_unlink_seqnum p) = slice bs 0 24"
    using len by (simp add: bytes_of_fields slice_append_slice)
qed

lemma ret_unlink_decode_fields:
  assumes "usbip_ret_unlink_decode bs = Inr p"
  shows "wf_ret_unlink p" and "length bs = 48"
    and "usbip_header_encode (ru_header p) @ be_bytes 4 (ru_status p) = slice bs 0 24"
proof -
  show wf: "wf_ret_unlink p" and len: "length bs = 48"
    using assms
    by (auto simp: usbip_ret_unlink_decode_def wf_ret_unlink_def and_then_Inr_iff split: if_splits)
  have "usbip_header_encode (ru_header p) = slice bs 0 20"
    and "ru_status p = read_u32_be bs 20"
    using assms usbip_header_decode_canonical(2) len
    by (auto simp: usbip_ret_unlink_decode_def and_then_Inr_iff codec_simps split: if_splits)
  then show "usbip_header_encode (ru_header p) @ be_bytes 4 (ru_status p) = slice bs 0 24"
    using len by (simp add: bytes_of_fields slice_append_slice)
qed

interpretation cmd_unlink:
  codec wf_cmd_unlink "\<lambda>p. Inr (usbip_cmd_unlink_encode p)" usbip_cmd_unlink_decode
  by unfold_locales
    (auto simp: usbip_cmd_unlink_encode_def cmd_unlink_decode_padded
      dest: cmd_unlink_decode_fields(1))

interpretation ret_unlink:
  codec wf_ret_unlink "\<lambda>p. Inr (usbip_ret_unlink_encode p)" usbip_ret_unlink_decode
  by unfold_locales
    (auto simp: usbip_ret_unlink_encode_def ret_unlink_decode_padded
      dest: ret_unlink_decode_fields(1))

section \<open>What the decoders accept\<close>

text \<open>C31: A byte string is accepted as a \<open>CMD_SUBMIT\<close> packet exactly when it is the
  encoding of a packet that the encoder accepts: decoding and encoding are inverse to each
  other, and no two byte strings decode to the same packet.\<close>

theorem usbip_cmd_submit_exact:
  "usbip_cmd_submit_decode bs = Inr p \<longleftrightarrow>
     wf_cmd_submit p \<and> usbip_cmd_submit_encode p = Inr bs"
  by (rule cmd_submit.dec_iff)

text \<open>A byte string is accepted as a \<open>RET_SUBMIT\<close> packet exactly when, with its
  eight bytes of padding set to zero, it is the encoding of a packet the encoder accepts.\<close>

theorem usbip_ret_submit_exact:
  "usbip_ret_submit_decode bs = Inr p \<longleftrightarrow>
     48 \<le> length bs \<and>
     usbip_ret_submit_encode p = Inr (slice bs 0 40 @ replicate 8 0 @ drop 48 bs)"
proof
  assume dec: "usbip_ret_submit_decode bs = Inr p"
  note f = ret_submit_decode_fields [OF dec]
  have "slice bs 0 40 = usbip_header_encode (rs_header p) @ be_bytes 4 (rs_status p) @
       be_bytes 4 (rs_actual_length p) @ be_bytes 4 (rs_start_frame p) @
       be_bytes 4 (rs_number_of_packets p) @ be_bytes 4 (rs_error_count p)"
    by (subst f(3)) (simp add: codec_simps)
  moreover have "drop 48 bs = rs_transfer_buffer p"
    using f(2) by (subst f(3)) simp
  ultimately show "48 \<le> length bs \<and>
      usbip_ret_submit_encode p = Inr (slice bs 0 40 @ replicate 8 0 @ drop 48 bs)"
    using f(1,2) by (simp add: ret_submit_encode_Inr_iff)
next
  assume enc: "48 \<le> length bs \<and>
      usbip_ret_submit_encode p = Inr (slice bs 0 40 @ replicate 8 0 @ drop 48 bs)"
  let ?head = "usbip_header_encode (rs_header p) @ be_bytes 4 (rs_status p) @
       be_bytes 4 (rs_actual_length p) @ be_bytes 4 (rs_start_frame p) @
       be_bytes 4 (rs_number_of_packets p) @ be_bytes 4 (rs_error_count p)"
  have "slice bs 0 40 @ (replicate 8 0 @ drop 48 bs) = ?head @ (replicate 8 0 @ rs_transfer_buffer p)"
    using enc by (simp add: ret_submit_encode_Inr_iff)
  then have "slice bs 0 40 = ?head \<and> drop 48 bs = rs_transfer_buffer p"
    using enc by (subst (asm) append_eq_append_conv) auto
  moreover have "bs = slice bs 0 40 @ slice bs 40 48 @ drop 48 bs"
    by (simp add: slice_append_drop)
  ultimately have "bs = ?head @ slice bs 40 48 @ rs_transfer_buffer p"
    by metis
  moreover have "length (slice bs 40 48) = 8" and "wf_ret_submit p"
    using enc by (auto simp: ret_submit_encode_Inr_iff)
  ultimately show "usbip_ret_submit_decode bs = Inr p"
    using ret_submit_decode_padded by fastforce
qed

end
