(* ===== verification/Control_Transfer.thy ===== *)
theory Control_Transfer imports Wire_Enums begin

text \<open>
  \<open>UsbControlSetup\<close> and \<open>UsbControlTransfer\<close> of \<open>protocol/src/lib.rs\<close>: the eight-byte
  setup packet of a USB control transfer, its constructors for the standard requests, its
  accessors, and the control transfer with its data stage. Both are canonical codecs.
\<close>

section \<open>Setup packets\<close>

record usb_control_setup =
  setup_request_type :: u8
  setup_request :: u8
  setup_value :: u16
  setup_index :: u16
  setup_length :: u16

definition setup_get_descriptor :: "usb_descriptor_type \<Rightarrow> u8 \<Rightarrow> u16 \<Rightarrow> usb_control_setup" where
  "setup_get_descriptor descriptor_type descriptor_index len =
     \<lparr>setup_request_type = 0x80,
      setup_request = USB_REQ_GET_DESCRIPTOR,
      setup_value = push_bit 8 (ucast (usb_descriptor_type_code descriptor_type))
                    OR ucast descriptor_index,
      setup_index = 0,
      setup_length = len\<rparr>"

definition setup_get_interface_descriptor ::
  "usb_descriptor_type \<Rightarrow> u8 \<Rightarrow> u8 \<Rightarrow> u16 \<Rightarrow> usb_control_setup" where
  "setup_get_interface_descriptor descriptor_type descriptor_index interface_number len =
     \<lparr>setup_request_type = 0x81,
      setup_request = USB_REQ_GET_DESCRIPTOR,
      setup_value = push_bit 8 (ucast (usb_descriptor_type_code descriptor_type))
                    OR ucast descriptor_index,
      setup_index = ucast interface_number,
      setup_length = len\<rparr>"

definition setup_set_address :: "u8 \<Rightarrow> usb_control_setup" where
  "setup_set_address address =
     \<lparr>setup_request_type = 0, setup_request = USB_REQ_SET_ADDRESS,
      setup_value = ucast address, setup_index = 0, setup_length = 0\<rparr>"

definition setup_set_configuration :: "u8 \<Rightarrow> usb_control_setup" where
  "setup_set_configuration configuration_value =
     \<lparr>setup_request_type = 0, setup_request = USB_REQ_SET_CONFIGURATION,
      setup_value = ucast configuration_value, setup_index = 0, setup_length = 0\<rparr>"

definition setup_standard_request ::
  "usb_control_setup \<Rightarrow> protocol_error + usb_standard_request" where
  "setup_standard_request s = usb_standard_request_try_from (setup_request s)"

definition setup_descriptor_type ::
  "usb_control_setup \<Rightarrow> protocol_error + usb_descriptor_type" where
  "setup_descriptor_type s = usb_descriptor_type_try_from (ucast (drop_bit 8 (setup_value s)))"

definition setup_descriptor_index :: "usb_control_setup \<Rightarrow> u8" where
  "setup_descriptor_index s = ucast (setup_value s AND 0xff)"

definition setup_transfer_direction :: "usb_control_setup \<Rightarrow> direction" where
  "setup_transfer_direction s =
     (if setup_request_type s AND 0x80 \<noteq> 0 then DeviceToHost else HostToDevice)"

definition usb_control_setup_encode :: "usb_control_setup \<Rightarrow> bytes" where
  "usb_control_setup_encode s =
     [setup_request_type s, setup_request s] @
     le_bytes 2 (setup_value s) @ le_bytes 2 (setup_index s) @ le_bytes 2 (setup_length s)"

definition usb_control_setup_decode :: "bytes \<Rightarrow> protocol_error + usb_control_setup" where
  "usb_control_setup_decode bs =
     (if length bs \<noteq> 8 then Inl (InvalidControlTransfer ''setup packet must be 8 bytes'')
      else Inr \<lparr>setup_request_type = bs ! 0, setup_request = bs ! 1,
                setup_value = read_u16_le bs 2, setup_index = read_u16_le bs 4,
                setup_length = read_u16_le bs 6\<rparr>)"

lemma length_usb_control_setup_encode [simp]: "length (usb_control_setup_encode s) = 8"
  by (simp add: usb_control_setup_encode_def)

lemma usb_control_setup_decode_encode [simp]:
  "usb_control_setup_decode (usb_control_setup_encode s) = Inr s"
  by (simp add: usb_control_setup_decode_def usb_control_setup_encode_def field_defs codec_simps)

lemma usb_control_setup_canonical:
  assumes "usb_control_setup_decode bs = Inr s"
  shows "usb_control_setup_encode s = bs"
proof -
  have len: "length bs = 8" and s: "s = \<lparr>setup_request_type = bs ! 0, setup_request = bs ! 1,
      setup_value = read_u16_le bs 2, setup_index = read_u16_le bs 4,
      setup_length = read_u16_le bs 6\<rparr>"
    using assms by (auto simp: usb_control_setup_decode_def split: if_splits)
  have "slice bs 0 1 = [bs ! 0]" and "slice bs 1 2 = [bs ! 1]"
    using len by (simp_all only: slice_single)
  then have "usb_control_setup_encode s =
      slice bs 0 1 @ slice bs 1 2 @ slice bs 2 4 @ slice bs 4 6 @ slice bs 6 8"
    using len by (simp add: usb_control_setup_encode_def s bytes_of_fields)
  also have "\<dots> = bs"
    using len by (simp add: slice_append_slice codec_simps)
  finally show ?thesis .
qed

interpretation control_setup:
  canonical_codec "\<lambda>_. True" "\<lambda>s. Inr (usb_control_setup_encode s)" usb_control_setup_decode
  by unfold_locales (auto dest: usb_control_setup_canonical)

text \<open>
  What the accessors read from the requests the constructors build.
\<close>

lemma high_byte_of_value:
  "ucast (drop_bit 8 (push_bit 8 (ucast (a :: u8))) OR drop_bit 8 (ucast (b :: u8)) :: u16) = a"
  by (rule bit_word_eqI) (auto simp: bit_simps dest: bit_imp_le_length)

lemma low_byte_of_value:
  "ucast ((push_bit 8 (ucast (a :: u8)) OR ucast (b :: u8) :: u16) AND 255) = b"
proof -
  have "w AND 255 = take_bit 8 w" for w :: u16
    by (simp add: take_bit_eq_mask mask_eq_exp_minus_1)
  then show ?thesis
    by (simp only:) (intro bit_word_eqI, auto simp: bit_simps dest: bit_imp_le_length)
qed

lemma setup_get_descriptor_fields [simp]:
  "setup_standard_request (setup_get_descriptor t i len) = Inr GetDescriptor"
  "setup_descriptor_type (setup_get_descriptor t i len) = Inr t"
  "setup_descriptor_index (setup_get_descriptor t i len) = i"
  "setup_transfer_direction (setup_get_descriptor t i len) = DeviceToHost"
  "setup_index (setup_get_descriptor t i len) = 0"
  "setup_length (setup_get_descriptor t i len) = len"
  by (simp_all add: setup_standard_request_def setup_descriptor_type_def
      setup_descriptor_index_def setup_transfer_direction_def setup_get_descriptor_def
      usb_standard_request_try_from_def high_byte_of_value low_byte_of_value
      usb_descriptor_types.try_from_code)

lemma setup_get_interface_descriptor_fields [simp]:
  "setup_standard_request (setup_get_interface_descriptor t i n len) = Inr GetDescriptor"
  "setup_descriptor_type (setup_get_interface_descriptor t i n len) = Inr t"
  "setup_descriptor_index (setup_get_interface_descriptor t i n len) = i"
  "setup_transfer_direction (setup_get_interface_descriptor t i n len) = DeviceToHost"
  "ucast (setup_index (setup_get_interface_descriptor t i n len)) = n"
  "setup_length (setup_get_interface_descriptor t i n len) = len"
  by (simp_all add: setup_standard_request_def setup_descriptor_type_def
      setup_descriptor_index_def setup_transfer_direction_def setup_get_interface_descriptor_def
      usb_standard_request_try_from_def high_byte_of_value low_byte_of_value
      usb_descriptor_types.try_from_code)

lemma setup_set_address_fields [simp]:
  "setup_standard_request (setup_set_address a) = Inr SetAddress"
  "setup_transfer_direction (setup_set_address a) = HostToDevice"
  "setup_value (setup_set_address a) = ucast a"
  "setup_length (setup_set_address a) = 0"
  by (simp_all add: setup_standard_request_def setup_transfer_direction_def
      setup_set_address_def usb_standard_request_try_from_def)

lemma setup_set_configuration_fields [simp]:
  "setup_standard_request (setup_set_configuration c) = Inr SetConfiguration"
  "setup_transfer_direction (setup_set_configuration c) = HostToDevice"
  "setup_value (setup_set_configuration c) = ucast c"
  "setup_length (setup_set_configuration c) = 0"
  by (simp_all add: setup_standard_request_def setup_transfer_direction_def
      setup_set_configuration_def usb_standard_request_try_from_def)

section \<open>Control transfers\<close>

record usb_control_transfer =
  ct_setup :: usb_control_setup
  ct_data :: bytes

definition control_transfer_new :: "usb_control_setup \<Rightarrow> bytes \<Rightarrow> usb_control_transfer" where
  "control_transfer_new setup data = \<lparr>ct_setup = setup, ct_data = data\<rparr>"

definition control_transfer_setup_only :: "usb_control_setup \<Rightarrow> usb_control_transfer" where
  "control_transfer_setup_only setup = control_transfer_new setup []"

definition control_transfer_encode :: "usb_control_transfer \<Rightarrow> bytes" where
  "control_transfer_encode t = usb_control_setup_encode (ct_setup t) @ ct_data t"

definition control_transfer_decode :: "bytes \<Rightarrow> protocol_error + usb_control_transfer" where
  "control_transfer_decode bs =
     (if length bs < 8
      then Inl (InvalidControlTransfer ''control transfer payload too short'')
      else and_then (usb_control_setup_decode (slice bs 0 8)) (\<lambda>setup.
        Inr \<lparr>ct_setup = setup, ct_data = drop 8 bs\<rparr>))"

lemma control_transfer_decode_encode [simp]:
  "control_transfer_decode (control_transfer_encode t) = Inr t"
  by (simp add: control_transfer_decode_def control_transfer_encode_def codec_simps)

lemma control_transfer_canonical:
  assumes "control_transfer_decode bs = Inr t"
  shows "control_transfer_encode t = bs"
proof -
  have "usb_control_setup_encode (ct_setup t) = slice bs 0 8" and "ct_data t = drop 8 bs"
    using assms
    by (auto simp: control_transfer_decode_def and_then_Inr_iff usb_control_setup_canonical
        split: if_splits)
  then show ?thesis
    by (simp add: control_transfer_encode_def slice_append_drop)
qed

interpretation control_transfers:
  canonical_codec "\<lambda>_. True" "\<lambda>t. Inr (control_transfer_encode t)" control_transfer_decode
  by unfold_locales (auto dest: control_transfer_canonical)

lemma control_transfer_decode_total:
  "8 \<le> length bs \<Longrightarrow> \<exists>t. control_transfer_decode bs = Inr t"
  by (simp add: control_transfer_decode_def usb_control_setup_decode_def)

text \<open>The daemon reads from a payload exactly the control transfer that was written:
  a payload decodes to a transfer when it is that transfer's encoding, and the only payloads
  that are refused are those of fewer than eight bytes.\<close>

theorem control_transfer_exact:
  "(control_transfer_decode bs = Inr t \<longleftrightarrow> control_transfer_encode t = bs) \<and>
   (control_transfer_decode bs = Inl e \<longleftrightarrow>
      length bs < 8 \<and> e = InvalidControlTransfer ''control transfer payload too short'')"
proof
  show "control_transfer_decode bs = Inr t \<longleftrightarrow> control_transfer_encode t = bs"
    using control_transfers.dec_iff [of bs t] by simp
  show "control_transfer_decode bs = Inl e \<longleftrightarrow>
      length bs < 8 \<and> e = InvalidControlTransfer ''control transfer payload too short''"
    by (auto simp: control_transfer_decode_def usb_control_setup_decode_def)
qed

end
