(* ===== verification/Mock_Payloads.thy ===== *)
theory Mock_Payloads imports Wire_Enums begin

text \<open>
  \<open>MockBulkPayload\<close> with its rotate-and-add checksum and \<open>HidKeyboardInputReport\<close> of
  \<open>protocol/src/lib.rs\<close>. The lemmas show the round trips, and that the checksum detects
  every corruption of a single data byte.
\<close>

section \<open>The checksum\<close>

definition checksum_step :: "u8 \<Rightarrow> u32 \<Rightarrow> u32" where
  "checksum_step b acc = word_rotl 5 acc + ucast b"

definition checksum :: "bytes \<Rightarrow> u32" where
  "checksum bs = fold checksum_step bs 0"

lemma checksum_step_inj_acc: "checksum_step b x = checksum_step b y \<longleftrightarrow> x = y"
proof
  assume "checksum_step b x = checksum_step b y"
  then have "word_rotr 5 (word_rotl 5 x) = word_rotr 5 (word_rotl 5 y)"
    by (simp add: checksum_step_def)
  then show "x = y" by simp
qed simp

lemma ucast_u8_u32_inj: "(ucast (a :: u8) :: u32) = ucast b \<longleftrightarrow> a = b"
  by (metis ucast_u8_u32_u8)

lemma checksum_step_inj_byte: "checksum_step a x = checksum_step b x \<longleftrightarrow> a = b"
  by (simp add: checksum_step_def ucast_u8_u32_inj)

lemma fold_checksum_inj:
  "fold checksum_step bs x = fold checksum_step bs y \<longleftrightarrow> x = y"
  by (induction bs arbitrary: x y) (simp_all add: checksum_step_inj_acc)

lemma checksum_single_byte:
  "checksum (pre @ a # post) = checksum (pre @ b # post) \<longleftrightarrow> a = b"
  by (simp add: checksum_def fold_checksum_inj checksum_step_inj_byte)

section \<open>Bulk payloads\<close>

definition MOCK_BULK_MAGIC :: bytes where "MOCK_BULK_MAGIC = [0x57, 0x42, 0x55, 0x4C]"
definition MOCK_BULK_VERSION :: u8 where "MOCK_BULK_VERSION = 1"
definition MOCK_BULK_HEADER_LEN :: nat where "MOCK_BULK_HEADER_LEN = 16"

lemma mock_bulk_consts [simp]:
  "MOCK_BULK_MAGIC = [0x57, 0x42, 0x55, 0x4C]" "MOCK_BULK_VERSION = 1"
  "MOCK_BULK_HEADER_LEN = 16"
  by (simp_all add: MOCK_BULK_MAGIC_def MOCK_BULK_VERSION_def MOCK_BULK_HEADER_LEN_def)

record mock_bulk_payload =
  bulk_data :: bytes

definition mock_bulk_synthetic :: "u64 \<Rightarrow> nat \<Rightarrow> mock_bulk_payload" where
  "mock_bulk_synthetic request_id data_len =
     (let seed = le_bytes 8 request_id
      in \<lparr>bulk_data = map (\<lambda>index. seed ! (index mod length seed) + of_nat index) [0..<data_len]\<rparr>)"

definition mock_bulk_checksum :: "mock_bulk_payload \<Rightarrow> u32" where
  "mock_bulk_checksum p = checksum (bulk_data p)"

text \<open>
  \<open>encode\<close> panics (\<open>expect\<close>) when the length does not fit into a \<open>u32\<close>: \<open>None\<close>.
\<close>

definition mock_bulk_encode :: "mock_bulk_payload \<Rightarrow> bytes option" where
  "mock_bulk_encode p =
     (if length (bulk_data p) < 2 ^ 32
      then Some (MOCK_BULK_MAGIC @ [MOCK_BULK_VERSION] @ [0, 0, 0] @
                 be_bytes 4 (of_nat (length (bulk_data p)) :: u32) @
                 be_bytes 4 (mock_bulk_checksum p) @
                 bulk_data p)
      else None)"

definition mock_bulk_decode :: "bytes \<Rightarrow> protocol_error + mock_bulk_payload" where
  "mock_bulk_decode bs =
     (if length bs < MOCK_BULK_HEADER_LEN then Inl (InvalidBulkPayload ''payload too short'')
      else if slice bs 0 4 \<noteq> MOCK_BULK_MAGIC then Inl (InvalidBulkPayload ''invalid magic'')
      else if bs ! 4 \<noteq> MOCK_BULK_VERSION then Inl (InvalidBulkPayload ''unsupported version'')
      else let data_len = unat (read_u32_be bs 8);
               expected_checksum = read_u32_be bs 12
           in if length bs \<noteq> MOCK_BULK_HEADER_LEN + data_len
              then Inl (InvalidBulkPayload ''data length mismatch'')
              else let data = drop MOCK_BULK_HEADER_LEN bs
                   in if checksum data \<noteq> expected_checksum
                      then Inl (InvalidBulkPayload ''checksum mismatch'')
                      else Inr \<lparr>bulk_data = data\<rparr>)"

definition wf_mock_bulk :: "mock_bulk_payload \<Rightarrow> bool" where
  "wf_mock_bulk p \<longleftrightarrow> length (bulk_data p) < 2 ^ 32"

lemma mock_bulk_decode_Inr_iff:
  "mock_bulk_decode bs = Inr p \<longleftrightarrow>
     16 \<le> length bs \<and> slice bs 0 4 = [0x57, 0x42, 0x55, 0x4C] \<and> bs ! 4 = 1 \<and>
     length bs = 16 + unat (read_u32_be bs 8) \<and> checksum (drop 16 bs) = read_u32_be bs 12 \<and>
     p = \<lparr>bulk_data = drop 16 bs\<rparr>"
  by (auto simp: mock_bulk_decode_def Let_def)

lemma mock_bulk_decode_encode:
  "mock_bulk_encode p = Some bs \<Longrightarrow> mock_bulk_decode bs = Inr p"
  by (auto simp: mock_bulk_encode_def mock_bulk_decode_Inr_iff mock_bulk_checksum_def
      field_defs codec_simps nth_append split: if_splits)

interpretation mock_bulk:
  codec wf_mock_bulk "\<lambda>p. ok_or () (mock_bulk_encode p)" mock_bulk_decode
proof
  fix p :: mock_bulk_payload and bs :: bytes
  show "wf_mock_bulk p \<Longrightarrow> \<exists>b. ok_or () (mock_bulk_encode p) = Inr b"
    by (simp add: wf_mock_bulk_def mock_bulk_encode_def)
  show "ok_or () (mock_bulk_encode p) = Inr bs \<Longrightarrow> mock_bulk_decode bs = Inr p"
    by (simp add: mock_bulk_decode_encode)
  show "mock_bulk_decode bs = Inr p \<Longrightarrow> wf_mock_bulk p"
    using unat_less_2p32 [of "read_u32_be bs 8"]
    by (auto simp: mock_bulk_decode_Inr_iff wf_mock_bulk_def)
qed

lemma length_mock_bulk_synthetic [simp]:
  "length (bulk_data (mock_bulk_synthetic request_id n)) = n"
  by (simp add: mock_bulk_synthetic_def Let_def)

section \<open>HID keyboard reports\<close>

definition KEY_A :: u8 where "KEY_A = 4"

text \<open>\<open>hid_keycodes\<close> models \<open>[u8; 6]\<close>: a list of six bytes.\<close>

record hid_keyboard_input_report =
  hid_modifiers :: u8
  hid_reserved :: u8
  hid_keycodes :: bytes

definition hid_report_empty :: hid_keyboard_input_report where
  "hid_report_empty = \<lparr>hid_modifiers = 0, hid_reserved = 0, hid_keycodes = replicate 6 0\<rparr>"

definition hid_report_key_press :: "u8 \<Rightarrow> hid_keyboard_input_report" where
  "hid_report_key_press keycode =
     hid_report_empty\<lparr>hid_keycodes := (hid_keycodes hid_report_empty)[0 := keycode]\<rparr>"

definition hid_report_encode :: "hid_keyboard_input_report \<Rightarrow> bytes" where
  "hid_report_encode r =
     [hid_modifiers r, hid_reserved r, hid_keycodes r ! 0, hid_keycodes r ! 1,
      hid_keycodes r ! 2, hid_keycodes r ! 3, hid_keycodes r ! 4, hid_keycodes r ! 5]"

definition hid_report_decode :: "bytes \<Rightarrow> protocol_error + hid_keyboard_input_report" where
  "hid_report_decode bs =
     (if length bs \<noteq> 8 then Inl (InvalidHidReport ''keyboard input report must be 8 bytes'')
      else Inr \<lparr>hid_modifiers = bs ! 0, hid_reserved = bs ! 1,
                hid_keycodes = [bs ! 2, bs ! 3, bs ! 4, bs ! 5, bs ! 6, bs ! 7]\<rparr>)"

definition wf_hid_report :: "hid_keyboard_input_report \<Rightarrow> bool" where
  "wf_hid_report r \<longleftrightarrow> length (hid_keycodes r) = 6"

lemma list_of_six: "length xs = 6 \<Longrightarrow> [xs ! 0, xs ! 1, xs ! 2, xs ! 3, xs ! 4, xs ! 5] = xs"
  by (intro nth_equalityI) (auto simp: less_Suc_eq numeral_eq_Suc)

lemma list_of_eight:
  "length xs = 8 \<Longrightarrow>
   [xs ! 0, xs ! 1, xs ! 2, xs ! 3, xs ! 4, xs ! 5, xs ! 6, xs ! 7] = xs"
  by (intro nth_equalityI) (auto simp: less_Suc_eq numeral_eq_Suc)

interpretation hid_report:
  canonical_codec wf_hid_report "\<lambda>r. Inr (hid_report_encode r)" hid_report_decode
proof
  fix r :: hid_keyboard_input_report and bs :: bytes
  show "\<exists>b. Inr (hid_report_encode r) = Inr b" by simp
  show "wf_hid_report r \<Longrightarrow> Inr (hid_report_encode r) = Inr bs \<Longrightarrow> hid_report_decode bs = Inr r"
    using list_of_six [of "hid_keycodes r"]
    by (auto simp: wf_hid_report_def hid_report_encode_def hid_report_decode_def)
  show "hid_report_decode bs = Inr r \<Longrightarrow> wf_hid_report r"
    by (auto simp: wf_hid_report_def hid_report_decode_def split: if_splits)
  show "hid_report_decode bs = Inr r \<Longrightarrow> Inr (hid_report_encode r) = Inr bs"
    using list_of_eight [of bs]
    by (auto simp: hid_report_encode_def hid_report_decode_def split: if_splits)
qed

lemma wf_hid_report_built [simp]:
  "wf_hid_report hid_report_empty" "wf_hid_report (hid_report_key_press k)"
  by (simp_all add: wf_hid_report_def hid_report_empty_def hid_report_key_press_def)

section \<open>Properties\<close>

text \<open>C40: A bulk payload of less than \<open>2 ^ 32\<close> bytes is encoded, decodes to itself, and if
  one of its data bytes is changed on the way, whichever it is, the decoder reports
  \<open>checksum mismatch\<close>.\<close>

theorem mock_bulk_corruption_detected:
  assumes "length (pre @ a # post) < 2 ^ 32" and "a \<noteq> b"
  shows "\<exists>header. mock_bulk_encode \<lparr>bulk_data = pre @ a # post\<rparr> = Some (header @ pre @ a # post) \<and>
     mock_bulk_decode (header @ pre @ a # post) = Inr \<lparr>bulk_data = pre @ a # post\<rparr> \<and>
     mock_bulk_decode (header @ pre @ b # post) = Inl (InvalidBulkPayload ''checksum mismatch'')"
proof -
  define n where "n = length pre + Suc (length post)"
  have n: "n < 2 ^ 32" and data_len: "length (pre @ x # post) = n" for x
    using assms(1) by (simp_all add: n_def)
  let ?p = "\<lparr>bulk_data = pre @ a # post\<rparr>"
  let ?header = "[0x57, 0x42, 0x55, 0x4C, 1, 0, 0, 0] @
     be_bytes 4 (of_nat n :: u32) @ be_bytes 4 (mock_bulk_checksum ?p)"
  have enc: "mock_bulk_encode ?p = Some (?header @ pre @ a # post)"
    using n data_len by (simp add: mock_bulk_encode_def)
  have "length (?header @ pre @ b # post) = 16 + n"
    using data_len by simp
  then have "mock_bulk_decode (?header @ pre @ b # post) =
      Inl (InvalidBulkPayload ''checksum mismatch'')"
    using assms(2) n
    by (simp add: mock_bulk_decode_def Let_def field_defs codec_simps nth_append
        mock_bulk_checksum_def checksum_single_byte)
  with enc mock_bulk_decode_encode [OF enc] show ?thesis
    by blast
qed

theorem mock_bulk_corruption_detected_witness:
  "\<exists>header. mock_bulk_encode \<lparr>bulk_data = [1] @ 2 # [3]\<rparr> = Some (header @ [1] @ 2 # [3]) \<and>
     mock_bulk_decode (header @ [1] @ 2 # [3]) = Inr \<lparr>bulk_data = [1] @ 2 # [3]\<rparr> \<and>
     mock_bulk_decode (header @ [1] @ 7 # [3]) = Inl (InvalidBulkPayload ''checksum mismatch'')"
  by (rule mock_bulk_corruption_detected) simp_all

end
