(* ===== verification/Usb_Descriptors.thy ===== *)
theory Usb_Descriptors imports Wire_Enums begin

text \<open>
  The fixed-size USB descriptors of \<open>protocol/src/lib.rs\<close> (device, configuration,
  interface, endpoint) with \<open>to_usb_bytes\<close> and \<open>from_usb_bytes\<close>, and the readers the
  descriptor parser is built from: \<open>take\<close>, \<open>descriptor_header\<close> and
  \<open>validate_extra_descriptor\<close>. Each leaf descriptor is read back from what is written.
\<close>

section \<open>Device descriptor\<close>

record usb_device_descriptor =
  dev_usb_version :: u16
  dev_device_class :: u8
  dev_device_sub_class :: u8
  dev_device_protocol :: u8
  dev_max_packet_size_0 :: u8
  dev_vendor_id :: u16
  dev_product_id :: u16
  dev_device_version :: u16
  dev_manufacturer_index :: u8
  dev_product_index :: u8
  dev_serial_number_index :: u8

definition device_to_usb_bytes :: "usb_device_descriptor \<Rightarrow> u8 \<Rightarrow> bytes" where
  "device_to_usb_bytes d configuration_count =
     [18, USB_DESC_DEVICE] @ le_bytes 2 (dev_usb_version d) @
     [dev_device_class d, dev_device_sub_class d, dev_device_protocol d,
      dev_max_packet_size_0 d] @
     le_bytes 2 (dev_vendor_id d) @ le_bytes 2 (dev_product_id d) @
     le_bytes 2 (dev_device_version d) @
     [dev_manufacturer_index d, dev_product_index d, dev_serial_number_index d,
      configuration_count]"

definition device_from_usb_bytes :: "bytes \<Rightarrow> protocol_error + usb_device_descriptor \<times> u8" where
  "device_from_usb_bytes bs =
     (if length bs \<noteq> 18 \<or> bs ! 0 \<noteq> 18 \<or> bs ! 1 \<noteq> USB_DESC_DEVICE
      then Inl (InvalidDescriptorSet ''invalid device descriptor'')
      else Inr (\<lparr>dev_usb_version = read_u16_le bs 2,
                 dev_device_class = bs ! 4,
                 dev_device_sub_class = bs ! 5,
                 dev_device_protocol = bs ! 6,
                 dev_max_packet_size_0 = bs ! 7,
                 dev_vendor_id = read_u16_le bs 8,
                 dev_product_id = read_u16_le bs 10,
                 dev_device_version = read_u16_le bs 12,
                 dev_manufacturer_index = bs ! 14,
                 dev_product_index = bs ! 15,
                 dev_serial_number_index = bs ! 16\<rparr>, bs ! 17))"

lemma length_device_to_usb_bytes [simp]: "length (device_to_usb_bytes d n) = 18"
  by (simp add: device_to_usb_bytes_def)

lemma device_from_to_usb_bytes [simp]:
  "device_from_usb_bytes (device_to_usb_bytes d n) = Inr (d, n)"
  by (simp add: device_from_usb_bytes_def device_to_usb_bytes_def field_defs codec_simps
      nth_append)

section \<open>Configuration descriptor\<close>

record usb_configuration_descriptor =
  cfg_configuration_value :: u8
  cfg_configuration_index :: u8
  cfg_attributes :: u8
  cfg_max_power :: u8

definition configuration_desc_to_usb_bytes ::
  "usb_configuration_descriptor \<Rightarrow> u16 \<Rightarrow> u8 \<Rightarrow> bytes" where
  "configuration_desc_to_usb_bytes c total_length interface_count =
     [9, USB_DESC_CONFIGURATION] @ le_bytes 2 total_length @
     [interface_count, cfg_configuration_value c, cfg_configuration_index c,
      cfg_attributes c, cfg_max_power c]"

definition configuration_desc_from_usb_bytes ::
  "bytes \<Rightarrow> protocol_error + usb_configuration_descriptor \<times> u16 \<times> u8" where
  "configuration_desc_from_usb_bytes bs =
     (if length bs \<noteq> 9 \<or> bs ! 0 \<noteq> 9 \<or> bs ! 1 \<noteq> USB_DESC_CONFIGURATION
      then Inl (InvalidDescriptorSet ''invalid configuration descriptor'')
      else Inr (\<lparr>cfg_configuration_value = bs ! 5,
                 cfg_configuration_index = bs ! 6,
                 cfg_attributes = bs ! 7,
                 cfg_max_power = bs ! 8\<rparr>, read_u16_le bs 2, bs ! 4))"

lemma length_configuration_desc_to_usb_bytes [simp]:
  "length (configuration_desc_to_usb_bytes c t n) = 9"
  by (simp add: configuration_desc_to_usb_bytes_def)

lemma configuration_desc_from_to_usb_bytes [simp]:
  "configuration_desc_from_usb_bytes (configuration_desc_to_usb_bytes c t n) = Inr (c, t, n)"
  by (simp add: configuration_desc_from_usb_bytes_def configuration_desc_to_usb_bytes_def
      field_defs codec_simps nth_append)

section \<open>Interface descriptor\<close>

record usb_interface_descriptor =
  if_interface_number :: u8
  if_alternate_setting :: u8
  if_interface_class :: u8
  if_interface_sub_class :: u8
  if_interface_protocol :: u8
  if_interface_index :: u8

definition interface_desc_to_usb_bytes :: "usb_interface_descriptor \<Rightarrow> u8 \<Rightarrow> bytes" where
  "interface_desc_to_usb_bytes i endpoint_count =
     [9, USB_DESC_INTERFACE, if_interface_number i, if_alternate_setting i, endpoint_count,
      if_interface_class i, if_interface_sub_class i, if_interface_protocol i,
      if_interface_index i]"

definition interface_desc_from_usb_bytes ::
  "bytes \<Rightarrow> protocol_error + usb_interface_descriptor \<times> u8" where
  "interface_desc_from_usb_bytes bs =
     (if length bs \<noteq> 9 \<or> bs ! 0 \<noteq> 9 \<or> bs ! 1 \<noteq> USB_DESC_INTERFACE
      then Inl (InvalidDescriptorSet ''invalid interface descriptor'')
      else Inr (\<lparr>if_interface_number = bs ! 2,
                 if_alternate_setting = bs ! 3,
                 if_interface_class = bs ! 5,
                 if_interface_sub_class = bs ! 6,
                 if_interface_protocol = bs ! 7,
                 if_interface_index = bs ! 8\<rparr>, bs ! 4))"

lemma length_interface_desc_to_usb_bytes [simp]:
  "length (interface_desc_to_usb_bytes i n) = 9"
  by (simp add: interface_desc_to_usb_bytes_def)

lemma interface_desc_header [simp]:
  "interface_desc_to_usb_bytes i n ! 0 = 9"
  "interface_desc_to_usb_bytes i n ! Suc 0 = USB_DESC_INTERFACE"
  by (simp_all add: interface_desc_to_usb_bytes_def)

lemma interface_desc_from_to_usb_bytes [simp]:
  "interface_desc_from_usb_bytes (interface_desc_to_usb_bytes i n) = Inr (i, n)"
  by (simp add: interface_desc_from_usb_bytes_def interface_desc_to_usb_bytes_def)

section \<open>Endpoint descriptor\<close>

record usb_endpoint_descriptor =
  ep_address :: u8
  ep_attributes :: u8
  ep_max_packet_size :: u16
  ep_interval :: u8

definition endpoint_desc_to_usb_bytes :: "usb_endpoint_descriptor \<Rightarrow> bytes" where
  "endpoint_desc_to_usb_bytes e =
     [7, USB_DESC_ENDPOINT, ep_address e, ep_attributes e] @
     le_bytes 2 (ep_max_packet_size e) @ [ep_interval e]"

definition endpoint_desc_from_usb_bytes :: "bytes \<Rightarrow> protocol_error + usb_endpoint_descriptor" where
  "endpoint_desc_from_usb_bytes bs =
     (if length bs \<noteq> 7 \<or> bs ! 0 \<noteq> 7 \<or> bs ! 1 \<noteq> USB_DESC_ENDPOINT
      then Inl (InvalidDescriptorSet ''invalid endpoint descriptor'')
      else Inr \<lparr>ep_address = bs ! 2, ep_attributes = bs ! 3,
                ep_max_packet_size = read_u16_le bs 4, ep_interval = bs ! 6\<rparr>)"

lemma length_endpoint_desc_to_usb_bytes [simp]: "length (endpoint_desc_to_usb_bytes e) = 7"
  by (simp add: endpoint_desc_to_usb_bytes_def)

lemma endpoint_desc_header [simp]:
  "endpoint_desc_to_usb_bytes e ! 0 = 7"
  "endpoint_desc_to_usb_bytes e ! Suc 0 = USB_DESC_ENDPOINT"
  by (simp_all add: endpoint_desc_to_usb_bytes_def)

lemma endpoint_desc_from_to_usb_bytes [simp]:
  "endpoint_desc_from_usb_bytes (endpoint_desc_to_usb_bytes e) = Inr e"
  by (simp add: endpoint_desc_from_usb_bytes_def endpoint_desc_to_usb_bytes_def field_defs
      codec_simps nth_append)

section \<open>Readers\<close>

text \<open>
  \<open>take_bytes\<close> is \<open>take\<close>: the cursor \<open>&mut offset\<close> is returned beside the slice.
  \<open>checked_add\<close> fails when the sum does not fit into a 64-bit \<open>usize\<close>.
\<close>

definition take_bytes :: "bytes \<Rightarrow> nat \<Rightarrow> nat \<Rightarrow> protocol_error + bytes \<times> nat" where
  "take_bytes bs offset len =
     (if 2 ^ 64 \<le> offset + len then Inl (InvalidDescriptorSet ''descriptor offset overflow'')
      else let end_offset = offset + len
           in if end_offset > length bs
              then Inl (InvalidDescriptorSet ''descriptor payload truncated'')
              else Inr (slice bs offset end_offset, end_offset))"

definition descriptor_header :: "bytes \<Rightarrow> nat \<Rightarrow> protocol_error + nat \<times> u8" where
  "descriptor_header bs offset =
     (if offset + 2 > length bs then Inl (InvalidDescriptorSet ''descriptor header truncated'')
      else let descriptor_len = unat (bs ! offset)
           in if descriptor_len < 2 \<or> offset + descriptor_len > length bs
              then Inl (InvalidDescriptorSet ''invalid descriptor length'')
              else Inr (descriptor_len, bs ! (offset + 1)))"

definition validate_extra_descriptor :: "bytes \<Rightarrow> protocol_error + unit" where
  "validate_extra_descriptor bs =
     (if length bs < 2 \<or> unat (bs ! 0) \<noteq> length bs
      then Inl (InvalidDescriptorSet ''invalid extra descriptor'')
      else Inr ())"

lemma take_bytes_Inr_iff:
  "take_bytes bs offset len = Inr (s, offset') \<longleftrightarrow>
     offset + len < 2 ^ 64 \<and> offset + len \<le> length bs \<and>
     s = slice bs offset (offset + len) \<and> offset' = offset + len"
  by (auto simp: take_bytes_def Let_def)

lemma take_bytes_append:
  "length (pre @ s @ post) < 2 ^ 64 \<Longrightarrow> len = length s \<Longrightarrow>
   take_bytes (pre @ s @ post) (length pre) len = Inr (s, length (pre @ s))"
  by (simp add: take_bytes_Inr_iff slice_def)

lemma descriptor_header_Inr_iff:
  "descriptor_header bs offset = Inr (len, ty) \<longleftrightarrow>
     offset + 2 \<le> length bs \<and> len = unat (bs ! offset) \<and> 2 \<le> len \<and>
     offset + len \<le> length bs \<and> ty = bs ! (offset + 1)"
  by (auto simp: descriptor_header_def Let_def)

text \<open>
  A descriptor as the parser recognises it: its first byte is its length.
\<close>

definition framed_descriptor :: "bytes \<Rightarrow> bool" where
  "framed_descriptor d \<longleftrightarrow> 2 \<le> length d \<and> unat (d ! 0) = length d"

lemma validate_extra_descriptor_iff [simp]:
  "validate_extra_descriptor d = Inr u \<longleftrightarrow> framed_descriptor d"
  by (auto simp: validate_extra_descriptor_def framed_descriptor_def)

lemma validate_extra_descriptor_framed [simp]:
  "framed_descriptor d \<Longrightarrow> validate_extra_descriptor d = Inr ()"
  by simp

lemma framed_descriptor_built [simp]:
  "framed_descriptor (interface_desc_to_usb_bytes i n)"
  "framed_descriptor (endpoint_desc_to_usb_bytes e)"
  by (simp_all add: framed_descriptor_def)

lemma framed_descriptor_length: "framed_descriptor d \<Longrightarrow> length d \<le> 255"
  using unat_less_256 [of "d ! 0"] by (simp add: framed_descriptor_def)

lemma descriptor_header_append:
  "framed_descriptor d \<Longrightarrow>
   descriptor_header (pre @ d @ post) (length pre) = Inr (length d, d ! 1)"
  by (auto simp: descriptor_header_Inr_iff framed_descriptor_def nth_append)

end
