(* ===== verification/Descriptor_Body.thy ===== *)
theory Descriptor_Body imports Usb_Descriptors begin

text \<open>
  \<open>UsbInterface\<close>, \<open>OpenInterface\<close> and \<open>UsbConfiguration\<close> of \<open>protocol/src/lib.rs\<close>:
  how a configuration with its interfaces, endpoints and class descriptors is written as one
  descriptor block, and the loop of \<open>decode_from\<close> that reads it back. The main lemmas are
  that the loop reads back what was written and that everything it returns can be written.
\<close>

section \<open>Interfaces\<close>

record usb_interface =
  ifc_descriptor :: usb_interface_descriptor
  ifc_extra_descriptors :: "bytes list"
  ifc_report_descriptor :: "bytes option"
  ifc_endpoints :: "usb_endpoint_descriptor list"

text \<open>
  The loop \<open>for extra in \<dots> { validate_extra_descriptor(extra)?; out.extend(extra) }\<close>.
\<close>

definition encode_extras :: "bytes list \<Rightarrow> protocol_error + bytes" where
  "encode_extras extras =
     and_then (map_result (\<lambda>extra. and_then (validate_extra_descriptor extra) (\<lambda>_. Inr extra)) extras)
       (\<lambda>ds. Inr (concat ds))"

definition interface_to_usb_bytes :: "usb_interface \<Rightarrow> protocol_error + bytes" where
  "interface_to_usb_bytes i =
     (if length (ifc_endpoints i) > 255 then Inl (InvalidDescriptorSet ''too many endpoints'')
      else and_then (encode_extras (ifc_extra_descriptors i)) (\<lambda>extras.
        Inr (interface_desc_to_usb_bytes (ifc_descriptor i) (of_nat (length (ifc_endpoints i))) @
             extras @ concat (map endpoint_desc_to_usb_bytes (ifc_endpoints i)))))"

record open_interface =
  oi_descriptor :: usb_interface_descriptor
  oi_expected_endpoints :: u8
  oi_extra_descriptors :: "bytes list"
  oi_endpoints :: "usb_endpoint_descriptor list"

definition open_interface_finish :: "open_interface \<Rightarrow> protocol_error + usb_interface" where
  "open_interface_finish opened =
     (if length (oi_endpoints opened) \<noteq> unat (oi_expected_endpoints opened)
      then Inl (InvalidDescriptorSet ''endpoint count mismatch'')
      else Inr \<lparr>ifc_descriptor = oi_descriptor opened,
                ifc_extra_descriptors = oi_extra_descriptors opened,
                ifc_report_descriptor = None,
                ifc_endpoints = oi_endpoints opened\<rparr>)"

section \<open>Configurations\<close>

record usb_configuration =
  conf_descriptor :: usb_configuration_descriptor
  conf_extra_descriptors :: "bytes list"
  conf_interfaces :: "usb_interface list"

definition configuration_to_usb_bytes :: "usb_configuration \<Rightarrow> protocol_error + bytes" where
  "configuration_to_usb_bytes c =
     (if length (conf_interfaces c) > 255 then Inl (InvalidDescriptorSet ''too many interfaces'')
      else and_then (encode_extras (conf_extra_descriptors c)) (\<lambda>extras.
           and_then (map_result interface_to_usb_bytes (conf_interfaces c)) (\<lambda>interfaces.
             let body = extras @ concat interfaces
             in if 9 + length body > 65535
                then Inl (InvalidDescriptorSet ''configuration too large'')
                else Inr (configuration_desc_to_usb_bytes (conf_descriptor c)
                            (of_nat (9 + length body)) (of_nat (length (conf_interfaces c))) @
                          body))))"

text \<open>
  The local variables of the loop in \<open>decode_from\<close>, and one turn of it on a descriptor
  of type \<open>ty\<close>.
\<close>

record body_state =
  bs_extra_descriptors :: "bytes list"
  bs_interfaces :: "usb_interface list"
  bs_current :: "open_interface option"

definition close_current :: "body_state \<Rightarrow> protocol_error + body_state" where
  "close_current st =
     (case bs_current st of
        None \<Rightarrow> Inr st
      | Some open_if \<Rightarrow>
          and_then (open_interface_finish open_if) (\<lambda>i.
            Inr (st\<lparr>bs_interfaces := bs_interfaces st @ [i], bs_current := None\<rparr>)))"

definition body_step :: "body_state \<Rightarrow> u8 \<Rightarrow> bytes \<Rightarrow> protocol_error + body_state" where
  "body_step st ty d =
     (if ty = USB_DESC_INTERFACE then
        and_then (close_current st) (\<lambda>st'.
        and_then (interface_desc_from_usb_bytes d) (\<lambda>(descriptor, endpoint_count).
          Inr (st'\<lparr>bs_current := Some \<lparr>oi_descriptor = descriptor,
                                     oi_expected_endpoints = endpoint_count,
                                     oi_extra_descriptors = [],
                                     oi_endpoints = []\<rparr>\<rparr>)))
      else if ty = USB_DESC_ENDPOINT then
        (case bs_current st of
           None \<Rightarrow> Inl (InvalidDescriptorSet ''endpoint descriptor before interface'')
         | Some open_if \<Rightarrow>
             and_then (endpoint_desc_from_usb_bytes d) (\<lambda>ep.
               Inr (st\<lparr>bs_current := Some (open_if\<lparr>oi_endpoints := oi_endpoints open_if @ [ep]\<rparr>)\<rparr>)))
      else
        (case bs_current st of
           Some open_if \<Rightarrow>
             and_then (validate_extra_descriptor d) (\<lambda>_.
               Inr (st\<lparr>bs_current :=
                 Some (open_if\<lparr>oi_extra_descriptors := oi_extra_descriptors open_if @ [d]\<rparr>)\<rparr>))
         | None \<Rightarrow>
             and_then (validate_extra_descriptor d) (\<lambda>_.
               Inr (st\<lparr>bs_extra_descriptors := bs_extra_descriptors st @ [d]\<rparr>))))"

text \<open>
  The loop \<open>while body_offset < body.len()\<close>. It ends because every descriptor that
  \<open>descriptor_header\<close> accepts is at least two bytes long.
\<close>

function parse_body :: "bytes \<Rightarrow> nat \<Rightarrow> body_state \<Rightarrow> protocol_error + body_state" where
  "parse_body body offset st =
     (if offset < length body then
        and_then (descriptor_header body offset) (\<lambda>h.
        and_then (take_bytes body offset (fst h)) (\<lambda>t.
        and_then (body_step st (snd h) (fst t)) (\<lambda>st'.
          parse_body body (snd t) st')))
      else Inr st)"
  by pat_completeness auto
termination
  by (relation "measure (\<lambda>(body, offset, st). length body - offset)")
    (auto simp: descriptor_header_Inr_iff take_bytes_Inr_iff)

declare parse_body.simps [simp del]

definition configuration_decode_from ::
  "bytes \<Rightarrow> nat \<Rightarrow> protocol_error + usb_configuration \<times> nat" where
  "configuration_decode_from bs offset =
     and_then (take_bytes bs offset 9) (\<lambda>(config_bytes, offset).
     and_then (configuration_desc_from_usb_bytes config_bytes)
       (\<lambda>(descriptor, total_length, interface_count).
     if unat total_length < 9
     then Inl (InvalidDescriptorSet ''invalid configuration total length'')
     else and_then (take_bytes bs offset (unat total_length - 9)) (\<lambda>(body, offset).
          and_then (parse_body body 0
             \<lparr>bs_extra_descriptors = [], bs_interfaces = [], bs_current = None\<rparr>) (\<lambda>st.
          and_then (close_current st) (\<lambda>st.
            if length (bs_interfaces st) \<noteq> unat interface_count
            then Inl (InvalidDescriptorSet ''interface count mismatch'')
            else Inr (\<lparr>conf_descriptor = descriptor,
                       conf_extra_descriptors = bs_extra_descriptors st,
                       conf_interfaces = bs_interfaces st\<rparr>, offset))))))"

section \<open>The block as a list of descriptors\<close>

text \<open>
  The parser sees a block as a list of framed descriptors; \<open>body_steps\<close> is the loop over
  that list. A class descriptor is \<open>plain\<close> when its type is neither that of an interface
  nor that of an endpoint: such a descriptor is not mistaken for structure.
\<close>

fun body_steps :: "body_state \<Rightarrow> bytes list \<Rightarrow> protocol_error + body_state" where
  "body_steps st [] = Inr st"
| "body_steps st (d # ds) = and_then (body_step st (d ! 1) d) (\<lambda>st'. body_steps st' ds)"

lemma body_steps_append:
  "body_steps st (ds @ es) = and_then (body_steps st ds) (\<lambda>st'. body_steps st' es)"
  by (induction ds arbitrary: st) (simp_all add: and_then_assoc)

lemma parse_body_concat:
  assumes "\<forall>d \<in> set ds. framed_descriptor d" and "length (pre @ concat ds) < 2 ^ 64"
  shows "parse_body (pre @ concat ds) (length pre) st = body_steps st ds"
  using assms
proof (induction ds arbitrary: pre st)
  case Nil
  show ?case by (simp add: parse_body.simps)
next
  case (Cons d ds)
  have d: "framed_descriptor d" and "0 < length d"
    using Cons.prems(1) by (auto simp: framed_descriptor_def)
  have next_step: "parse_body ((pre @ d) @ concat ds) (length (pre @ d)) st' = body_steps st' ds"
    for st'
    using Cons.prems by (intro Cons.IH) auto
  have "parse_body (pre @ d @ concat ds) (length pre) st =
      and_then (body_step st (d ! 1) d)
        (\<lambda>st'. parse_body (pre @ d @ concat ds) (length (pre @ d)) st')"
    using \<open>0 < length d\<close> Cons.prems(2)
    by (subst parse_body.simps) (simp add: descriptor_header_append [OF d] take_bytes_append)
  then show ?case
    using next_step by simp
qed

definition plain_extra :: "bytes \<Rightarrow> bool" where
  "plain_extra d \<longleftrightarrow>
     framed_descriptor d \<and> d ! 1 \<noteq> USB_DESC_INTERFACE \<and> d ! 1 \<noteq> USB_DESC_ENDPOINT"

definition interface_descs :: "usb_interface \<Rightarrow> bytes list" where
  "interface_descs i =
     interface_desc_to_usb_bytes (ifc_descriptor i) (of_nat (length (ifc_endpoints i))) #
     ifc_extra_descriptors i @ map endpoint_desc_to_usb_bytes (ifc_endpoints i)"

definition configuration_descs :: "usb_configuration \<Rightarrow> bytes list" where
  "configuration_descs c =
     conf_extra_descriptors c @ concat (map interface_descs (conf_interfaces c))"

definition wf_interface :: "usb_interface \<Rightarrow> bool" where
  "wf_interface i \<longleftrightarrow>
     length (ifc_endpoints i) \<le> 255 \<and> (\<forall>d \<in> set (ifc_extra_descriptors i). plain_extra d)"

definition wf_configuration :: "usb_configuration \<Rightarrow> bool" where
  "wf_configuration c \<longleftrightarrow>
     length (conf_interfaces c) \<le> 255 \<and>
     (\<forall>d \<in> set (conf_extra_descriptors c). plain_extra d) \<and>
     (\<forall>i \<in> set (conf_interfaces c). wf_interface i) \<and>
     9 + length (concat (configuration_descs c)) \<le> 65535"

lemma encode_extras_framed:
  "\<forall>d \<in> set ds. framed_descriptor d \<Longrightarrow> encode_extras ds = Inr (concat ds)"
  by (simp add: encode_extras_def map_result_total [where g = "\<lambda>d. d"])

lemma plain_extra_framed [simp]: "plain_extra d \<Longrightarrow> framed_descriptor d"
  by (simp add: plain_extra_def)

lemma interface_to_usb_bytes_wf:
  "wf_interface i \<Longrightarrow> interface_to_usb_bytes i = Inr (concat (interface_descs i))"
  by (simp add: wf_interface_def interface_to_usb_bytes_def interface_descs_def
      encode_extras_framed)

lemma interface_descs_framed: "wf_interface i \<Longrightarrow> \<forall>d \<in> set (interface_descs i). framed_descriptor d"
  by (auto simp: wf_interface_def interface_descs_def)

lemma configuration_descs_framed:
  "wf_configuration c \<Longrightarrow> \<forall>d \<in> set (configuration_descs c). framed_descriptor d"
  using interface_descs_framed
  by (auto simp: wf_configuration_def configuration_descs_def)

lemma configuration_to_usb_bytes_wf:
  assumes "wf_configuration c"
  shows "configuration_to_usb_bytes c =
     Inr (configuration_desc_to_usb_bytes (conf_descriptor c)
            (of_nat (9 + length (concat (configuration_descs c))))
            (of_nat (length (conf_interfaces c))) @ concat (configuration_descs c))"
proof -
  have "map_result interface_to_usb_bytes (conf_interfaces c) =
      Inr (map (\<lambda>i. concat (interface_descs i)) (conf_interfaces c))"
    using assms by (intro map_result_total) (simp add: wf_configuration_def interface_to_usb_bytes_wf)
  moreover have "concat (map (\<lambda>i. concat (interface_descs i)) is) =
      concat (concat (map interface_descs is))" for "is"
    by (induction "is") simp_all
  ultimately show ?thesis
    using assms
    by (simp add: configuration_to_usb_bytes_def wf_configuration_def configuration_descs_def
        encode_extras_framed Let_def)
qed

section \<open>Reading back what was written\<close>

lemma body_steps_plain_open:
  assumes "\<forall>d \<in> set ds. plain_extra d" and "bs_current st = Some open_if"
  shows "body_steps st ds =
     Inr (st\<lparr>bs_current := Some (open_if\<lparr>oi_extra_descriptors := oi_extra_descriptors open_if @ ds\<rparr>)\<rparr>)"
  using assms
proof (induction ds arbitrary: st open_if)
  case (Cons d ds)
  then show ?case
    by (simp add: body_step_def plain_extra_def validate_extra_descriptor_def framed_descriptor_def)
qed simp

lemma body_steps_plain_closed:
  assumes "\<forall>d \<in> set ds. plain_extra d" and "bs_current st = None"
  shows "body_steps st ds = Inr (st\<lparr>bs_extra_descriptors := bs_extra_descriptors st @ ds\<rparr>)"
  using assms
proof (induction ds arbitrary: st)
  case (Cons d ds)
  then show ?case
    by (simp add: body_step_def plain_extra_def validate_extra_descriptor_def framed_descriptor_def)
qed simp

lemma body_steps_endpoints:
  assumes "bs_current st = Some open_if"
  shows "body_steps st (map endpoint_desc_to_usb_bytes eps) =
     Inr (st\<lparr>bs_current := Some (open_if\<lparr>oi_endpoints := oi_endpoints open_if @ eps\<rparr>)\<rparr>)"
  using assms
proof (induction eps arbitrary: st open_if)
  case (Cons e eps)
  then show ?case by (simp add: body_step_def)
qed simp

text \<open>
  Reading one interface block: the interface read before it is closed, and the block's
  interface is left open, complete.
\<close>

definition opened_interface :: "usb_interface \<Rightarrow> open_interface" where
  "opened_interface i = \<lparr>oi_descriptor = ifc_descriptor i,
     oi_expected_endpoints = of_nat (length (ifc_endpoints i)),
     oi_extra_descriptors = ifc_extra_descriptors i, oi_endpoints = ifc_endpoints i\<rparr>"

definition without_report :: "usb_interface \<Rightarrow> usb_interface" where
  "without_report i = i\<lparr>ifc_report_descriptor := None\<rparr>"

lemma body_steps_interface:
  assumes "wf_interface i"
  shows "body_steps st (interface_descs i) =
     and_then (close_current st) (\<lambda>st'. Inr (st'\<lparr>bs_current := Some (opened_interface i)\<rparr>))"
proof (cases "close_current st")
  case (Inr st')
  then show ?thesis
    using assms
    by (simp add: interface_descs_def body_step_def body_steps_append wf_interface_def
        body_steps_plain_open body_steps_endpoints opened_interface_def)
qed (simp add: interface_descs_def body_step_def)

lemma close_opened_interface:
  "wf_interface i \<Longrightarrow>
   close_current (st\<lparr>bs_current := Some (opened_interface i)\<rparr>) =
     Inr (st\<lparr>bs_interfaces := bs_interfaces st @ [without_report i], bs_current := None\<rparr>)"
  by (cases i) (simp add: close_current_def open_interface_finish_def opened_interface_def
      wf_interface_def without_report_def)

lemma body_steps_interfaces:
  assumes "\<forall>i \<in> set is. wf_interface i" and "close_current st = Inr st'"
  shows "and_then (body_steps st (concat (map interface_descs is))) close_current =
     Inr (st'\<lparr>bs_interfaces := bs_interfaces st' @ map without_report is\<rparr>)"
  using assms
proof (induction "is" arbitrary: st st')
  case Nil
  then show ?case by simp
next
  case (Cons i "is")
  let ?st = "st'\<lparr>bs_current := Some (opened_interface i)\<rparr>"
  let ?st' = "st'\<lparr>bs_interfaces := bs_interfaces st' @ [without_report i], bs_current := None\<rparr>"
  have "bs_current st' = None"
    using Cons.prems(2)
    by (auto simp: close_current_def and_then_Inr_iff split: option.splits)
  have "close_current ?st = Inr ?st'"
    using Cons.prems(1) by (simp add: close_opened_interface)
  then have "and_then (body_steps ?st (concat (map interface_descs is))) close_current =
      Inr (?st'\<lparr>bs_interfaces := bs_interfaces ?st' @ map without_report is\<rparr>)"
    using Cons.prems(1) by (intro Cons.IH) simp_all
  then show ?case
    using Cons.prems \<open>bs_current st' = None\<close>
    by (cases st') (simp add: body_steps_append body_steps_interface and_then_assoc)
qed

definition configuration_without_reports :: "usb_configuration \<Rightarrow> usb_configuration" where
  "configuration_without_reports c =
     \<lparr>conf_descriptor = conf_descriptor c, conf_extra_descriptors = conf_extra_descriptors c,
      conf_interfaces = map without_report (conf_interfaces c)\<rparr>"

lemma parse_configuration_body:
  assumes "wf_configuration c"
  shows "and_then (parse_body (concat (configuration_descs c)) 0
            \<lparr>bs_extra_descriptors = [], bs_interfaces = [], bs_current = None\<rparr>) close_current =
     Inr \<lparr>bs_extra_descriptors = conf_extra_descriptors c,
          bs_interfaces = map without_report (conf_interfaces c), bs_current = None\<rparr>"
proof -
  let ?init = "\<lparr>bs_extra_descriptors = [], bs_interfaces = [], bs_current = None\<rparr>"
  let ?st = "\<lparr>bs_extra_descriptors = conf_extra_descriptors c, bs_interfaces = [],
    bs_current = None\<rparr>"
  have "parse_body (concat (configuration_descs c)) 0 ?init =
      body_steps ?init (configuration_descs c)"
    using parse_body_concat [of "configuration_descs c" "[]" ?init] assms
    by (simp add: configuration_descs_framed wf_configuration_def)
  also have "\<dots> = body_steps ?st (concat (map interface_descs (conf_interfaces c)))"
    using assms
    by (simp add: configuration_descs_def body_steps_append body_steps_plain_closed
        wf_configuration_def)
  finally show ?thesis
    using assms body_steps_interfaces [of "conf_interfaces c" ?st ?st]
    by (simp add: wf_configuration_def close_current_def)
qed

lemma configuration_decode_from_to:
  assumes wf: "wf_configuration c" and enc: "configuration_to_usb_bytes c = Inr b"
    and len: "length (pre @ b @ post) < 2 ^ 64"
  shows "configuration_decode_from (pre @ b @ post) (length pre) =
     Inr (configuration_without_reports c, length (pre @ b))"
proof -
  let ?body = "concat (configuration_descs c)"
  let ?head = "configuration_desc_to_usb_bytes (conf_descriptor c) (of_nat (9 + length ?body))
    (of_nat (length (conf_interfaces c)))"
  have b: "b = ?head @ ?body"
    using enc by (simp add: configuration_to_usb_bytes_wf [OF wf])
  have bounds: "9 + length ?body \<le> 65535" "length (conf_interfaces c) \<le> 255"
    using wf by (simp_all add: wf_configuration_def)
  then have total: "unat (of_nat (9 + length ?body) :: u16) = 9 + length ?body"
    and count: "unat (of_nat (length (conf_interfaces c)) :: u8) = length (conf_interfaces c)"
    by (intro unat_of_nat_u16 unat_of_nat_u8; simp)+
  have t1: "take_bytes (pre @ b @ post) (length pre) 9 = Inr (?head, length (pre @ ?head))"
    using take_bytes_append [of pre ?head "?body @ post" 9] len by (simp add: b)
  have t2: "take_bytes (pre @ b @ post) (length (pre @ ?head)) (length ?body) =
      Inr (?body, length (pre @ b))"
    using take_bytes_append [of "pre @ ?head" ?body post] len by (simp add: b)
  obtain st where "parse_body ?body 0
       \<lparr>bs_extra_descriptors = [], bs_interfaces = [], bs_current = None\<rparr> = Inr st"
    and "close_current st = Inr \<lparr>bs_extra_descriptors = conf_extra_descriptors c,
       bs_interfaces = map without_report (conf_interfaces c), bs_current = None\<rparr>"
    using parse_configuration_body [OF wf] by (auto simp: and_then_Inr_iff)
  then show ?thesis
    using total count t2
    by (simp add: configuration_decode_from_def t1 configuration_without_reports_def)
qed

section \<open>What the parser returns can be written\<close>

text \<open>
  The loop invariant: the class descriptors collected so far are plain, the closed
  interfaces are well-formed and carry no report descriptor, and the descriptors collected
  add up to the bytes consumed.
\<close>

definition open_len :: "open_interface \<Rightarrow> nat" where
  "open_len opened = 9 + length (concat (oi_extra_descriptors opened)) + 7 * length (oi_endpoints opened)"

definition body_len :: "body_state \<Rightarrow> nat" where
  "body_len st = length (concat (bs_extra_descriptors st)) +
     sum_list (map (\<lambda>i. length (concat (interface_descs i))) (bs_interfaces st)) +
     (case bs_current st of None \<Rightarrow> 0 | Some opened \<Rightarrow> open_len opened)"

definition body_inv :: "body_state \<Rightarrow> nat \<Rightarrow> bool" where
  "body_inv st n \<longleftrightarrow>
     (\<forall>d \<in> set (bs_extra_descriptors st). plain_extra d) \<and>
     (\<forall>i \<in> set (bs_interfaces st). wf_interface i \<and> ifc_report_descriptor i = None) \<and>
     (\<forall>opened. bs_current st = Some opened \<longrightarrow>
        (\<forall>d \<in> set (oi_extra_descriptors opened). plain_extra d)) \<and>
     body_len st = n"

lemma length_concat_endpoints [simp]:
  "length (concat (map endpoint_desc_to_usb_bytes eps)) = 7 * length eps"
  by (induction eps) simp_all

lemma length_concat_blocks:
  "length (concat (concat (map f xs))) = sum_list (map (\<lambda>x. length (concat (f x))) xs)"
  by (induction xs) simp_all

lemma length_interface_block:
  "length (concat (interface_descs i)) =
     9 + length (concat (ifc_extra_descriptors i)) + 7 * length (ifc_endpoints i)"
  by (simp add: interface_descs_def)

lemma close_current_inv:
  assumes "close_current st = Inr st'" and "body_inv st n"
  shows "body_inv st' n" and "bs_current st' = None"
proof -
  consider "bs_current st = None" "st' = st"
    | opened i where "bs_current st = Some opened" "open_interface_finish opened = Inr i"
      "st' = st\<lparr>bs_interfaces := bs_interfaces st @ [i], bs_current := None\<rparr>"
    using assms(1) by (auto simp: close_current_def and_then_Inr_iff split: option.splits)
  then have "body_inv st' n \<and> bs_current st' = None"
  proof cases
    case 1
    with assms(2) show ?thesis by simp
  next
    case 2
    then have i: "i = \<lparr>ifc_descriptor = oi_descriptor opened,
        ifc_extra_descriptors = oi_extra_descriptors opened, ifc_report_descriptor = None,
        ifc_endpoints = oi_endpoints opened\<rparr>"
      and "length (oi_endpoints opened) = unat (oi_expected_endpoints opened)"
      by (auto simp: open_interface_finish_def split: if_splits)
    then have "length (oi_endpoints opened) \<le> 255"
      using unat_less_256 [of "oi_expected_endpoints opened"] by linarith
    with 2 assms(2) show ?thesis
      by (simp add: i body_inv_def wf_interface_def body_len_def length_interface_block open_len_def)
  qed
  then show "body_inv st' n" and "bs_current st' = None" by simp_all
qed

lemma body_step_inv:
  assumes step: "body_step st (d ! 1) d = Inr st'" and inv: "body_inv st n"
  shows "body_inv st' (n + length d)"
proof -
  consider (ifc) "d ! 1 = USB_DESC_INTERFACE" | (ep) "d ! 1 = USB_DESC_ENDPOINT"
    | (extra) "d ! 1 \<noteq> USB_DESC_INTERFACE" "d ! 1 \<noteq> USB_DESC_ENDPOINT"
    by blast
  then show ?thesis
  proof cases
    case ifc
    then obtain st1 descriptor count where "close_current st = Inr st1" and "length d = 9"
      and st': "st' = st1\<lparr>bs_current := Some \<lparr>oi_descriptor = descriptor,
        oi_expected_endpoints = count, oi_extra_descriptors = [], oi_endpoints = []\<rparr>\<rparr>"
      using step
      by (auto simp: body_step_def and_then_Inr_iff interface_desc_from_usb_bytes_def
          split: if_splits)
    then show ?thesis
      using close_current_inv [OF _ inv]
      by (simp add: body_inv_def body_len_def open_len_def)
  next
    case ep
    then obtain opened e where "bs_current st = Some opened" and "length d = 7"
      and "st' = st\<lparr>bs_current := Some (opened\<lparr>oi_endpoints := oi_endpoints opened @ [e]\<rparr>)\<rparr>"
      using step
      by (auto simp: body_step_def and_then_Inr_iff endpoint_desc_from_usb_bytes_def
          split: if_splits option.splits)
    then show ?thesis
      using inv by (simp add: body_inv_def body_len_def open_len_def)
  next
    case extra
    then have "plain_extra d" using step
      by (auto simp: body_step_def plain_extra_def and_then_Inr_iff split: option.splits)
    with extra step inv show ?thesis
      by (auto simp: body_step_def body_inv_def body_len_def open_len_def split: option.splits)
  qed
qed

lemma parse_body_inv:
  assumes "parse_body body offset st = Inr st'" and "body_inv st offset"
    and "offset \<le> length body"
  shows "body_inv st' (length body)"
  using assms
proof (induction body offset st rule: parse_body.induct)
  case (1 body offset st)
  show ?case
  proof (cases "offset < length body")
    case False
    with "1.prems" show ?thesis by (simp add: parse_body.simps)
  next
    case True
    with "1.prems"(1) obtain len ty d offset' st1 where
      hd: "descriptor_header body offset = Inr (len, ty)"
      and tk: "take_bytes body offset len = Inr (d, offset')"
      and stp: "body_step st ty d = Inr st1"
      and rest: "parse_body body offset' st1 = Inr st'"
      by (subst (asm) parse_body.simps) (auto simp: and_then_Inr_iff)
    have d: "d = slice body offset offset'" "offset' = offset + len" "offset' \<le> length body"
      and "2 \<le> len" "ty = body ! (offset + 1)"
      using hd tk by (auto simp: take_bytes_Inr_iff descriptor_header_Inr_iff)
    then have "ty = d ! 1" and "length d = len"
      by (simp_all add: slice_def)
    then have "body_inv st1 (offset + len)"
      using body_step_inv stp "1.prems"(2) by blast
    then show ?thesis
      using "1.IH" [OF True hd, of "(d, offset')" st1] tk stp rest d by simp
  qed
qed

lemma configuration_decode_from_wf:
  assumes "configuration_decode_from bs offset = Inr (c, offset')"
  shows "wf_configuration c"
    and "\<forall>i \<in> set (conf_interfaces c). ifc_report_descriptor i = None"
    and "offset' \<le> length bs"
proof -
  let ?init = "\<lparr>bs_extra_descriptors = [], bs_interfaces = [], bs_current = None\<rparr>"
  obtain total :: u16 and count :: u8 and descriptor st st' where
    total: "9 \<le> unat total" "offset + unat total \<le> length bs"
    and parse: "parse_body (slice bs (offset + 9) (offset + unat total)) 0 ?init = Inr st"
      "close_current st = Inr st'"
    and len: "length (bs_interfaces st') = unat count"
    and rec: "c = \<lparr>conf_descriptor = descriptor,
      conf_extra_descriptors = bs_extra_descriptors st', conf_interfaces = bs_interfaces st'\<rparr>"
    and off: "offset' = offset + unat total"
    using assms
    by (auto simp: configuration_decode_from_def and_then_Inr_iff take_bytes_Inr_iff
        split: if_splits prod.splits)
  define body where "body = slice bs (offset + 9) (offset + unat total)"
  have body: "length body = unat total - 9"
    using total by (simp add: body_def)
  have c: "conf_extra_descriptors c = bs_extra_descriptors st'"
    "conf_interfaces c = bs_interfaces st'"
    by (simp_all add: rec)
  note parse = parse [folded body_def]
  have "body_inv ?init 0"
    by (simp add: body_inv_def body_len_def)
  then have inv: "body_inv st' (length body)" and closed: "bs_current st' = None"
    using parse_body_inv [OF parse(1)] close_current_inv [OF parse(2)] by simp_all
  have "length (concat (configuration_descs c)) = length body"
    using inv closed
    by (simp add: body_inv_def body_len_def configuration_descs_def c length_concat_blocks)
  moreover have "unat total \<le> 65535" and "unat count \<le> 255"
    using unat_less_65536 [of total] unat_less_256 [of count] by linarith+
  ultimately show "wf_configuration c"
    using total body len inv by (simp add: wf_configuration_def body_inv_def c)
  show "\<forall>i \<in> set (conf_interfaces c). ifc_report_descriptor i = None"
    using inv by (simp add: body_inv_def c)
  show "offset' \<le> length bs" using off total by simp
qed

end
