(* ===== verification/Descriptor_Set.thy ===== *)
theory Descriptor_Set imports Descriptor_Body begin

text \<open>
  \<open>UsbDescriptorSet\<close> of \<open>protocol/src/lib.rs\<close>: the device descriptor with its
  configurations and the HID report descriptors, which travel as "sidecars" after the
  configurations; the queries that answer \<open>GET_DESCRIPTOR\<close>; and the mock HID keyboard.
  The descriptor set is a codec: what can be written is read back unchanged, and every set
  that is received can be written again.
\<close>

record usb_descriptor_set =
  ds_device :: usb_device_descriptor
  ds_configurations :: "usb_configuration list"

definition DESCRIPTOR_SET_MAGIC :: bytes where "DESCRIPTOR_SET_MAGIC = [0x57, 0x44, 0x45, 0x53]"
definition DESCRIPTOR_SET_VERSION :: u8 where "DESCRIPTOR_SET_VERSION = 1"
definition DESCRIPTOR_SIDECAR_HEADER_LEN :: nat where "DESCRIPTOR_SIDECAR_HEADER_LEN = 8"

lemma descriptor_set_consts [simp]:
  "DESCRIPTOR_SET_MAGIC = [0x57, 0x44, 0x45, 0x53]" "DESCRIPTOR_SET_VERSION = 1"
  "DESCRIPTOR_SIDECAR_HEADER_LEN = 8"
  by (simp_all add: DESCRIPTOR_SET_MAGIC_def DESCRIPTOR_SET_VERSION_def
      DESCRIPTOR_SIDECAR_HEADER_LEN_def)

section \<open>Writing\<close>

definition sidecar_bytes :: "u8 \<Rightarrow> usb_interface \<Rightarrow> bytes \<Rightarrow> bytes" where
  "sidecar_bytes config_index i report_descriptor =
     [config_index, if_interface_number (ifc_descriptor i),
      if_alternate_setting (ifc_descriptor i), USB_DESC_HID_REPORT, 0, 0] @
     le_bytes 2 (of_nat (length report_descriptor) :: u16) @ report_descriptor"

definition interface_sidecar :: "u8 \<Rightarrow> usb_interface \<Rightarrow> protocol_error + bytes list" where
  "interface_sidecar config_index i =
     (case ifc_report_descriptor i of
        None \<Rightarrow> Inr []
      | Some report_descriptor \<Rightarrow>
          if length report_descriptor > 65535
          then Inl (InvalidDescriptorSet ''report descriptor too large'')
          else Inr [sidecar_bytes config_index i report_descriptor])"

definition report_descriptor_sidecars ::
  "usb_descriptor_set \<Rightarrow> protocol_error + bytes list" where
  "report_descriptor_sidecars ds =
     and_then (map_result (\<lambda>(config_index, configuration).
         if config_index > 255 then Inl (InvalidDescriptorSet ''too many configurations'')
         else map_result (interface_sidecar (of_nat config_index)) (conf_interfaces configuration))
       (enumerate 0 (ds_configurations ds)))
     (\<lambda>sidecars. Inr (concat (concat sidecars)))"

definition descriptor_set_encode :: "usb_descriptor_set \<Rightarrow> protocol_error + bytes" where
  "descriptor_set_encode ds =
     (if length (ds_configurations ds) > 255
      then Inl (InvalidDescriptorSet ''too many configurations'')
      else and_then (report_descriptor_sidecars ds) (\<lambda>sidecars.
        if length sidecars > 65535
        then Inl (InvalidDescriptorSet ''too many sidecar descriptors'')
        else and_then (map_result configuration_to_usb_bytes (ds_configurations ds)) (\<lambda>configurations.
          Inr (DESCRIPTOR_SET_MAGIC @
               [DESCRIPTOR_SET_VERSION, of_nat (length (ds_configurations ds))] @
               le_bytes 2 (of_nat (length sidecars) :: u16) @
               device_to_usb_bytes (ds_device ds) (of_nat (length (ds_configurations ds))) @
               concat configurations @ concat sidecars))))"

section \<open>Reading\<close>

fun decode_configurations ::
  "nat \<Rightarrow> bytes \<Rightarrow> nat \<Rightarrow> protocol_error + usb_configuration list \<times> nat" where
  "decode_configurations 0 bs offset = Inr ([], offset)"
| "decode_configurations (Suc n) bs offset =
     and_then (configuration_decode_from bs offset) (\<lambda>(c, offset).
     and_then (decode_configurations n bs offset) (\<lambda>(cs, offset).
       Inr (c # cs, offset)))"

text \<open>
  \<open>iter_mut().find(p)\<close> followed by an assignment through the reference it returns.
\<close>

fun update_first :: "('a \<Rightarrow> bool) \<Rightarrow> ('a \<Rightarrow> 'a) \<Rightarrow> 'a list \<Rightarrow> 'a list option" where
  "update_first p f [] = None"
| "update_first p f (x # xs) =
     (if p x then Some (f x # xs) else map_option ((#) x) (update_first p f xs))"

definition attach_report ::
  "nat \<Rightarrow> u8 \<Rightarrow> u8 \<Rightarrow> bytes \<Rightarrow> usb_configuration list \<Rightarrow> protocol_error + usb_configuration list" where
  "attach_report config_index interface_number alternate_setting descriptor configurations =
     and_then (ok_or (InvalidDescriptorSet ''sidecar configuration index out of range'')
         (if config_index < length configurations then Some (configurations ! config_index) else None))
       (\<lambda>configuration.
     and_then (ok_or (InvalidDescriptorSet ''sidecar interface index out of range'')
         (update_first (\<lambda>i. if_interface_number (ifc_descriptor i) = interface_number \<and>
                            if_alternate_setting (ifc_descriptor i) = alternate_setting)
                       (\<lambda>i. i\<lparr>ifc_report_descriptor := Some descriptor\<rparr>)
                       (conf_interfaces configuration)))
       (\<lambda>interfaces.
         Inr (configurations[config_index := configuration\<lparr>conf_interfaces := interfaces\<rparr>])))"

definition decode_sidecar ::
  "bytes \<Rightarrow> nat \<Rightarrow> usb_configuration list \<Rightarrow> protocol_error + usb_configuration list \<times> nat" where
  "decode_sidecar bs offset configurations =
     and_then (take_bytes bs offset DESCRIPTOR_SIDECAR_HEADER_LEN) (\<lambda>(header, offset).
     let config_index = unat (header ! 0);
         interface_number = header ! 1;
         alternate_setting = header ! 2;
         descriptor_type = header ! 3;
         descriptor_index = header ! 4;
         descriptor_len = unat (read_u16_le header 6)
     in and_then (take_bytes bs offset descriptor_len) (\<lambda>(descriptor, offset).
        if descriptor_type \<noteq> USB_DESC_HID_REPORT \<or> descriptor_index \<noteq> 0
        then Inl (InvalidDescriptorSet ''unsupported sidecar descriptor'')
        else and_then (attach_report config_index interface_number alternate_setting descriptor
                         configurations)
               (\<lambda>configurations. Inr (configurations, offset))))"

fun decode_sidecars ::
  "nat \<Rightarrow> bytes \<Rightarrow> nat \<Rightarrow> usb_configuration list \<Rightarrow> protocol_error + usb_configuration list \<times> nat" where
  "decode_sidecars 0 bs offset configurations = Inr (configurations, offset)"
| "decode_sidecars (Suc n) bs offset configurations =
     and_then (decode_sidecar bs offset configurations) (\<lambda>(configurations, offset).
       decode_sidecars n bs offset configurations)"

definition descriptor_set_decode :: "bytes \<Rightarrow> protocol_error + usb_descriptor_set" where
  "descriptor_set_decode bs =
     (if length bs < 8 + 18 then Inl (InvalidDescriptorSet ''payload too short'')
      else if slice bs 0 4 \<noteq> DESCRIPTOR_SET_MAGIC
      then Inl (InvalidDescriptorSet ''invalid descriptor set magic'')
      else if bs ! 4 \<noteq> DESCRIPTOR_SET_VERSION
      then Inl (InvalidDescriptorSet ''unsupported descriptor set version'')
      else let config_count = unat (bs ! 5);
               sidecar_count = unat (read_u16_le bs 6)
           in and_then (take_bytes bs 8 18) (\<lambda>(device_bytes, offset).
              and_then (device_from_usb_bytes device_bytes) (\<lambda>(device, device_config_count).
              if unat device_config_count \<noteq> config_count
              then Inl (InvalidDescriptorSet ''device configuration count mismatch'')
              else and_then (decode_configurations config_count bs offset) (\<lambda>(configurations, offset).
                   and_then (decode_sidecars sidecar_count bs offset configurations)
                     (\<lambda>(configurations, offset).
                   if offset \<noteq> length bs
                   then Inl (InvalidDescriptorSet ''trailing descriptor payload bytes'')
                   else Inr \<lparr>ds_device = device, ds_configurations = configurations\<rparr>)))))"

section \<open>Queries\<close>

definition device_descriptor_bytes :: "usb_descriptor_set \<Rightarrow> protocol_error + bytes" where
  "device_descriptor_bytes ds =
     (if length (ds_configurations ds) > 255
      then Inl (InvalidDescriptorSet ''too many configurations'')
      else Inr (device_to_usb_bytes (ds_device ds) (of_nat (length (ds_configurations ds)))))"

definition nth_configuration ::
  "usb_descriptor_set \<Rightarrow> u8 \<Rightarrow> protocol_error + usb_configuration" where
  "nth_configuration ds index =
     ok_or (InvalidDescriptorSet ''configuration descriptor index out of range'')
       (if unat index < length (ds_configurations ds)
        then Some (ds_configurations ds ! unat index) else None)"

definition configuration_descriptor_bytes ::
  "usb_descriptor_set \<Rightarrow> u8 \<Rightarrow> protocol_error + bytes" where
  "configuration_descriptor_bytes ds descriptor_index =
     and_then (nth_configuration ds descriptor_index) configuration_to_usb_bytes"

definition report_descriptor_bytes ::
  "usb_descriptor_set \<Rightarrow> u8 \<Rightarrow> u8 \<Rightarrow> u8 \<Rightarrow> protocol_error + bytes" where
  "report_descriptor_bytes ds configuration_index interface_number descriptor_index =
     (if descriptor_index \<noteq> 0
      then Inl (InvalidDescriptorSet ''report descriptor index out of range'')
      else and_then (nth_configuration ds configuration_index) (\<lambda>configuration.
           and_then (ok_or (InvalidDescriptorSet ''interface descriptor index out of range'')
               (find (\<lambda>i. if_interface_number (ifc_descriptor i) = interface_number)
                  (conf_interfaces configuration))) (\<lambda>i.
             ok_or (InvalidDescriptorSet ''missing report descriptor'')
               (ifc_report_descriptor i))))"

section \<open>The mock HID keyboard\<close>

definition hid_keyboard_report_descriptor :: bytes where
  "hid_keyboard_report_descriptor =
     [0x05, 0x01, 0x09, 0x06, 0xa1, 0x01, 0x05, 0x07, 0x19, 0xe0, 0x29, 0xe7, 0x15, 0x00, 0x25,
      0x01, 0x75, 0x01, 0x95, 0x08, 0x81, 0x02, 0x95, 0x01, 0x75, 0x08, 0x81, 0x01, 0x95, 0x05,
      0x75, 0x01, 0x05, 0x08, 0x19, 0x01, 0x29, 0x05, 0x91, 0x02, 0x95, 0x01, 0x75, 0x03, 0x91,
      0x01, 0x95, 0x06, 0x75, 0x08, 0x15, 0x00, 0x25, 0x65, 0x05, 0x07, 0x19, 0x00, 0x29, 0x65,
      0x81, 0x00, 0xc0]"

definition mock_hid_interface :: usb_interface where
  "mock_hid_interface =
     \<lparr>ifc_descriptor = \<lparr>if_interface_number = 0, if_alternate_setting = 0,
        if_interface_class = 0x03, if_interface_sub_class = 0x01,
        if_interface_protocol = 0x01, if_interface_index = 0\<rparr>,
      ifc_extra_descriptors = [[0x09, 0x21, 0x11, 0x01, 0x00, 0x01, 0x22, 0x3f, 0x00]],
      ifc_report_descriptor = Some hid_keyboard_report_descriptor,
      ifc_endpoints = [\<lparr>ep_address = 0x81, ep_attributes = 0x03,
        ep_max_packet_size = 8, ep_interval = 10\<rparr>]\<rparr>"

definition mock_hid_configuration :: usb_configuration where
  "mock_hid_configuration =
     \<lparr>conf_descriptor = \<lparr>cfg_configuration_value = 1, cfg_configuration_index = 0,
        cfg_attributes = 0x80, cfg_max_power = 50\<rparr>,
      conf_extra_descriptors = [],
      conf_interfaces = [mock_hid_interface]\<rparr>"

definition mock_hid_keyboard :: "u16 \<Rightarrow> u16 \<Rightarrow> usb_descriptor_set" where
  "mock_hid_keyboard vendor_id product_id =
     \<lparr>ds_device = \<lparr>dev_usb_version = 0x0200, dev_device_class = 0, dev_device_sub_class = 0,
        dev_device_protocol = 0, dev_max_packet_size_0 = 64, dev_vendor_id = vendor_id,
        dev_product_id = product_id, dev_device_version = 0x0100, dev_manufacturer_index = 1,
        dev_product_index = 2, dev_serial_number_index = 3\<rparr>,
      ds_configurations = [mock_hid_configuration]\<rparr>"

section \<open>Well-formed descriptor sets\<close>

text \<open>
  A sidecar names its interface by number and alternate setting, and the decoder gives the
  report descriptor to the first interface of the configuration with that key. So a set is
  carried faithfully when an interface with a report descriptor is the first one with its
  key.
\<close>

definition interface_key :: "usb_interface \<Rightarrow> u8 \<times> u8" where
  "interface_key i =
     (if_interface_number (ifc_descriptor i), if_alternate_setting (ifc_descriptor i))"

fun reports_first :: "(u8 \<times> u8) list \<Rightarrow> usb_interface list \<Rightarrow> bool" where
  "reports_first seen [] = True"
| "reports_first seen (i # is) =
     ((ifc_report_descriptor i = None \<or> interface_key i \<notin> set seen) \<and>
      reports_first (interface_key i # seen) is)"

definition report_fits :: "usb_interface \<Rightarrow> bool" where
  "report_fits i = (case ifc_report_descriptor i of None \<Rightarrow> True | Some r \<Rightarrow> length r \<le> 65535)"

definition wf_reports :: "usb_configuration \<Rightarrow> bool" where
  "wf_reports c \<longleftrightarrow> reports_first [] (conf_interfaces c) \<and> list_all report_fits (conf_interfaces c)"

definition wf_descriptor_set :: "usb_descriptor_set \<Rightarrow> bool" where
  "wf_descriptor_set ds \<longleftrightarrow>
     length (ds_configurations ds) \<le> 255 \<and>
     list_all (\<lambda>c. wf_configuration c \<and> wf_reports c) (ds_configurations ds)"

definition sidecars_of_interface :: "u8 \<Rightarrow> usb_interface \<Rightarrow> bytes list" where
  "sidecars_of_interface idx i =
     (case ifc_report_descriptor i of None \<Rightarrow> [] | Some r \<Rightarrow> [sidecar_bytes idx i r])"

lemma interface_key_without_report [simp]: "interface_key (without_report i) = interface_key i"
  by (simp add: interface_key_def without_report_def)

lemma interface_key_update [simp]:
  "interface_key (i\<lparr>ifc_report_descriptor := r\<rparr>) = interface_key i"
  by (simp add: interface_key_def)

lemma interface_sidecar_fits:
  "report_fits i \<Longrightarrow> interface_sidecar idx i = Inr (sidecars_of_interface idx i)"
  by (cases "ifc_report_descriptor i")
    (simp_all add: interface_sidecar_def report_fits_def sidecars_of_interface_def)

lemma length_sidecar_bytes [simp]: "length (sidecar_bytes idx i r) = 8 + length r"
  by (simp add: sidecar_bytes_def)

section \<open>Reading the sidecars back\<close>

lemma update_first_append:
  "(\<forall>x \<in> set xs. \<not> p x) \<Longrightarrow> p y \<Longrightarrow> update_first p f (xs @ y # ys) = Some (xs @ f y # ys)"
  by (induction xs) auto

lemma decode_sidecar_bytes:
  assumes "length r \<le> 65535" and "length (pre @ sidecar_bytes idx i r @ post) < 2 ^ 64"
  shows "decode_sidecar (pre @ sidecar_bytes idx i r @ post) (length pre) cs =
     and_then (attach_report (unat idx) (if_interface_number (ifc_descriptor i))
                 (if_alternate_setting (ifc_descriptor i)) r cs)
       (\<lambda>cs. Inr (cs, length (pre @ sidecar_bytes idx i r)))"
proof -
  define h where "h = [idx, if_interface_number (ifc_descriptor i),
    if_alternate_setting (ifc_descriptor i), USB_DESC_HID_REPORT, 0, 0] @
    le_bytes 2 (of_nat (length r) :: u16)"
  have sb: "sidecar_bytes idx i r = h @ r" and h: "length h = 8"
    by (simp_all add: sidecar_bytes_def h_def)
  have t1: "take_bytes (pre @ (h @ r) @ post) (length pre) 8 = Inr (h, length (pre @ h))"
    using take_bytes_append [of pre h "r @ post" 8, OF _ h [symmetric]] assms by (simp add: sb)
  have t2: "take_bytes (pre @ (h @ r) @ post) (length (pre @ h)) (length r) =
      Inr (r, length (pre @ h @ r))"
    using take_bytes_append [of "pre @ h" r post] assms by (simp add: sb)
  have "unat (read_u16_le h 6) = length r"
    using assms(1) by (simp add: read_defs codec_simps h_def)
  moreover have "h ! 0 = idx" "h ! 1 = if_interface_number (ifc_descriptor i)"
    "h ! 2 = if_alternate_setting (ifc_descriptor i)" "h ! 3 = USB_DESC_HID_REPORT" "h ! 4 = 0"
    by (simp_all add: eval_nat_numeral h_def)
  ultimately show ?thesis
    unfolding decode_sidecar_def descriptor_set_consts sb t1 and_then_simps Let_def prod.case
    by (simp only: t2 and_then_simps prod.case) simp
qed

lemma attach_report_at:
  assumes "interface_key i \<notin> set (map interface_key P)" and "length A = idx"
  shows "attach_report idx (if_interface_number (ifc_descriptor i))
      (if_alternate_setting (ifc_descriptor i)) r
      (A @ c\<lparr>conf_interfaces := P @ without_report i # S\<rparr> # B) =
     Inr (A @ c\<lparr>conf_interfaces := P @ i\<lparr>ifc_report_descriptor := Some r\<rparr> # S\<rparr> # B)"
proof -
  have other: "\<forall>j \<in> set P. \<not> (if_interface_number (ifc_descriptor j) =
           if_interface_number (ifc_descriptor i) \<and>
         if_alternate_setting (ifc_descriptor j) = if_alternate_setting (ifc_descriptor i))"
    using assms(1) by (metis interface_key_def image_eqI list.set_map)
  have "update_first (\<lambda>j. if_interface_number (ifc_descriptor j) =
           if_interface_number (ifc_descriptor i) \<and>
         if_alternate_setting (ifc_descriptor j) = if_alternate_setting (ifc_descriptor i))
       (\<lambda>j. j\<lparr>ifc_report_descriptor := Some r\<rparr>) (P @ without_report i # S) =
      Some (P @ i\<lparr>ifc_report_descriptor := Some r\<rparr> # S)"
    using update_first_append [OF other, of "without_report i"] by (simp add: without_report_def)
  then show ?thesis
    using assms(2) by (simp add: attach_report_def nth_append list_update_append)
qed

lemma decode_sidecars_append:
  "decode_sidecars (m + n) bs offset cs =
     and_then (decode_sidecars m bs offset cs) (\<lambda>(cs, offset). decode_sidecars n bs offset cs)"
proof (induction m arbitrary: offset cs)
  case (Suc m)
  then show ?case
    by (cases "decode_sidecar bs offset cs") (auto split: prod.splits)
qed simp

lemma decode_sidecars_interfaces:
  assumes "reports_first (map interface_key (rev P)) S" and "list_all report_fits S"
    and "length A = unat idx"
    and "length (pre @ concat (concat (map (sidecars_of_interface idx) S)) @ post) < 2 ^ 64"
  shows "decode_sidecars (length (concat (map (sidecars_of_interface idx) S)))
      (pre @ concat (concat (map (sidecars_of_interface idx) S)) @ post) (length pre)
      (A @ c\<lparr>conf_interfaces := P @ map without_report S\<rparr> # B) =
     Inr (A @ c\<lparr>conf_interfaces := P @ S\<rparr> # B,
          length (pre @ concat (concat (map (sidecars_of_interface idx) S))))"
  using assms
proof (induction S arbitrary: P pre)
  case (Cons i S)
  let ?rest = "concat (concat (map (sidecars_of_interface idx) S))"
  show ?case
  proof (cases "ifc_report_descriptor i")
    case None
    then have "without_report i = i" and "sidecars_of_interface idx i = []"
      by (simp_all add: without_report_def sidecars_of_interface_def)
    then show ?thesis
      using Cons.IH [of "P @ [i]" pre] Cons.prems by simp
  next
    case (Some r)
    then have i: "i\<lparr>ifc_report_descriptor := Some r\<rparr> = i"
      and s: "sidecars_of_interface idx i = [sidecar_bytes idx i r]"
      and r: "length r \<le> 65535"
      using Cons.prems(2) by (simp_all add: sidecars_of_interface_def report_fits_def)
    have "decode_sidecar (pre @ sidecar_bytes idx i r @ ?rest @ post) (length pre)
        (A @ c\<lparr>conf_interfaces := P @ without_report i # map without_report S\<rparr> # B) =
       Inr (A @ c\<lparr>conf_interfaces := (P @ [i]) @ map without_report S\<rparr> # B,
            length (pre @ sidecar_bytes idx i r))"
      using Cons.prems Some r i
      by (subst decode_sidecar_bytes) (simp_all add: attach_report_at s)
    then show ?thesis
      using Cons.IH [of "P @ [i]" "pre @ sidecar_bytes idx i r"] Cons.prems by (simp add: s)
  qed
qed simp

definition set_sidecars :: "nat \<Rightarrow> usb_configuration list \<Rightarrow> bytes list" where
  "set_sidecars k cs =
     concat (map (\<lambda>(n, c). concat (map (sidecars_of_interface (of_nat n)) (conf_interfaces c)))
       (enumerate k cs))"

lemma set_sidecars_simps [simp]:
  "set_sidecars k [] = []"
  "set_sidecars k (c # cs) =
     concat (map (sidecars_of_interface (of_nat k)) (conf_interfaces c)) @ set_sidecars (Suc k) cs"
  by (simp_all add: set_sidecars_def)

lemma configuration_without_reports_alt:
  "configuration_without_reports c =
     c\<lparr>conf_interfaces := [] @ map without_report (conf_interfaces c)\<rparr>"
  by (cases c) (simp add: configuration_without_reports_def)

lemma decode_sidecars_set:
  assumes "list_all wf_reports cs" and "length A + length cs \<le> 256"
    and "length (pre @ concat (set_sidecars (length A) cs) @ post) < 2 ^ 64"
  shows "decode_sidecars (length (set_sidecars (length A) cs))
      (pre @ concat (set_sidecars (length A) cs) @ post) (length pre)
      (A @ map configuration_without_reports cs) =
     Inr (A @ cs, length (pre @ concat (set_sidecars (length A) cs)))"
  using assms
proof (induction cs arbitrary: A pre)
  case (Cons c cs)
  let ?mine = "concat (map (sidecars_of_interface (of_nat (length A))) (conf_interfaces c))"
  let ?rest = "concat (set_sidecars (Suc (length A)) cs)"
  have idx: "length A = unat (of_nat (length A) :: u8)"
    using Cons.prems(2) by simp
  have first: "decode_sidecars (length ?mine) (pre @ concat ?mine @ ?rest @ post) (length pre)
      (A @ configuration_without_reports c # map configuration_without_reports cs) =
      Inr ((A @ [c]) @ map configuration_without_reports cs, length (pre @ concat ?mine))"
    using decode_sidecars_interfaces [of "[]" "conf_interfaces c" A "of_nat (length A)" pre
        "?rest @ post" c "map configuration_without_reports cs"] Cons.prems idx
    by (simp add: configuration_without_reports_alt wf_reports_def)
  have "decode_sidecars (length (set_sidecars (Suc (length A)) cs))
      ((pre @ concat ?mine) @ ?rest @ post) (length (pre @ concat ?mine))
      ((A @ [c]) @ map configuration_without_reports cs) =
      Inr ((A @ [c]) @ cs, length ((pre @ concat ?mine) @ ?rest))"
    using Cons.IH [of "A @ [c]" "pre @ concat ?mine"] Cons.prems by simp
  with first show ?case
    by (simp add: decode_sidecars_append)
qed simp

lemma decode_configurations_to:
  assumes "list_all wf_configuration cs" and "map_result configuration_to_usb_bytes cs = Inr bss"
    and "length (pre @ concat bss @ post) < 2 ^ 64"
  shows "decode_configurations (length cs) (pre @ concat bss @ post) (length pre) =
     Inr (map configuration_without_reports cs, length (pre @ concat bss))"
  using assms
proof (induction cs arbitrary: pre bss)
  case (Cons c cs)
  then obtain b bss' where enc: "configuration_to_usb_bytes c = Inr b"
    "map_result configuration_to_usb_bytes cs = Inr bss'" and bss: "bss = b # bss'"
    by (auto simp: and_then_Inr_iff)
  have "configuration_decode_from (pre @ b @ concat bss' @ post) (length pre) =
      Inr (configuration_without_reports c, length (pre @ b))"
    using Cons.prems enc by (intro configuration_decode_from_to) (simp_all add: bss)
  then show ?case
    using Cons.IH [of bss' "pre @ b"] Cons.prems enc by (simp add: bss)
qed simp

section \<open>The codec of descriptor sets\<close>

lemma length_concat_le:
  "list_all (\<lambda>x. length x \<le> k) xs \<Longrightarrow> length (concat xs) \<le> length xs * k"
  by (induction xs) simp_all

lemma report_descriptor_sidecars_wf:
  assumes "wf_descriptor_set ds"
  shows "report_descriptor_sidecars ds = Inr (set_sidecars 0 (ds_configurations ds))"
proof -
  have "map_result (\<lambda>(config_index, configuration).
         if config_index > 255 then Inl (InvalidDescriptorSet ''too many configurations'')
         else map_result (interface_sidecar (of_nat config_index)) (conf_interfaces configuration))
       (enumerate 0 (ds_configurations ds)) =
     Inr (map (\<lambda>(n, c). map (sidecars_of_interface (of_nat n)) (conf_interfaces c))
       (enumerate 0 (ds_configurations ds)))"
  proof (rule map_result_total, clarify)
    fix n c
    assume nc: "(n, c) \<in> set (enumerate 0 (ds_configurations ds))"
    then have n: "n < length (ds_configurations ds)" and c: "c = ds_configurations ds ! n"
      by (auto simp: in_set_enumerate_eq)
    then have "wf_reports c" and "\<not> n > 255"
      using assms by (auto simp: wf_descriptor_set_def list_all_length)
    then show "(if n > 255 then Inl (InvalidDescriptorSet ''too many configurations'')
        else map_result (interface_sidecar (of_nat n)) (conf_interfaces c)) =
        Inr (map (sidecars_of_interface (of_nat n)) (conf_interfaces c))"
      using map_result_total [of "conf_interfaces c" "interface_sidecar (of_nat n)"]
      by (auto simp: wf_reports_def list_all_iff interface_sidecar_fits)
  qed
  moreover have "concat (concat (map (\<lambda>(n, c). map (sidecars_of_interface (of_nat n))
      (conf_interfaces c)) xs)) =
    concat (map (\<lambda>(n, c). concat (map (sidecars_of_interface (of_nat n)) (conf_interfaces c))) xs)"
    for xs :: "(nat \<times> usb_configuration) list"
    by (induction xs) auto
  ultimately show ?thesis
    by (simp add: report_descriptor_sidecars_def set_sidecars_def)
qed

lemma length_set_sidecars:
  assumes "list_all (\<lambda>c. wf_configuration c \<and> wf_reports c) cs"
  shows "length (set_sidecars k cs) \<le> length cs * 255"
    and "list_all (\<lambda>b. length b \<le> 65543) (set_sidecars k cs)"
proof -
  have one: "length (concat (map (sidecars_of_interface idx) is)) \<le> length is" for idx "is"
    by (induction "is") (auto simp: sidecars_of_interface_def split: option.splits)
  show "length (set_sidecars k cs) \<le> length cs * 255"
    using assms
  proof (induction cs arbitrary: k)
    case (Cons c cs)
    have "length (concat (map (sidecars_of_interface (of_nat k)) (conf_interfaces c))) \<le> 255"
      using order_trans [OF one] Cons.prems by (simp add: wf_configuration_def)
    then show ?case using Cons.IH [of "Suc k"] Cons.prems by simp
  qed simp
  show "list_all (\<lambda>b. length b \<le> 65543) (set_sidecars k cs)"
    using assms
    by (induction cs arbitrary: k)
      (fastforce simp: list_all_iff wf_reports_def report_fits_def sidecars_of_interface_def
        split: option.splits)+
qed

text \<open>What \<open>encode\<close> writes for a well-formed set.\<close>

lemma descriptor_set_encode_wf:
  assumes wf: "wf_descriptor_set ds"
  obtains configurations where
    "map_result configuration_to_usb_bytes (ds_configurations ds) = Inr configurations"
    and "descriptor_set_encode ds = Inr (DESCRIPTOR_SET_MAGIC @
       [DESCRIPTOR_SET_VERSION, of_nat (length (ds_configurations ds))] @
       le_bytes 2 (of_nat (length (set_sidecars 0 (ds_configurations ds))) :: u16) @
       device_to_usb_bytes (ds_device ds) (of_nat (length (ds_configurations ds))) @
       concat configurations @ concat (set_sidecars 0 (ds_configurations ds)))"
    and "length (set_sidecars 0 (ds_configurations ds)) < 65536"
    and "26 + length (concat configurations) +
      length (concat (set_sidecars 0 (ds_configurations ds))) < 2 ^ 32"
proof -
  let ?cs = "ds_configurations ds"
  let ?out = "\<lambda>c. configuration_desc_to_usb_bytes (conf_descriptor c)
            (of_nat (9 + length (concat (configuration_descs c))))
            (of_nat (length (conf_interfaces c))) @ concat (configuration_descs c)"
  have cs: "map_result configuration_to_usb_bytes ?cs = Inr (map ?out ?cs)"
    using wf
    by (intro map_result_total)
      (simp add: wf_descriptor_set_def list_all_iff configuration_to_usb_bytes_wf)
  have len: "length ?cs \<le> 255" and ok: "list_all (\<lambda>c. wf_configuration c \<and> wf_reports c) ?cs"
    using wf by (simp_all add: wf_descriptor_set_def)
  have side': "length (set_sidecars 0 ?cs) \<le> 255 * 255"
    using length_set_sidecars(1) [OF ok, of 0] len by (meson mult_le_mono1 order_trans)
  then have side: "length (set_sidecars 0 ?cs) < 65536" by simp
  have "list_all (\<lambda>b. length b \<le> 65535) (map ?out ?cs)"
    using ok by (auto simp: list_all_iff wf_configuration_def)
  then have "length (concat (map ?out ?cs)) \<le> length ?cs * 65535"
    by (rule order_trans [OF length_concat_le]) (simp only: length_map)
  moreover have "length (concat (set_sidecars 0 ?cs)) \<le> length (set_sidecars 0 ?cs) * 65543"
    using length_concat_le length_set_sidecars(2) [OF ok] by blast
  ultimately have total:
    "26 + length (concat (map ?out ?cs)) + length (concat (set_sidecars 0 ?cs)) < 2 ^ 32"
    using len side' by simp
  show thesis
    using that [OF cs _ side total] len side
    by (simp add: descriptor_set_encode_def report_descriptor_sidecars_wf [OF wf] cs)
qed

lemma descriptor_set_round_trip:
  assumes wf: "wf_descriptor_set ds" and enc: "descriptor_set_encode ds = Inr b"
  shows "descriptor_set_decode b = Inr ds"
proof -
  let ?cs = "ds_configurations ds"
  let ?n = "length ?cs"
  let ?side = "set_sidecars 0 ?cs"
  obtain cbs where cs: "map_result configuration_to_usb_bytes ?cs = Inr cbs"
    and b': "descriptor_set_encode ds = Inr (DESCRIPTOR_SET_MAGIC @
       [DESCRIPTOR_SET_VERSION, of_nat ?n] @ le_bytes 2 (of_nat (length ?side) :: u16) @
       device_to_usb_bytes (ds_device ds) (of_nat ?n) @ concat cbs @ concat ?side)"
    and side: "length ?side < 65536"
    and total: "26 + length (concat cbs) + length (concat ?side) < 2 ^ 32"
    by (rule descriptor_set_encode_wf [OF wf])
  have len: "?n \<le> 255" and ok: "list_all wf_configuration ?cs" "list_all wf_reports ?cs"
    using wf by (simp_all add: wf_descriptor_set_def list_all_iff)
  define h where "h = [0x57, 0x44, 0x45, 0x53, 1, of_nat ?n] @
    le_bytes 2 (of_nat (length ?side) :: u16)"
  define dev where "dev = device_to_usb_bytes (ds_device ds) (of_nat ?n)"
  have b: "b = h @ dev @ concat cbs @ concat ?side"
    using enc b' by (simp add: h_def dev_def)
  have lens: "length h = 8" "length dev = 18"
    by (simp_all add: h_def dev_def)
  have h: "slice b 0 4 = [0x57, 0x44, 0x45, 0x53]" "b ! 4 = 1" "b ! 5 = of_nat ?n"
    "read_u16_le b 6 = of_nat (length ?side)"
    by (simp_all add: b h_def codec_simps read_defs nth_append)
  have n: "unat (of_nat ?n :: u8) = ?n" and s: "unat (of_nat (length ?side) :: u16) = length ?side"
    using len side by (intro unat_of_nat_u8 unat_of_nat_u16; simp)+
  have t: "take_bytes b 8 18 = Inr (dev, length (h @ dev))"
    using take_bytes_append [of h dev "concat cbs @ concat ?side" 18, OF _ lens(2) [symmetric]] lens total
    by (simp add: b)
  have c: "decode_configurations ?n b (length (h @ dev)) =
      Inr (map configuration_without_reports ?cs, length ((h @ dev) @ concat cbs))"
    using decode_configurations_to [OF ok(1) cs, of "h @ dev" "concat ?side"] lens total
    by (simp add: b)
  have "decode_sidecars (length ?side) b (length ((h @ dev) @ concat cbs))
      (map configuration_without_reports ?cs) = Inr (?cs, length b)"
    using decode_sidecars_set [OF ok(2), of "[]" "(h @ dev) @ concat cbs" "[]"] lens total len
    by (simp add: b)
  moreover have "\<not> length b < 8 + 18"
    using lens by (simp add: b)
  ultimately show ?thesis
    unfolding descriptor_set_decode_def Let_def
    using c lens by (simp add: h n s t) (simp add: dev_def h n s)
qed

lemma descriptor_set_encode_fits:
  "wf_descriptor_set ds \<Longrightarrow> descriptor_set_encode ds = Inr b \<Longrightarrow> length b < 2 ^ 32"
  by (erule descriptor_set_encode_wf [where ds = ds]) auto

section \<open>What the decoder returns can be written\<close>

lemma update_first_SomeE:
  assumes "update_first p f xs = Some ys"
  obtains a x b where "xs = a @ x # b" "p x" "\<forall>y \<in> set a. \<not> p y" "ys = a @ f x # b"
proof -
  have "\<exists>a x b. xs = a @ x # b \<and> p x \<and> (\<forall>y \<in> set a. \<not> p y) \<and> ys = a @ f x # b"
    using assms
  proof (induction xs arbitrary: ys)
    case (Cons z xs)
    show ?case
    proof (cases "p z")
      case True
      with Cons.prems show ?thesis by (intro exI [of _ "[]"]) auto
    next
      case False
      then obtain zs where "update_first p f xs = Some zs" and ys: "ys = z # zs"
        using Cons.prems by auto
      then obtain a x b where "xs = a @ x # b" "p x" "\<forall>y \<in> set a. \<not> p y" "zs = a @ f x # b"
        using Cons.IH by blast
      with False ys show ?thesis by (intro exI [of _ "z # a"]) auto
    qed
  qed simp
  then show thesis using that by blast
qed

lemma reports_first_append:
  "reports_first seen (a @ b) \<longleftrightarrow>
     reports_first seen a \<and> reports_first (rev (map interface_key a) @ seen) b"
  by (induction a arbitrary: seen) auto

lemma reports_first_none:
  "\<forall>i \<in> set is. ifc_report_descriptor i = None \<Longrightarrow> reports_first seen is"
  by (induction "is" arbitrary: seen) auto

lemma wf_configuration_update_report:
  assumes "wf_configuration c" and "conf_interfaces c = a @ i # b"
  shows "wf_configuration (c\<lparr>conf_interfaces := a @ i\<lparr>ifc_report_descriptor := r\<rparr> # b\<rparr>)"
  using assms
  by (auto simp: wf_configuration_def wf_interface_def configuration_descs_def interface_descs_def)

definition wf_configurations :: "usb_configuration list \<Rightarrow> bool" where
  "wf_configurations = list_all (\<lambda>c. wf_configuration c \<and> wf_reports c)"

lemma wf_configurations_update:
  "wf_configurations cs \<Longrightarrow> wf_configuration c \<Longrightarrow> wf_reports c \<Longrightarrow> wf_configurations (cs[n := c])"
  using set_update_subset_insert [of cs n c] by (auto simp: wf_configurations_def list_all_iff)

lemma attach_report_wf:
  assumes "attach_report k n a r cs = Inr cs'" and "wf_configurations cs" and "length r \<le> 65535"
  shows "wf_configurations cs' \<and> length cs' = length cs"
proof -
  let ?p = "\<lambda>i. if_interface_number (ifc_descriptor i) = n \<and>
    if_alternate_setting (ifc_descriptor i) = a"
  obtain is' where k: "k < length cs"
    and upd: "update_first ?p (\<lambda>i. i\<lparr>ifc_report_descriptor := Some r\<rparr>)
        (conf_interfaces (cs ! k)) = Some is'"
    and cs': "cs' = cs[k := (cs ! k)\<lparr>conf_interfaces := is'\<rparr>]"
    using assms(1) by (auto simp: attach_report_def and_then_Inr_iff split: if_splits)
  obtain x i y where split: "conf_interfaces (cs ! k) = x @ i # y" and p: "?p i"
    and new: "\<forall>j \<in> set x. \<not> ?p j" and is': "is' = x @ i\<lparr>ifc_report_descriptor := Some r\<rparr> # y"
    using upd by (rule update_first_SomeE)
  have c: "wf_configuration (cs ! k)" "wf_reports (cs ! k)"
    using assms(2) k by (simp_all add: wf_configurations_def list_all_length)
  have "interface_key i \<notin> set (rev (map interface_key x))"
    using p new by (auto simp: interface_key_def)
  then have "wf_reports ((cs ! k)\<lparr>conf_interfaces := is'\<rparr>)"
    using c(2) assms(3) by (simp add: wf_reports_def split is' reports_first_append report_fits_def)
  then show ?thesis
    using wf_configuration_update_report [OF c(1) split] assms(2)
    by (simp add: cs' is' wf_configurations_update)
qed

lemma decode_sidecars_wf:
  assumes "decode_sidecars n bs offset cs = Inr (cs', offset')" and "wf_configurations cs"
  shows "wf_configurations cs' \<and> length cs' = length cs"
  using assms
proof (induction n arbitrary: offset cs)
  case (Suc n)
  then obtain cs1 offset1 where step: "decode_sidecar bs offset cs = Inr (cs1, offset1)"
    and rest: "decode_sidecars n bs offset1 cs1 = Inr (cs', offset')"
    by (auto simp: and_then_Inr_iff)
  obtain w :: u16 and k m a r offset2 where
    "attach_report k m a (slice bs offset2 (offset2 + unat w)) cs = Inr cs1"
    using step by (auto simp: decode_sidecar_def Let_def and_then_Inr_iff take_bytes_Inr_iff
        split: if_splits)
  moreover have "length (slice bs offset2 (offset2 + unat w)) \<le> 65535"
    using unat_less_65536 [of w] unfolding length_slice by linarith
  ultimately have "wf_configurations cs1 \<and> length cs1 = length cs"
    using attach_report_wf Suc.prems(2) by blast
  then show ?case
    using Suc.IH [OF rest] by simp
qed simp

lemma decode_configurations_wf:
  assumes "decode_configurations n bs offset = Inr (cs, offset')"
  shows "wf_configurations cs \<and> length cs = n"
  using assms
proof (induction n arbitrary: offset cs)
  case 0
  then show ?case by (simp add: wf_configurations_def)
next
  case (Suc n)
  then obtain c cs1 offset1 where c: "configuration_decode_from bs offset = Inr (c, offset1)"
    and rest: "decode_configurations n bs offset1 = Inr (cs1, offset')" and cs: "cs = c # cs1"
    by (auto simp: and_then_Inr_iff)
  have "wf_reports c"
    using configuration_decode_from_wf(2) [OF c]
    by (simp add: wf_reports_def reports_first_none list_all_iff report_fits_def)
  then show ?case
    using Suc.IH [OF rest] configuration_decode_from_wf(1) [OF c]
    by (simp add: cs wf_configurations_def)
qed

lemma descriptor_set_decode_wf:
  assumes "descriptor_set_decode bs = Inr ds"
  shows "wf_descriptor_set ds"
proof -
  obtain cs cs' offset offset' offset'' m where
    1: "decode_configurations (unat (bs ! 5)) bs offset = Inr (cs, offset')"
    and 2: "decode_sidecars m bs offset' cs = Inr (cs', offset'')"
    and ds: "ds_configurations ds = cs'"
    using assms
    by (auto simp: descriptor_set_decode_def Let_def and_then_Inr_iff split: if_splits)
  have "length cs \<le> 255"
    using decode_configurations_wf [OF 1] unat_less_256 [of "bs ! 5"] by linarith
  then show ?thesis
    using decode_configurations_wf [OF 1] decode_sidecars_wf [OF 2]
    by (simp add: wf_descriptor_set_def wf_configurations_def ds)
qed

interpretation descriptor_sets: codec wf_descriptor_set descriptor_set_encode descriptor_set_decode
proof
  show "\<exists>b. descriptor_set_encode ds = Inr b" if "wf_descriptor_set ds" for ds
    using descriptor_set_encode_wf [OF that] by metis
qed (rule descriptor_set_round_trip descriptor_set_decode_wf; assumption)+

section \<open>Properties\<close>

lemma mock_hid_keyboard_wf [simp]: "wf_descriptor_set (mock_hid_keyboard vendor_id product_id)"
  by (simp add: wf_descriptor_set_def mock_hid_keyboard_def mock_hid_configuration_def
      mock_hid_interface_def wf_configuration_def wf_interface_def configuration_descs_def
      interface_descs_def plain_extra_def framed_descriptor_def wf_reports_def report_fits_def
      hid_keyboard_report_descriptor_def)

text \<open>
  C7: a descriptor set survives the wire (it is encoded, and decoding its bytes gives exactly
  the same set back, report descriptors included) if and only if it is well-formed: at most
  255 configurations, each with framed class descriptors and a total length in 16 bits, and
  every report descriptor on the first interface with its number and alternate setting.
\<close>

theorem descriptor_set_survives_iff:
  "(\<exists>bs. descriptor_set_encode ds = Inr bs \<and> descriptor_set_decode bs = Inr ds) \<longleftrightarrow>
     wf_descriptor_set ds"
  using descriptor_sets.enc_dec descriptor_sets.dec_wf by blast

text \<open>
  Whatever descriptor set the decoder accepts, from any bytes, the encoder writes
  again, and the bytes it writes decode to the same set.
\<close>

theorem descriptor_set_received_re_encodes:
  "descriptor_set_decode bs = Inr ds \<Longrightarrow>
   \<exists>bs'. descriptor_set_encode ds = Inr bs' \<and> descriptor_set_decode bs' = Inr ds"
  by (rule descriptor_sets.re_encode)

definition empty_set_bytes :: bytes where
  "empty_set_bytes = [0x57, 0x44, 0x45, 0x53, 1, 0, 0, 0,
     18, 1, 0, 2, 0, 0, 0, 64, 0x34, 0x12, 0x78, 0x56, 0, 1, 1, 2, 3, 0]"

theorem descriptor_set_received_re_encodes_witness:
  "\<exists>ds bs'. descriptor_set_decode empty_set_bytes = Inr ds \<and> ds_configurations ds = [] \<and>
     descriptor_set_encode ds = Inr bs' \<and> descriptor_set_decode bs' = Inr ds"
proof -
  obtain ds where "descriptor_set_decode empty_set_bytes = Inr ds" and "ds_configurations ds = []"
    by (simp add: descriptor_set_decode_def empty_set_bytes_def slice_def read_u16_le_def
        le_word.simps take_bytes_def device_from_usb_bytes_def)
  then show ?thesis
    using descriptor_set_received_re_encodes [of empty_set_bytes ds] by blast
qed

lemma configuration_head_fields:
  assumes "b = configuration_desc_to_usb_bytes c total_len count @ body"
  shows "b ! 0 = 9" "b ! 1 = USB_DESC_CONFIGURATION" "read_u16_le b 2 = total_len" "b ! 4 = count"
    "length b = 9 + length body"
  by (simp_all add: assms configuration_desc_to_usb_bytes_def read_defs codec_simps nth_append)

text \<open>
  The configuration descriptor a device answers with is framed as the USB
  specification asks, for every descriptor set: it starts with a nine-byte
  \<open>CONFIGURATION\<close> descriptor whose total length is the number of bytes of the answer and
  whose interface count is the number of interfaces.
\<close>

theorem configuration_descriptor_framed:
  "configuration_descriptor_bytes ds k = Inr b \<Longrightarrow>
     unat k < length (ds_configurations ds) \<and> b ! 0 = 9 \<and> b ! 1 = USB_DESC_CONFIGURATION \<and>
     unat (read_u16_le b 2) = length b \<and>
     unat (b ! 4) = length (conf_interfaces (ds_configurations ds ! unat k))"
proof -
  assume "configuration_descriptor_bytes ds k = Inr b"
  then obtain body where k: "unat k < length (ds_configurations ds)"
    and len: "9 + length body \<le> 65535"
      "length (conf_interfaces (ds_configurations ds ! unat k)) \<le> 255"
    and b: "b = configuration_desc_to_usb_bytes
       (conf_descriptor (ds_configurations ds ! unat k)) (of_nat (9 + length body))
       (of_nat (length (conf_interfaces (ds_configurations ds ! unat k)))) @ body"
    by (auto simp: configuration_descriptor_bytes_def nth_configuration_def and_then_Inr_iff
        configuration_to_usb_bytes_def Let_def split: if_splits)
  have "unat (of_nat (9 + length body) :: u16) = 9 + length body"
    using len by (intro unat_of_nat_u16) simp
  then show ?thesis
    using len k configuration_head_fields [OF b] by simp
qed

theorem configuration_descriptor_framed_witness:
  "\<exists>b. configuration_descriptor_bytes (mock_hid_keyboard 0x1209 1) 0 = Inr b \<and> length b = 34 \<and>
     b ! 1 = USB_DESC_CONFIGURATION \<and> unat (read_u16_le b 2) = length b"
proof -
  have "wf_configuration mock_hid_configuration"
    using mock_hid_keyboard_wf [of 0 0] by (simp add: wf_descriptor_set_def mock_hid_keyboard_def)
  then obtain b where b: "configuration_descriptor_bytes (mock_hid_keyboard 0x1209 1) 0 = Inr b"
    and "length b = 34"
    by (simp add: configuration_descriptor_bytes_def nth_configuration_def mock_hid_keyboard_def
        configuration_to_usb_bytes_wf)
      (simp add: mock_hid_configuration_def mock_hid_interface_def configuration_descs_def
        interface_descs_def)
  then show ?thesis
    using configuration_descriptor_framed [OF b] by simp
qed

text \<open>A set whose class descriptor is itself an endpoint descriptor.\<close>

definition endpoint_as_extra :: usb_descriptor_set where
  "endpoint_as_extra =
     \<lparr>ds_device = ds_device (mock_hid_keyboard 0 0),
      ds_configurations = [\<lparr>conf_descriptor = conf_descriptor mock_hid_configuration,
        conf_extra_descriptors = [[2, 5]], conf_interfaces = []\<rparr>]\<rparr>"


end
