(* ===== verification/Frames.thy ===== *)
theory Frames imports Descriptor_Set Control_Transfer Mock_Payloads begin

text \<open>
  The messages between the two halves of the virtual host controller: \<open>Frame\<close> of
  \<open>protocol/src/lib.rs\<close>, its constructors, and its 28-byte header on the wire. A frame
  is a codec whose decoder ignores the three reserved bytes; the lemmas say exactly which
  byte strings decode to which frame, and that frames are self-delimiting.
\<close>

definition FRAME_MAGIC :: bytes where "FRAME_MAGIC = [0x57, 0x48, 0x59, 0x31]"
definition FRAME_VERSION :: u8 where "FRAME_VERSION = 1"
definition HEADER_LEN :: nat where "HEADER_LEN = 28"

lemma frame_consts [simp]:
  "FRAME_MAGIC = [0x57, 0x48, 0x59, 0x31]" "FRAME_VERSION = 1" "HEADER_LEN = 28"
  by (simp_all add: FRAME_MAGIC_def FRAME_VERSION_def HEADER_LEN_def)

record frame =
  fr_request_id :: u64
  fr_frame_type :: frame_type
  fr_direction :: direction
  fr_transfer_type :: transfer_type
  fr_endpoint :: u8
  fr_status :: i32
  fr_payload :: bytes

section \<open>Constructors\<close>

definition frame_new ::
  "u64 \<Rightarrow> frame_type \<Rightarrow> direction \<Rightarrow> transfer_type \<Rightarrow> u8 \<Rightarrow> i32 \<Rightarrow> bytes \<Rightarrow> frame" where
  "frame_new request_id frame_type direction transfer_type endpoint status payload =
     \<lparr>fr_request_id = request_id, fr_frame_type = frame_type, fr_direction = direction,
      fr_transfer_type = transfer_type, fr_endpoint = endpoint, fr_status = status,
      fr_payload = payload\<rparr>"

definition mock_request :: "u64 \<Rightarrow> bytes \<Rightarrow> frame" where
  "mock_request request_id payload =
     frame_new request_id Request HostToDevice Bulk 1 0 payload"

text \<open>
  \<open>None\<close> is the panic of \<open>MockBulkPayload::encode\<close> on data that is too long.
\<close>

definition mock_bulk_request :: "u64 \<Rightarrow> nat \<Rightarrow> frame option" where
  "mock_bulk_request request_id payload_len =
     map_option (mock_request request_id)
       (mock_bulk_encode (mock_bulk_synthetic request_id payload_len))"

definition mock_response :: "frame \<Rightarrow> bytes \<Rightarrow> frame" where
  "mock_response f payload =
     frame_new (fr_request_id f) Response DeviceToHost (fr_transfer_type f) (fr_endpoint f) 0 payload"

definition frame_transfer_status :: "frame \<Rightarrow> protocol_error + transfer_status" where
  "frame_transfer_status f = transfer_status_try_from (fr_status f)"

definition status_response :: "frame \<Rightarrow> transfer_status \<Rightarrow> frame" where
  "status_response f status =
     frame_new (fr_request_id f) Response DeviceToHost (fr_transfer_type f) (fr_endpoint f)
       (transfer_status_code status) []"

definition control_request :: "u64 \<Rightarrow> usb_control_setup \<Rightarrow> frame" where
  "control_request request_id setup =
     frame_new request_id Request (setup_transfer_direction setup) Control 0 0
       (control_transfer_encode (control_transfer_setup_only setup))"

definition control_response :: "frame \<Rightarrow> i32 \<Rightarrow> bytes \<Rightarrow> frame" where
  "control_response f status data =
     (let payload = (case control_transfer_decode (fr_payload f) of
                       Inr control \<Rightarrow>
                         control_transfer_encode (control_transfer_new (ct_setup control) data)
                     | Inl _ \<Rightarrow> data)
      in frame_new (fr_request_id f) Response (fr_direction f) Control 0 status payload)"

definition hid_keyboard_input_event :: "u64 \<Rightarrow> hid_keyboard_input_report \<Rightarrow> frame" where
  "hid_keyboard_input_event request_id report =
     frame_new request_id Event DeviceToHost Interrupt 0x81 0 (hid_report_encode report)"

definition attach_request :: "u64 \<Rightarrow> frame" where
  "attach_request request_id = frame_new request_id AttachRequest HostToDevice Control 0 0 []"

definition attach_response :: "frame \<Rightarrow> i32 \<Rightarrow> frame" where
  "attach_response f status =
     frame_new (fr_request_id f) AttachResponse DeviceToHost Control 0 status []"

definition attach_response_with_descriptors ::
  "frame \<Rightarrow> i32 \<Rightarrow> usb_descriptor_set \<Rightarrow> protocol_error + frame" where
  "attach_response_with_descriptors f status descriptors =
     and_then (descriptor_set_encode descriptors) (\<lambda>payload.
       Inr (frame_new (fr_request_id f) AttachResponse DeviceToHost Control 0 status payload))"

definition detach_request :: "u64 \<Rightarrow> frame" where
  "detach_request request_id = frame_new request_id DetachRequest HostToDevice Control 0 0 []"

definition detach_response :: "frame \<Rightarrow> i32 \<Rightarrow> frame" where
  "detach_response f status =
     frame_new (fr_request_id f) DetachResponse DeviceToHost Control 0 status []"

definition cancel_request :: "u64 \<Rightarrow> transfer_type \<Rightarrow> u8 \<Rightarrow> frame" where
  "cancel_request request_id transfer_type endpoint =
     frame_new request_id CancelRequest HostToDevice transfer_type endpoint 0 []"

definition cancel_response :: "frame \<Rightarrow> transfer_status \<Rightarrow> frame" where
  "cancel_response f status =
     frame_new (fr_request_id f) CancelResponse DeviceToHost (fr_transfer_type f) (fr_endpoint f)
       (transfer_status_code status) []"

definition reset_request :: "u64 \<Rightarrow> transfer_type \<Rightarrow> u8 \<Rightarrow> frame" where
  "reset_request request_id transfer_type endpoint =
     frame_new request_id ResetRequest HostToDevice transfer_type endpoint 0 []"

definition reset_response :: "frame \<Rightarrow> transfer_status \<Rightarrow> frame" where
  "reset_response f status =
     frame_new (fr_request_id f) ResetResponse DeviceToHost (fr_transfer_type f) (fr_endpoint f)
       (transfer_status_code status) []"

definition is_lifecycle_frame :: "frame \<Rightarrow> bool" where
  "is_lifecycle_frame f =
     (case fr_frame_type f of
        AttachRequest \<Rightarrow> True | AttachResponse \<Rightarrow> True | DetachRequest \<Rightarrow> True
      | DetachResponse \<Rightarrow> True | _ \<Rightarrow> False)"

definition is_transfer_control_frame :: "frame \<Rightarrow> bool" where
  "is_transfer_control_frame f =
     (case fr_frame_type f of
        CancelRequest \<Rightarrow> True | CancelResponse \<Rightarrow> True | ResetRequest \<Rightarrow> True
      | ResetResponse \<Rightarrow> True | _ \<Rightarrow> False)"

section \<open>Wire format\<close>

text \<open>
  \<open>frame_encode\<close> is \<open>None\<close> where \<open>expect("payload too large")\<close> panics.
\<close>

definition frame_encode :: "frame \<Rightarrow> bytes option" where
  "frame_encode f =
     (if length (fr_payload f) > 4294967295 then None
      else let payload_len = of_nat (length (fr_payload f)) :: u32
           in Some (FRAME_MAGIC @
                [FRAME_VERSION, frame_type_code (fr_frame_type f), direction_code (fr_direction f),
                 transfer_type_code (fr_transfer_type f)] @
                be_bytes 8 (fr_request_id f) @ [fr_endpoint f, 0] @ be_bytes 2 (0 :: u16) @
                be_bytes 4 (fr_status f) @ be_bytes 4 payload_len @ fr_payload f))"

definition frame_decode :: "bytes \<Rightarrow> protocol_error + frame" where
  "frame_decode bs =
     (if length bs < HEADER_LEN then Inl (TruncatedHeader (length bs) HEADER_LEN)
      else if slice bs 0 4 \<noteq> FRAME_MAGIC then Inl InvalidMagic
      else if bs ! 4 \<noteq> FRAME_VERSION then Inl (UnsupportedVersion (bs ! 4))
      else and_then (frame_type_try_from (bs ! 5)) (\<lambda>frame_type.
           and_then (direction_try_from (bs ! 6)) (\<lambda>direction.
           and_then (transfer_type_try_from (bs ! 7)) (\<lambda>transfer_type.
             let request_id = read_u64_be bs 8;
                 endpoint = bs ! 16;
                 status = read_u32_be bs 20;
                 payload_len = unat (read_u32_be bs 24);
                 expected_len = HEADER_LEN + payload_len
             in if length bs \<noteq> expected_len
                then Inl (InvalidPayloadLength (length bs - HEADER_LEN) payload_len)
                else Inr \<lparr>fr_request_id = request_id, fr_frame_type = frame_type,
                          fr_direction = direction, fr_transfer_type = transfer_type,
                          fr_endpoint = endpoint, fr_status = status,
                          fr_payload = drop HEADER_LEN bs\<rparr>))))"

definition wf_frame :: "frame \<Rightarrow> bool" where
  "wf_frame f \<longleftrightarrow> length (fr_payload f) \<le> 4294967295"

text \<open>
  The bytes of a frame with arbitrary reserved bytes \<open>r\<close> at offsets 17 to 19.
\<close>

definition frame_layout :: "frame \<Rightarrow> bytes \<Rightarrow> bytes" where
  "frame_layout f r =
     FRAME_MAGIC @
     [FRAME_VERSION, frame_type_code (fr_frame_type f), direction_code (fr_direction f),
      transfer_type_code (fr_transfer_type f)] @
     be_bytes 8 (fr_request_id f) @ [fr_endpoint f] @ r @
     be_bytes 4 (fr_status f) @ be_bytes 4 (of_nat (length (fr_payload f)) :: u32) @ fr_payload f"

lemma be_bytes_two_zero [simp]: "be_bytes 2 (0 :: u16) = [0, 0]"
  by (simp add: be_bytes_def le_bytes_two)

lemma frame_encode_layout: "frame_encode f = (if wf_frame f then Some (frame_layout f [0, 0, 0]) else None)"
  by (auto simp: frame_encode_def frame_layout_def wf_frame_def Let_def)

lemma length_frame_layout [simp]:
  "length r = 3 \<Longrightarrow> length (frame_layout f r) = 28 + length (fr_payload f)"
  by (simp add: frame_layout_def)

lemma frame_decode_layout:
  assumes "wf_frame f" and "length r = 3"
  shows "frame_decode (frame_layout f r) = Inr f"
proof -
  let ?bs = "frame_layout f r"
  have "slice ?bs 0 4 = FRAME_MAGIC" "?bs ! 4 = FRAME_VERSION"
    "?bs ! 5 = frame_type_code (fr_frame_type f)" "?bs ! 6 = direction_code (fr_direction f)"
    "?bs ! 7 = transfer_type_code (fr_transfer_type f)" "?bs ! 16 = fr_endpoint f"
    "read_u64_be ?bs 8 = fr_request_id f" "read_u32_be ?bs 20 = fr_status f"
    "read_u32_be ?bs 24 = of_nat (length (fr_payload f))" "drop 28 ?bs = fr_payload f"
    using assms(2) by (simp_all add: frame_layout_def codec_simps read_defs nth_append)
  moreover have "unat (of_nat (length (fr_payload f)) :: u32) = length (fr_payload f)"
    using assms(1) by (intro unat_of_nat_u32) (simp add: wf_frame_def)
  ultimately show ?thesis
    using assms(2)
    by (simp add: frame_decode_def frame_types.try_from_code directions.try_from_code
        transfer_types.try_from_code Let_def)
qed

lemma frame_layout_decode:
  assumes "frame_decode bs = Inr f"
  shows "wf_frame f" and "frame_layout f (slice bs 17 20) = bs" and "28 \<le> length bs"
proof -
  have len: "28 \<le> length bs" "length bs = 28 + unat (read_u32_be bs 24)"
    and hd: "slice bs 0 4 = FRAME_MAGIC" "bs ! 4 = FRAME_VERSION"
      "bs ! 5 = frame_type_code (fr_frame_type f)" "bs ! 6 = direction_code (fr_direction f)"
      "bs ! 7 = transfer_type_code (fr_transfer_type f)" "bs ! 16 = fr_endpoint f"
    and fields: "fr_request_id f = read_u64_be bs 8" "fr_status f = read_u32_be bs 20"
      "fr_payload f = drop 28 bs"
    using assms
    by (auto simp: frame_decode_def Let_def and_then_Inr_iff frame_types.try_from_Inr_iff
        directions.try_from_Inr_iff transfer_types.try_from_Inr_iff split: if_splits)
  have p: "length (fr_payload f) = unat (read_u32_be bs 24)"
    using len by (simp add: fields)
  then show "wf_frame f"
    using unat_less_2p32 [of "read_u32_be bs 24"] unfolding wf_frame_def by linarith
  have "slice bs 4 8 = [bs ! 4, bs ! 5, bs ! 6, bs ! 7]"
    using len(1) slice_append_slice [of 4 5 8 bs] slice_append_slice [of 5 6 8 bs]
      slice_append_slice [of 6 7 8 bs]
    by (simp add: slice_single)
  moreover have "slice bs 16 17 = [bs ! 16]"
    using len(1) by (simp add: slice_single)
  moreover have "of_nat (length (fr_payload f)) = read_u32_be bs 24"
    by (simp add: p)
  ultimately have "frame_layout f (slice bs 17 20) =
      slice bs 0 4 @ slice bs 4 8 @ slice bs 8 16 @ slice bs 16 17 @ slice bs 17 20 @
      slice bs 20 24 @ slice bs 24 28 @ drop 28 bs"
    using len(1) by (simp add: frame_layout_def hd fields bytes_of_fields)
  then show "frame_layout f (slice bs 17 20) = bs"
    by (simp add: slice_append_drop)
  show "28 \<le> length bs" by (rule len)
qed

interpretation frames: codec wf_frame "\<lambda>f. ok_or () (frame_encode f)" frame_decode
  by unfold_locales (auto simp: frame_encode_layout frame_decode_layout dest: frame_layout_decode)

lemma frame_layout_split:
  assumes "length r = 3"
  shows "slice (frame_layout f r) 0 17 = slice (frame_layout f [0, 0, 0]) 0 17"
    and "drop 20 (frame_layout f r) = drop 20 (frame_layout f [0, 0, 0])"
    and "slice (frame_layout f r) 17 20 = r"
  using assms by (simp_all add: frame_layout_def codec_simps slice_def)

section \<open>Properties\<close>

text \<open>
  C8: the frame decoder is exact: bytes decode to a frame if and only if they are the
  frame's own encoding with anything in the three reserved bytes 17 to 19.
\<close>

theorem frame_decode_exact:
  "frame_decode bs = Inr f \<longleftrightarrow>
     28 \<le> length bs \<and> frame_encode f = Some (slice bs 0 17 @ [0, 0, 0] @ drop 20 bs)"
proof (intro iffI conjI; (elim conjE)?)
  assume d: "frame_decode bs = Inr f"
  then show "28 \<le> length bs" by (rule frame_layout_decode)
  let ?r = "slice bs 17 20"
  have "frame_layout f [0, 0, 0] = slice bs 0 17 @ [0, 0, 0] @ drop 20 bs"
    using frame_layout_split [of ?r f] frame_layout_split(3) [of "[0, 0, 0]" f]
      frame_layout_decode [OF d] slice_append_drop [of 0 17 "frame_layout f [0, 0, 0]"]
      slice_append_drop [of 17 20 "frame_layout f [0, 0, 0]"]
    by simp
  then show "frame_encode f = Some (slice bs 0 17 @ [0, 0, 0] @ drop 20 bs)"
    using frame_layout_decode(1) [OF d] by (simp add: frame_encode_layout)
next
  assume len: "28 \<le> length bs"
    and "frame_encode f = Some (slice bs 0 17 @ [0, 0, 0] @ drop 20 bs)"
  then have wf: "wf_frame f" and z: "frame_layout f [0, 0, 0] = slice bs 0 17 @ [0, 0, 0] @ drop 20 bs"
    by (simp_all add: frame_encode_layout split: if_splits)
  let ?r = "slice bs 17 20"
  have "frame_layout f ?r = slice bs 0 17 @ ?r @ drop 20 bs"
    using frame_layout_split [of ?r f] len z slice_append_drop [of 0 17 "frame_layout f ?r"]
      slice_append_drop [of 17 20 "frame_layout f ?r"]
    by (simp add: codec_simps)
  then show "frame_decode bs = Inr f"
    using frame_decode_layout [OF wf, of ?r] len by (simp add: slice_append_drop)
qed

lemma frame_decode_append:
  assumes "frame_decode bs = Inr f" and "x \<noteq> []"
  shows "frame_decode (bs @ x) =
    Inl (InvalidPayloadLength (length (fr_payload f) + length x) (length (fr_payload f)))"
proof -
  have len: "28 \<le> length bs" "length bs = 28 + unat (read_u32_be bs 24)"
    "length (fr_payload f) = unat (read_u32_be bs 24)"
    using assms(1)
    by (auto simp: frame_decode_def Let_def and_then_Inr_iff split: if_splits)
  then have "slice (bs @ x) 0 4 = slice bs 0 4" "read_u32_be (bs @ x) 24 = read_u32_be bs 24"
    by (simp_all add: codec_simps read_defs)
  with len assms show ?thesis
    by (auto simp: frame_decode_def Let_def and_then_Inr_iff nth_append split: if_splits)
qed

text \<open>
  Frames are self-delimiting: when bytes decode to a frame, the same bytes followed by
  anything else are refused with the two lengths, so no frame is a proper prefix of another.
\<close>

theorem frame_decode_prefix_free:
  assumes "frame_decode bs = Inr f" and "x \<noteq> []"
  shows "frame_decode (bs @ x) =
      Inl (InvalidPayloadLength (length (fr_payload f) + length x) (length (fr_payload f)))"
  by (rule frame_decode_append [OF assms])

theorem frame_decode_prefix_free_witness:
  "frame_decode (frame_layout (attach_request 7) [0, 0, 0] @ [1]) = Inl (InvalidPayloadLength 1 0)"
proof -
  have "frame_decode (frame_layout (attach_request 7) [0, 0, 0]) = Inr (attach_request 7)"
    by (simp add: frame_decode_layout wf_frame_def attach_request_def frame_new_def)
  from frame_decode_prefix_free [OF this, of "[1]"] show ?thesis
    by (simp add: attach_request_def frame_new_def)
qed

definition control_exchange :: "u64 \<Rightarrow> usb_control_setup \<Rightarrow> i32 \<Rightarrow> bytes \<Rightarrow> frame option" where
  "control_exchange request_id setup status data =
     Option.bind (frame_encode (control_request request_id setup)) (\<lambda>request.
       case frame_decode request of
         Inl _ \<Rightarrow> None
       | Inr f \<Rightarrow> Option.bind (frame_encode (control_response f status data)) (\<lambda>response.
           case frame_decode response of Inl _ \<Rightarrow> None | Inr g \<Rightarrow> Some g))"

lemma frame_decode_encode [simp]: "frame_encode f = Some b \<Longrightarrow> frame_decode b = Inr f"
  by (auto simp: frame_encode_layout frame_decode_layout split: if_splits)

text \<open>
  A control exchange delivers the data. When a control request goes over the wire, the
  daemon answers it with a status and data, and the answer goes over the wire, the client
  reads back its own request identifier and setup packet with the daemon's status and data;
  neither side can fail to encode its frame as long as the data fits into a frame.
\<close>

theorem control_exchange_delivers:
  assumes "length data \<le> 4294967287"
  shows "\<exists>g. control_exchange request_id setup status data = Some g \<and>
     fr_frame_type g = Response \<and> fr_request_id g = request_id \<and> fr_status g = status \<and>
     fr_direction g = setup_transfer_direction setup \<and>
     control_transfer_decode (fr_payload g) = Inr \<lparr>ct_setup = setup, ct_data = data\<rparr>"
proof -
  let ?f = "control_request request_id setup"
  obtain request where 1: "frame_encode ?f = Some request"
    by (simp add: frame_encode_layout wf_frame_def control_request_def frame_new_def
        control_transfer_setup_only_def control_transfer_new_def control_transfer_encode_def)
  have g: "control_response ?f status data =
      frame_new request_id Response (setup_transfer_direction setup) Control 0 status
        (control_transfer_encode \<lparr>ct_setup = setup, ct_data = data\<rparr>)"
    by (simp add: control_response_def control_request_def frame_new_def
        control_transfer_setup_only_def control_transfer_new_def Let_def)
  obtain response where 2: "frame_encode (control_response ?f status data) = Some response"
    using assms
    by (simp add: g frame_encode_layout wf_frame_def frame_new_def control_transfer_encode_def)
  show ?thesis
    using 1 2 by (simp add: control_exchange_def g) (simp add: frame_new_def)
qed

theorem control_exchange_delivers_witness:
  "\<exists>g. control_exchange 9 (setup_get_descriptor Device 0 18) 0 [18, 1] = Some g \<and>
     fr_request_id g = 9 \<and>
     control_transfer_decode (fr_payload g) =
       Inr \<lparr>ct_setup = setup_get_descriptor Device 0 18, ct_data = [18, 1]\<rparr>"
  using control_exchange_delivers [of "[18, 1]" 9 "setup_get_descriptor Device 0 18" 0] by auto

text \<open>
  C32: the descriptors of an attached device reach the client: every well-formed
  descriptor set, however large, can be encoded into an attach answer that fits into one
  frame, and the client decodes from that frame the same set under the request's identifier.
\<close>

theorem attach_delivers_descriptors:
  assumes "wf_descriptor_set ds"
  shows "\<exists>r bs g. attach_response_with_descriptors f status ds = Inr r \<and> frame_encode r = Some bs \<and>
     frame_decode bs = Inr g \<and> fr_frame_type g = AttachResponse \<and>
     fr_request_id g = fr_request_id f \<and> fr_status g = status \<and>
     descriptor_set_decode (fr_payload g) = Inr ds"
proof -
  obtain b where b: "descriptor_set_encode ds = Inr b" "descriptor_set_decode b = Inr ds"
    using descriptor_sets.enc_dec [OF assms] by blast
  have "length b \<le> 4294967295"
    using descriptor_set_encode_fits [OF assms b(1)] by simp
  then show ?thesis
    using b
    by (simp add: attach_response_with_descriptors_def frame_encode_layout wf_frame_def
        frame_decode_layout frame_new_def)
qed

theorem attach_delivers_descriptors_witness:
  "\<exists>r bs g. attach_response_with_descriptors (attach_request 3) 0 (mock_hid_keyboard 1 2) = Inr r \<and>
     frame_encode r = Some bs \<and> frame_decode bs = Inr g \<and> fr_request_id g = 3 \<and>
     descriptor_set_decode (fr_payload g) = Inr (mock_hid_keyboard 1 2)"
  using attach_delivers_descriptors [of "mock_hid_keyboard 1 2" "attach_request 3" 0]
  by (auto simp: attach_request_def frame_new_def)

end
