(* ===== verification/Ordered_Map.thy ===== *)
theory Ordered_Map imports Prelude begin

text \<open>
  \<open>BTreeMap\<close> of the Rust standard library: finite maps whose iterator visits the keys in
  increasing order. The daemon relies on that order (\<open>cancel\<close> searches the endpoints in
  key order), so a map is the list of its entries, sorted by key. The interface
  \<open>ordered_map\<close> states what the clients rely on; the facts about weighted sums over a
  map, which carry the daemon's length counter, are proved from it.
\<close>

type_synonym ('k, 'v) bmap = "('k \<times> 'v) list"

definition bm_wf :: "('k::linorder, 'v) bmap \<Rightarrow> bool" where
  "bm_wf m \<longleftrightarrow> sorted_wrt (<) (map fst m)"

definition bm_get :: "('k, 'v) bmap \<Rightarrow> 'k \<Rightarrow> 'v option" where
  "bm_get m k = map_of m k"

fun bm_insert :: "'k::linorder \<Rightarrow> 'v \<Rightarrow> ('k, 'v) bmap \<Rightarrow> ('k, 'v) bmap" where
  "bm_insert k v [] = [(k, v)]"
| "bm_insert k v ((k', v') # m) =
     (if k < k' then (k, v) # (k', v') # m
      else if k = k' then (k, v) # m
      else (k', v') # bm_insert k v m)"

definition bm_remove :: "'k \<Rightarrow> ('k, 'v) bmap \<Rightarrow> ('k, 'v) bmap" where
  "bm_remove k m = filter (\<lambda>(k', _). k' \<noteq> k) m"

lemma bm_wf_Nil [simp]: "bm_wf []"
  by (simp add: bm_wf_def)

lemma bm_wf_Cons [simp]: "bm_wf ((k, v) # m) \<longleftrightarrow> bm_wf m \<and> (\<forall>k' \<in> fst ` set m. k < k')"
  by (auto simp: bm_wf_def)

lemma bm_get_Nil [simp]: "bm_get [] k = None"
  by (simp add: bm_get_def)

lemma bm_get_Cons [simp]:
  "bm_get ((k', v) # m) k = (if k = k' then Some v else bm_get m k)"
  by (simp add: bm_get_def)

lemma bm_get_insert [simp]: "bm_get (bm_insert k v m) k' = (if k' = k then Some v else bm_get m k')"
  by (induction k v m rule: bm_insert.induct) auto

lemma set_bm_insert_fst: "fst ` set (bm_insert k v m) = insert k (fst ` set m)"
  by (induction k v m rule: bm_insert.induct) auto

lemma bm_wf_insert [simp]: "bm_wf m \<Longrightarrow> bm_wf (bm_insert k v m)"
proof (induction k v m rule: bm_insert.induct)
  case (2 k v k' v' m)
  then show ?case
    by (auto simp: set_bm_insert_fst simp del: fst_conv) (force dest: less_trans)+
qed simp

lemma bm_get_remove [simp]: "bm_get (bm_remove k m) k' = (if k' = k then None else bm_get m k')"
  by (induction m) (auto simp: bm_remove_def)

lemma bm_wf_remove [simp]: "bm_wf m \<Longrightarrow> bm_wf (bm_remove k m)"
  by (induction m) (auto simp: bm_remove_def)

lemma bm_remove_insert [simp]: "bm_remove k (bm_insert k v m) = bm_remove k m"
  by (induction k v m rule: bm_insert.induct) (auto simp: bm_remove_def)

lemma bm_wf_distinct_keys: "bm_wf m \<Longrightarrow> distinct (map fst m)"
  by (simp add: bm_wf_def strict_sorted_iff)

lemma bm_wf_distinct: "bm_wf m \<Longrightarrow> distinct m"
  using bm_wf_distinct_keys by (auto simp: distinct_map)

lemma bm_get_iff: "bm_wf m \<Longrightarrow> bm_get m k = Some v \<longleftrightarrow> (k, v) \<in> set m"
  by (simp add: bm_get_def bm_wf_distinct_keys)

lemma bm_get_None_iff: "bm_get m k = None \<longleftrightarrow> k \<notin> fst ` set m"
  by (auto simp: bm_get_def map_of_eq_None_iff)

section \<open>The interface\<close>

locale ordered_map =
  fixes valid :: "'m \<Rightarrow> bool" and get :: "'m \<Rightarrow> 'k \<Rightarrow> 'v option"
    and put :: "'k \<Rightarrow> 'v \<Rightarrow> 'm \<Rightarrow> 'm" and del :: "'k \<Rightarrow> 'm \<Rightarrow> 'm"
    and entries :: "'m \<Rightarrow> ('k \<times> 'v) list"
  assumes get_put: "valid m \<Longrightarrow> get (put k v m) k' = (if k' = k then Some v else get m k')"
    and get_del: "valid m \<Longrightarrow> get (del k m) k' = (if k' = k then None else get m k')"
    and valid_put: "valid m \<Longrightarrow> valid (put k v m)"
    and valid_del: "valid m \<Longrightarrow> valid (del k m)"
    and entries_distinct: "valid m \<Longrightarrow> distinct (entries m)"
    and entries_get: "valid m \<Longrightarrow> (k, v) \<in> set (entries m) \<longleftrightarrow> get m k = Some v"
begin

definition weight :: "('v \<Rightarrow> nat) \<Rightarrow> 'm \<Rightarrow> nat" where
  "weight f m = (\<Sum>(k, v) \<in> set (entries m). f v)"

lemma set_entries_put:
  assumes "valid m"
  shows "set (entries (put k v m)) = insert (k, v) {(k', v') \<in> set (entries m). k' \<noteq> k}"
  using assms by (auto simp: entries_get valid_put get_put split: if_splits)

lemma set_entries_del:
  assumes "valid m"
  shows "set (entries (del k m)) = {(k', v') \<in> set (entries m). k' \<noteq> k}"
  using assms by (auto simp: entries_get valid_del get_del split: if_splits)

lemma weight_del:
  assumes "valid m"
  shows "weight f m = (case get m k of None \<Rightarrow> 0 | Some v \<Rightarrow> f v) + weight f (del k m)"
proof (cases "get m k")
  case None
  then have "\<forall>v. (k, v) \<notin> set (entries m)"
    using assms by (simp add: entries_get)
  then have "set (entries (del k m)) = set (entries m)"
    by (auto simp: set_entries_del [OF assms])
  then show ?thesis using None by (simp add: weight_def)
next
  case (Some v)
  have "set (entries m) = insert (k, v) (set (entries (del k m)))"
    using assms Some by (auto simp: set_entries_del [OF assms]) (simp_all add: entries_get)
  moreover have "(k, v) \<notin> set (entries (del k m))"
    by (simp add: set_entries_del [OF assms])
  ultimately show ?thesis using Some by (simp add: weight_def)
qed

lemma weight_put:
  assumes "valid m"
  shows "weight f (put k v m) = f v + weight f (del k m)"
proof -
  have "set (entries (put k v m)) = insert (k, v) (set (entries (del k m)))"
    by (simp add: set_entries_put [OF assms] set_entries_del [OF assms])
  moreover have "(k, v) \<notin> set (entries (del k m))"
    by (simp add: set_entries_del [OF assms])
  ultimately show ?thesis
    by (simp add: weight_def)
qed

lemma weight_pos: "valid m \<Longrightarrow> get m k = Some v \<Longrightarrow> f v \<le> weight f m"
  by (simp add: weight_del [of m f k])

lemma weight_zero_iff: "valid m \<Longrightarrow> weight f m = 0 \<longleftrightarrow> (\<forall>k v. get m k = Some v \<longrightarrow> f v = 0)"
  by (fastforce simp: weight_def entries_get [symmetric])

end

interpretation btree: ordered_map bm_wf bm_get bm_insert bm_remove "\<lambda>m. m"
  by unfold_locales (auto simp: bm_get_iff bm_wf_distinct)

lemma weight_entries: "bm_wf m \<Longrightarrow> btree.weight f m = sum_list (map (f \<circ> snd) m)"
  by (simp add: btree.weight_def sum_list_distinct_conv_sum_set bm_wf_distinct case_prod_unfold)

end
