(* ===== verification/Endpoint_Queue.thy ===== *)
theory Endpoint_Queue imports Frames Ordered_Map begin

text \<open>
  The daemon's transfer scheduler, \<open>daemon/src/endpoint_queue.rs\<close>: one queue per endpoint
  in a map ordered by endpoint, and a rotation of the endpoints that have transfers. The
  abstract specification is the rotation itself, a list of endpoints with their pending
  transfers; every operation refines its abstract one under the representation invariant.
\<close>

section \<open>State\<close>

datatype endpoint_key =
  EndpointKey (ek_direction: direction) (ek_transfer_type: transfer_type) (ek_endpoint: u8)

text \<open>\<open>derive(Ord)\<close> compares the fields in the order of their declaration.\<close>

instantiation endpoint_key :: linorder begin

definition less_endpoint_key :: "endpoint_key \<Rightarrow> endpoint_key \<Rightarrow> bool" where
  "less_endpoint_key x y \<longleftrightarrow>
     ek_direction x < ek_direction y \<or>
     ek_direction x = ek_direction y \<and>
       (ek_transfer_type x < ek_transfer_type y \<or>
        ek_transfer_type x = ek_transfer_type y \<and> ek_endpoint x < ek_endpoint y)"

definition less_eq_endpoint_key :: "endpoint_key \<Rightarrow> endpoint_key \<Rightarrow> bool" where
  "less_eq_endpoint_key x y \<longleftrightarrow> x = y \<or> x < y"

instance
proof
  fix x y z :: endpoint_key
  have asym: "\<not> (x < y \<and> y < x)" for x y :: endpoint_key
    by (auto simp: less_endpoint_key_def)
  have trans: "x < y \<Longrightarrow> y < z \<Longrightarrow> x < z" for x y z :: endpoint_key
    unfolding less_endpoint_key_def by (elim disjE conjE) (simp_all, (blast dest: less_trans)+)
  show "x < y \<longleftrightarrow> x \<le> y \<and> \<not> y \<le> x"
    using asym [of x y] by (auto simp: less_eq_endpoint_key_def)
  show "x \<le> x" by (simp add: less_eq_endpoint_key_def)
  show "x \<le> y \<Longrightarrow> y \<le> z \<Longrightarrow> x \<le> z"
    using trans [of x y z] by (auto simp: less_eq_endpoint_key_def)
  show "x \<le> y \<Longrightarrow> y \<le> x \<Longrightarrow> x = y"
    using asym [of x y] by (auto simp: less_eq_endpoint_key_def)
  show "x \<le> y \<or> y \<le> x"
    by (cases x; cases y) (auto simp: less_eq_endpoint_key_def less_endpoint_key_def neq_iff)
qed

end

definition key_from_frame :: "frame \<Rightarrow> endpoint_key" where
  "key_from_frame f = EndpointKey (fr_direction f) (fr_transfer_type f) (fr_endpoint f)"

record queued_transfer =
  qt_sequence :: u64
  qt_key :: endpoint_key
  qt_frame :: frame

type_synonym queue_map = "(endpoint_key, queued_transfer list) bmap"

record endpoint_queues =
  eq_next_sequence :: u64
  eq_queues :: queue_map
  eq_active_order :: "endpoint_key list"
  eq_active_keys :: "endpoint_key set"
  eq_len :: nat

datatype endpoint_queue_error = UnsupportedFrameType frame_type

definition queues_default :: endpoint_queues where
  "queues_default =
     \<lparr>eq_next_sequence = 0, eq_queues = [], eq_active_order = [], eq_active_keys = {}, eq_len = 0\<rparr>"

section \<open>Operations\<close>

definition enqueue :: "frame \<Rightarrow> endpoint_queues \<Rightarrow> (endpoint_queue_error + u64) \<times> endpoint_queues" where
  "enqueue f qs =
     (if fr_frame_type f \<noteq> Request then (Inl (UnsupportedFrameType (fr_frame_type f)), qs)
      else let key = key_from_frame f;
               sequence = eq_next_sequence qs;
               queue = (case bm_get (eq_queues qs) key of None \<Rightarrow> [] | Some q \<Rightarrow> q);
               was_empty = (queue = []);
               transfer = \<lparr>qt_sequence = sequence, qt_key = key, qt_frame = f\<rparr>;
               qs' = qs\<lparr>eq_next_sequence := sequence + 1,
                        eq_queues := bm_insert key (queue @ [transfer]) (eq_queues qs),
                        eq_len := eq_len qs + 1\<rparr>
           in (Inr sequence,
               if was_empty \<and> key \<notin> eq_active_keys qs'
               then qs'\<lparr>eq_active_keys := insert key (eq_active_keys qs'),
                        eq_active_order := eq_active_order qs' @ [key]\<rparr>
               else qs'))"

text \<open>
  \<open>pop_next\<close> is a \<open>while let\<close> loop that drops the stale keys at the front of the
  rotation; each turn shortens it.
\<close>

function pop_next :: "endpoint_queues \<Rightarrow> queued_transfer option \<times> endpoint_queues" where
  "pop_next qs =
     (case eq_active_order qs of
        [] \<Rightarrow> (None, qs)
      | key # order \<Rightarrow>
          let qs1 = qs\<lparr>eq_active_order := order\<rparr>
          in case bm_get (eq_queues qs1) key of
               None \<Rightarrow> pop_next (qs1\<lparr>eq_active_keys := eq_active_keys qs1 - {key}\<rparr>)
             | Some [] \<Rightarrow> pop_next (qs1\<lparr>eq_active_keys := eq_active_keys qs1 - {key}\<rparr>)
             | Some (transfer # queue) \<Rightarrow>
                 let qs2 = qs1\<lparr>eq_queues := bm_insert key queue (eq_queues qs1),
                               eq_len := eq_len qs1 - 1\<rparr>
                 in (Some transfer,
                     if queue = []
                     then qs2\<lparr>eq_active_keys := eq_active_keys qs2 - {key},
                              eq_queues := bm_remove key (eq_queues qs2)\<rparr>
                     else qs2\<lparr>eq_active_order := eq_active_order qs2 @ [key]\<rparr>))"
  by pat_completeness auto
termination
  by (relation "measure (\<lambda>qs. length (eq_active_order qs))") auto

declare pop_next.simps [simp del]

definition remove_active_key :: "endpoint_key \<Rightarrow> endpoint_queues \<Rightarrow> endpoint_queues" where
  "remove_active_key key qs =
     qs\<lparr>eq_queues := bm_remove key (eq_queues qs),
        eq_active_keys := eq_active_keys qs - {key},
        eq_active_order := filter (\<lambda>candidate. candidate \<noteq> key) (eq_active_order qs)\<rparr>"

text \<open>
  \<open>VecDeque::iter().position(p)\<close> and \<open>VecDeque::remove(i)\<close>.
\<close>

fun position :: "('a \<Rightarrow> bool) \<Rightarrow> 'a list \<Rightarrow> nat option" where
  "position p [] = None"
| "position p (x # xs) = (if p x then Some 0 else map_option Suc (position p xs))"

definition remove_nth :: "nat \<Rightarrow> 'a list \<Rightarrow> 'a list" where
  "remove_nth n xs = take n xs @ drop (Suc n) xs"

text \<open>
  The \<open>for\<close> loop of \<open>cancel\<close> over the entries in key order, which leaves at the first
  queue that holds the request: the transfer, its key when its queue became empty, and the
  map with the queue shortened.
\<close>

fun cancel_search ::
  "u64 \<Rightarrow> queue_map \<Rightarrow> (queued_transfer \<times> endpoint_key option) option \<times> queue_map" where
  "cancel_search request_id [] = (None, [])"
| "cancel_search request_id ((key, queue) # m) =
     (case position (\<lambda>transfer. fr_request_id (qt_frame transfer) = request_id) queue of
        None \<Rightarrow> (let (removed, m') = cancel_search request_id m in (removed, (key, queue) # m'))
      | Some index \<Rightarrow>
          let queue' = remove_nth index queue
          in (Some (queue ! index, if queue' = [] then Some key else None), (key, queue') # m))"

definition cancel :: "u64 \<Rightarrow> endpoint_queues \<Rightarrow> queued_transfer option \<times> endpoint_queues" where
  "cancel request_id qs =
     (let (removed, queues) = cancel_search request_id (eq_queues qs);
          qs1 = qs\<lparr>eq_queues := queues\<rparr>
      in case removed of
           None \<Rightarrow> (None, qs1)
         | Some (transfer, empty_key) \<Rightarrow>
             let qs2 = qs1\<lparr>eq_len := eq_len qs1 - 1\<rparr>
             in (Some transfer,
                 case empty_key of None \<Rightarrow> qs2 | Some key \<Rightarrow> remove_active_key key qs2))"

definition reset_endpoint ::
  "endpoint_key \<Rightarrow> endpoint_queues \<Rightarrow> queued_transfer list \<times> endpoint_queues" where
  "reset_endpoint key qs =
     (case bm_get (eq_queues qs) key of
        None \<Rightarrow> ([], qs)
      | Some queue \<Rightarrow>
          (queue,
           qs\<lparr>eq_queues := bm_remove key (eq_queues qs),
              eq_len := eq_len qs - length queue,
              eq_active_keys := eq_active_keys qs - {key},
              eq_active_order := filter (\<lambda>candidate. candidate \<noteq> key) (eq_active_order qs)\<rparr>))"

definition clear_queues :: "endpoint_queues \<Rightarrow> nat \<times> endpoint_queues" where
  "clear_queues qs =
     (eq_len qs, qs\<lparr>eq_next_sequence := 0, eq_queues := [], eq_active_order := [],
                   eq_active_keys := {}, eq_len := 0\<rparr>)"

section \<open>Representation invariant\<close>

definition pending :: "endpoint_queues \<Rightarrow> endpoint_key \<Rightarrow> queued_transfer list" where
  "pending qs key = (case bm_get (eq_queues qs) key of None \<Rightarrow> [] | Some q \<Rightarrow> q)"

definition queue_ok :: "endpoint_key \<Rightarrow> queued_transfer list \<Rightarrow> bool" where
  "queue_ok key q \<longleftrightarrow> q \<noteq> [] \<and>
     (\<forall>t \<in> set q. qt_key t = key \<and> key_from_frame (qt_frame t) = key \<and>
        fr_frame_type (qt_frame t) = Request)"

definition queues_inv :: "endpoint_queues \<Rightarrow> bool" where
  "queues_inv qs \<longleftrightarrow>
     bm_wf (eq_queues qs) \<and>
     (\<forall>key q. bm_get (eq_queues qs) key = Some q \<longrightarrow> queue_ok key q) \<and>
     distinct (eq_active_order qs) \<and>
     set (eq_active_order qs) = eq_active_keys qs \<and>
     (\<forall>key. key \<in> eq_active_keys qs \<longleftrightarrow> bm_get (eq_queues qs) key \<noteq> None) \<and>
     eq_len qs = btree.weight length (eq_queues qs)"

lemma queues_invD:
  assumes "queues_inv qs"
  shows "bm_wf (eq_queues qs)" "distinct (eq_active_order qs)"
    "set (eq_active_order qs) = eq_active_keys qs"
    "key \<in> eq_active_keys qs \<longleftrightarrow> bm_get (eq_queues qs) key \<noteq> None"
    "eq_len qs = btree.weight length (eq_queues qs)"
  using assms by (simp_all add: queues_inv_def)

lemma pending_ok: "queues_inv qs \<Longrightarrow> t \<in> set (pending qs key) \<Longrightarrow>
    qt_key t = key \<and> key_from_frame (qt_frame t) = key \<and> fr_frame_type (qt_frame t) = Request"
  by (cases "bm_get (eq_queues qs) key") (auto simp: queues_inv_def queue_ok_def pending_def)

lemma pending_mem: "t \<in> set (pending qs key) \<Longrightarrow> \<exists>q. bm_get (eq_queues qs) key = Some q \<and> t \<in> set q"
  by (cases "bm_get (eq_queues qs) key") (simp_all add: pending_def)

lemma pending_Nil_iff: "queues_inv qs \<Longrightarrow> pending qs key = [] \<longleftrightarrow> key \<notin> eq_active_keys qs"
  by (cases "bm_get (eq_queues qs) key") (auto simp: queues_inv_def queue_ok_def pending_def)

lemma bm_get_pending:
  "queues_inv qs \<Longrightarrow>
   bm_get (eq_queues qs) key = (if pending qs key = [] then None else Some (pending qs key))"
  by (cases "bm_get (eq_queues qs) key") (auto simp: queues_inv_def queue_ok_def pending_def)

text \<open>
  Every operation changes the queue of one endpoint. \<open>set_pending\<close> is that change of the
  map; the invariant follows from what the operation does to the rotation and the counter.
\<close>

definition set_pending :: "endpoint_key \<Rightarrow> queued_transfer list \<Rightarrow> queue_map \<Rightarrow> queue_map" where
  "set_pending key q m = (if q = [] then bm_remove key m else bm_insert key q m)"

lemma bm_get_set_pending [simp]:
  "bm_get (set_pending key q m) key' =
     (if key' = key then (if q = [] then None else Some q) else bm_get m key')"
  by (simp add: set_pending_def)

lemma bm_wf_set_pending [simp]: "bm_wf m \<Longrightarrow> bm_wf (set_pending key q m)"
  by (simp add: set_pending_def)

lemma weight_set_pending:
  "bm_wf m \<Longrightarrow> btree.weight length (set_pending key q m) + (case bm_get m key of None \<Rightarrow> 0 | Some p \<Rightarrow> length p) =
     btree.weight length m + length q"
  using btree.weight_del [of m length key] btree.weight_put [of m length key q]
  by (simp add: set_pending_def)

lemma queues_inv_update:
  assumes inv: "queues_inv qs"
    and ok: "q = [] \<or> queue_ok key q"
    and q': "eq_queues qs' = set_pending key q (eq_queues qs)"
    and order: "distinct (eq_active_order qs')" "set (eq_active_order qs') = eq_active_keys qs'"
    and keys: "eq_active_keys qs' =
      (if q = [] then eq_active_keys qs - {key} else insert key (eq_active_keys qs))"
    and len: "eq_len qs' + length (pending qs key) = eq_len qs + length q"
  shows "queues_inv qs'"
proof -
  have "eq_len qs' = btree.weight length (eq_queues qs')"
    using weight_set_pending [of "eq_queues qs" key q] len queues_invD [OF inv]
    by (simp add: q' pending_def split: option.splits)
  then show ?thesis
    using inv ok order by (auto simp: queues_inv_def q' keys)
qed

lemma pending_update:
  "eq_queues qs' = set_pending key q (eq_queues qs) \<Longrightarrow>
   pending qs' key' = (if key' = key then q else pending qs key')"
  by (simp add: pending_def)

lemma pending_len: "queues_inv qs \<Longrightarrow> length (pending qs key) \<le> eq_len qs"
  using btree.weight_pos [of "eq_queues qs" key _ length]
  by (cases "bm_get (eq_queues qs) key") (auto simp: pending_def queues_invD(1,5))

lemma queues_inv_default [simp]: "queues_inv queues_default"
  by (simp add: queues_inv_def queues_default_def btree.weight_def)

lemma pending_default [simp]: "pending queues_default key = []"
  by (simp add: pending_def queues_default_def)

section \<open>What each operation does\<close>

lemma enqueue_request:
  assumes inv: "queues_inv qs" and req: "fr_frame_type f = Request"
  obtains qs' where "enqueue f qs = (Inr (eq_next_sequence qs), qs')" and "queues_inv qs'"
    and "\<And>key. pending qs' key =
      (if key = key_from_frame f
       then pending qs key @ [\<lparr>qt_sequence = eq_next_sequence qs, qt_key = key, qt_frame = f\<rparr>]
       else pending qs key)"
    and "eq_active_order qs' = (if pending qs (key_from_frame f) = []
       then eq_active_order qs @ [key_from_frame f] else eq_active_order qs)"
    and "eq_len qs' = Suc (eq_len qs)"
    and "eq_next_sequence qs' = eq_next_sequence qs + 1"
proof -
  let ?key = "key_from_frame f"
  let ?t = "\<lparr>qt_sequence = eq_next_sequence qs, qt_key = ?key, qt_frame = f\<rparr>"
  define qs' where "qs' = snd (enqueue f qs)"
  have e: "enqueue f qs = (Inr (eq_next_sequence qs), qs')"
    by (simp add: qs'_def enqueue_def req Let_def)
  have q': "eq_queues qs' = set_pending ?key (pending qs ?key @ [?t]) (eq_queues qs)"
    by (simp add: qs'_def enqueue_def req Let_def set_pending_def pending_def)
  have order: "eq_active_order qs' = (if pending qs ?key = []
       then eq_active_order qs @ [?key] else eq_active_order qs)"
    and keys: "eq_active_keys qs' = insert ?key (eq_active_keys qs)"
    using pending_Nil_iff [OF inv, of ?key] queues_invD(4) [OF inv, of ?key]
    by (auto simp: qs'_def enqueue_def req Let_def pending_def [symmetric])
  have len: "eq_len qs' = Suc (eq_len qs)" "eq_next_sequence qs' = eq_next_sequence qs + 1"
    by (simp_all add: qs'_def enqueue_def req Let_def)
  have "queues_inv qs'"
  proof (rule queues_inv_update [OF inv _ q'])
    show "pending qs ?key @ [?t] = [] \<or> queue_ok ?key (pending qs ?key @ [?t])"
      using pending_ok [OF inv] req by (auto simp: queue_ok_def)
    show "distinct (eq_active_order qs')" "set (eq_active_order qs') = eq_active_keys qs'"
      using queues_invD [OF inv] pending_Nil_iff [OF inv, of ?key] by (auto simp: order keys)
  qed (simp_all add: keys len)
  then show thesis
    using that [OF e _ _ order len] pending_update [OF q'] by simp
qed

lemma enqueue_refused:
  "fr_frame_type f \<noteq> Request \<Longrightarrow> enqueue f qs = (Inl (UnsupportedFrameType (fr_frame_type f)), qs)"
  by (simp add: enqueue_def)

lemma pop_next_None:
  assumes inv: "queues_inv qs" and "eq_active_order qs = []"
  shows "pop_next qs = (None, qs)" and "pending qs key = []"
proof -
  show "pop_next qs = (None, qs)"
    using assms by (simp add: pop_next.simps)
  have "eq_active_keys qs = {}"
    using queues_invD(3) [OF inv] assms(2) by simp
  then show "pending qs key = []"
    using pending_Nil_iff [OF inv] by simp
qed

lemma pop_next_Some:
  assumes inv: "queues_inv qs" and ord: "eq_active_order qs = key # order"
  obtains t qs' where "pending qs key = t # pending qs' key" and "pop_next qs = (Some t, qs')"
    and "queues_inv qs'" and "\<And>key'. key' \<noteq> key \<Longrightarrow> pending qs' key' = pending qs key'"
    and "eq_active_order qs' = (if pending qs' key = [] then order else order @ [key])"
    and "eq_len qs = Suc (eq_len qs')" and "eq_next_sequence qs' = eq_next_sequence qs"
proof -
  have "key \<in> eq_active_keys qs"
    using queues_invD(3) [OF inv] ord by auto
  then obtain t q where p: "pending qs key = t # q"
    using pending_Nil_iff [OF inv, of key] by (cases "pending qs key") auto
  then have g: "bm_get (eq_queues qs) key = Some (t # q)"
    by (simp add: bm_get_pending [OF inv])
  define qs' where "qs' = snd (pop_next qs)"
  have e: "pop_next qs = (Some t, qs')"
    by (simp add: qs'_def pop_next.simps [of qs] ord g Let_def)
  have q': "eq_queues qs' = set_pending key q (eq_queues qs)"
    by (simp add: qs'_def pop_next.simps [of qs] ord g Let_def set_pending_def)
  have order: "eq_active_order qs' = (if q = [] then order else order @ [key])"
    and keys: "eq_active_keys qs' = (if q = [] then eq_active_keys qs - {key} else eq_active_keys qs)"
    and len: "eq_len qs' = eq_len qs - 1" "eq_next_sequence qs' = eq_next_sequence qs"
    by (simp_all add: qs'_def pop_next.simps [of qs] ord g Let_def)
  have pos: "eq_len qs = Suc (eq_len qs')"
    using pending_len [OF inv, of key] by (simp add: p len)
  have "queues_inv qs'"
  proof (rule queues_inv_update [OF inv _ q'])
    show "q = [] \<or> queue_ok key q"
      using pending_ok [OF inv, of _ key] by (auto simp: queue_ok_def p)
    show "distinct (eq_active_order qs')" "set (eq_active_order qs') = eq_active_keys qs'"
      using queues_invD(2,3) [OF inv] ord by (auto simp: order keys)
  qed (use \<open>key \<in> eq_active_keys qs\<close> pos in \<open>auto simp: keys p\<close>)
  moreover have "pending qs' key' = (if key' = key then q else pending qs key')" for key'
    by (rule pending_update [OF q'])
  ultimately show thesis
    by (intro that [of t qs']) (simp_all only: p e order pos len(2) refl if_True if_False)
qed

lemma position_None_iff: "position p xs = None \<longleftrightarrow> (\<forall>x \<in> set xs. \<not> p x)"
  by (induction xs) auto

lemma position_SomeE:
  assumes "position p xs = Some n"
  obtains a x b where "xs = a @ x # b" "n = length a" "p x" "\<forall>y \<in> set a. \<not> p y"
proof -
  have "\<exists>a x b. xs = a @ x # b \<and> n = length a \<and> p x \<and> (\<forall>y \<in> set a. \<not> p y)"
    using assms
  proof (induction xs arbitrary: n)
    case (Cons z xs)
    show ?case
    proof (cases "p z")
      case True
      with Cons.prems show ?thesis by (intro exI [of _ "[]"]) auto
    next
      case False
      then obtain m where "position p xs = Some m" and n: "n = Suc m"
        using Cons.prems by auto
      then obtain a x b where "xs = a @ x # b" "m = length a" "p x" "\<forall>y \<in> set a. \<not> p y"
        using Cons.IH by blast
      with False n show ?thesis by (intro exI [of _ "z # a"]) auto
    qed
  qed simp
  then show thesis using that by blast
qed

abbreviation has_request :: "u64 \<Rightarrow> queued_transfer \<Rightarrow> bool" where
  "has_request request_id t \<equiv> fr_request_id (qt_frame t) = request_id"

lemma cancel_search_None:
  "fst (cancel_search request_id m) = None \<longleftrightarrow>
     (\<forall>(key, q) \<in> set m. \<forall>t \<in> set q. \<not> has_request request_id t)"
  "fst (cancel_search request_id m) = None \<Longrightarrow> snd (cancel_search request_id m) = m"
  by (induction m) (auto simp: position_None_iff [symmetric] Let_def split: option.splits prod.splits)

lemma bm_insert_at:
  "bm_wf (A @ (key, q) # B) \<Longrightarrow> bm_insert key q' (A @ (key, q) # B) = A @ (key, q') # B"
  by (induction A) (auto dest: less_asym)

lemma cancel_search_Some:
  assumes "cancel_search request_id m = (Some (t, empty_key), m')" and "bm_wf m"
  obtains key xs ys where "bm_get m key = Some (xs @ t # ys)" and "has_request request_id t"
    and "\<forall>u \<in> set xs. \<not> has_request request_id u"
    and "\<forall>key' q. bm_get m key' = Some q \<longrightarrow> key' < key \<longrightarrow> (\<forall>u \<in> set q. \<not> has_request request_id u)"
    and "empty_key = (if xs @ ys = [] then Some key else None)"
    and "m' = bm_insert key (xs @ ys) m"
proof -
  have "\<exists>A key xs ys B. m = A @ (key, xs @ t # ys) # B \<and> has_request request_id t \<and>
      (\<forall>u \<in> set xs. \<not> has_request request_id u) \<and>
      (\<forall>(key', q) \<in> set A. \<forall>u \<in> set q. \<not> has_request request_id u) \<and>
      empty_key = (if xs @ ys = [] then Some key else None) \<and> m' = A @ (key, xs @ ys) # B"
    using assms(1)
  proof (induction m arbitrary: m')
    case (Cons e m)
    obtain key q where e: "e = (key, q)" by fastforce
    show ?case
    proof (cases "position (has_request request_id) q")
      case None
      then obtain m1 where "cancel_search request_id m = (Some (t, empty_key), m1)"
        and m': "m' = (key, q) # m1"
        using Cons.prems by (auto simp: e split: prod.splits)
      from Cons.IH [OF this(1)] obtain A key' xs ys B where
        "m = A @ (key', xs @ t # ys) # B" "has_request request_id t"
        "\<forall>u \<in> set xs. \<not> has_request request_id u"
        "\<forall>(key', q) \<in> set A. \<forall>u \<in> set q. \<not> has_request request_id u"
        "empty_key = (if xs @ ys = [] then Some key' else None)" "m1 = A @ (key', xs @ ys) # B"
        by blast
      with None m' show ?thesis
        by (intro exI [of _ "(key, q) # A"] exI [of _ key'] exI [of _ xs] exI [of _ ys] exI [of _ B])
          (simp add: e position_None_iff)
    next
      case (Some n)
      then obtain xs u ys where q: "q = xs @ u # ys" and n: "n = length xs"
        and "has_request request_id u" "\<forall>u \<in> set xs. \<not> has_request request_id u"
        by (rule position_SomeE)
      moreover have "t = u" "empty_key = (if xs @ ys = [] then Some key else None)"
        "m' = (key, xs @ ys) # m"
        using Cons.prems Some by (auto simp: e q n remove_nth_def Let_def)
      ultimately show ?thesis
        by (intro exI [of _ "[]"] exI [of _ key] exI [of _ xs] exI [of _ ys] exI [of _ m])
          (simp add: e)
    qed
  qed simp
  then obtain A key xs ys B where m: "m = A @ (key, xs @ t # ys) # B"
    and t: "has_request request_id t" "\<forall>u \<in> set xs. \<not> has_request request_id u"
    and A: "\<forall>(key', q) \<in> set A. \<forall>u \<in> set q. \<not> has_request request_id u"
    and res: "empty_key = (if xs @ ys = [] then Some key else None)" "m' = A @ (key, xs @ ys) # B"
    by blast
  have "(key', q) \<in> set A" if "bm_get m key' = Some q" "key' < key" for key' q
    using that assms(2) by (auto simp: bm_get_iff m bm_wf_def sorted_wrt_append dest: less_asym)
  then have "\<forall>key' q. bm_get m key' = Some q \<longrightarrow> key' < key \<longrightarrow>
      (\<forall>u \<in> set q. \<not> has_request request_id u)"
    using A by fastforce
  moreover have "bm_get m key = Some (xs @ t # ys)"
    using assms(2) by (simp add: bm_get_iff m)
  moreover have "m' = bm_insert key (xs @ ys) m"
    using assms(2) by (simp add: bm_insert_at m res)
  ultimately show thesis
    using that t res(1) by blast
qed

lemma pending_all:
  assumes "bm_wf (eq_queues qs)" and "P []"
  shows "(\<forall>(key, q) \<in> set (eq_queues qs). P q) \<longleftrightarrow> (\<forall>key. P (pending qs key))"
proof -
  have "P (pending qs key) \<longleftrightarrow> (\<forall>q. bm_get (eq_queues qs) key = Some q \<longrightarrow> P q)" for key
    using assms(2) by (cases "bm_get (eq_queues qs) key") (simp_all add: pending_def)
  moreover have "(\<forall>(key, q) \<in> set (eq_queues qs). P q) \<longleftrightarrow>
      (\<forall>key q. bm_get (eq_queues qs) key = Some q \<longrightarrow> P q)"
    unfolding bm_get_iff [OF assms(1)] by blast
  ultimately show ?thesis by simp
qed

lemma filter_neq: "filter (\<lambda>y. y \<noteq> x) xs = removeAll x xs"
  by (induction xs) auto

lemma cancel_None:
  assumes inv: "queues_inv qs"
  shows "fst (cancel request_id qs) = None \<longleftrightarrow>
      (\<forall>key. \<forall>t \<in> set (pending qs key). \<not> has_request request_id t)"
    and "fst (cancel request_id qs) = None \<Longrightarrow> snd (cancel request_id qs) = qs"
proof -
  have c: "fst (cancel request_id qs) = None \<longleftrightarrow>
      fst (cancel_search request_id (eq_queues qs)) = None"
    by (auto simp: cancel_def Let_def split: prod.splits option.splits)
  have "(\<forall>(key, q) \<in> set (eq_queues qs). \<forall>t \<in> set q. \<not> has_request request_id t) \<longleftrightarrow>
      (\<forall>key. \<forall>t \<in> set (pending qs key). \<not> has_request request_id t)"
    using pending_all [OF queues_invD(1) [OF inv], of "\<lambda>q. \<forall>t \<in> set q. \<not> has_request request_id t"]
    by simp
  then show "fst (cancel request_id qs) = None \<longleftrightarrow>
      (\<forall>key. \<forall>t \<in> set (pending qs key). \<not> has_request request_id t)"
    by (simp add: c cancel_search_None)
  show "snd (cancel request_id qs) = qs" if "fst (cancel request_id qs) = None"
    using that cancel_search_None(2) [of request_id "eq_queues qs"] unfolding c
    by (auto simp: cancel_def Let_def split: prod.splits option.splits)
qed

lemma cancel_Some:
  assumes inv: "queues_inv qs" and c: "cancel request_id qs = (Some t, qs')"
  obtains key xs ys where "pending qs key = xs @ t # ys" and "has_request request_id t"
    and "\<forall>u \<in> set xs. \<not> has_request request_id u"
    and "\<forall>key' < key. \<forall>u \<in> set (pending qs key'). \<not> has_request request_id u"
    and "queues_inv qs'"
    and "\<And>key'. pending qs' key' = (if key' = key then xs @ ys else pending qs key')"
    and "eq_active_order qs' = (if xs @ ys = [] then removeAll key (eq_active_order qs)
          else eq_active_order qs)"
    and "eq_len qs = Suc (eq_len qs')" and "eq_next_sequence qs' = eq_next_sequence qs"
proof -
  obtain empty_key m' where s: "cancel_search request_id (eq_queues qs) = (Some (t, empty_key), m')"
    using c by (auto simp: cancel_def Let_def split: prod.splits option.splits)
  obtain key xs ys where g: "bm_get (eq_queues qs) key = Some (xs @ t # ys)"
    and t: "has_request request_id t" "\<forall>u \<in> set xs. \<not> has_request request_id u"
    and first: "\<forall>key' q. bm_get (eq_queues qs) key' = Some q \<longrightarrow> key' < key \<longrightarrow>
      (\<forall>u \<in> set q. \<not> has_request request_id u)"
    and res: "empty_key = (if xs @ ys = [] then Some key else None)"
      "m' = bm_insert key (xs @ ys) (eq_queues qs)"
    using cancel_search_Some [OF s queues_invD(1) [OF inv]] by metis
  have p: "pending qs key = xs @ t # ys" and k: "key \<in> eq_active_keys qs"
    using g queues_invD(4) [OF inv, of key] by (simp_all add: pending_def)
  have q': "eq_queues qs' = set_pending key (xs @ ys) (eq_queues qs)"
    and order: "eq_active_order qs' = (if xs @ ys = [] then removeAll key (eq_active_order qs)
          else eq_active_order qs)"
    and keys: "eq_active_keys qs' =
      (if xs @ ys = [] then eq_active_keys qs - {key} else eq_active_keys qs)"
    and len: "eq_len qs' = eq_len qs - 1" and sequence: "eq_next_sequence qs' = eq_next_sequence qs"
    using c by (auto simp: cancel_def s res remove_active_key_def set_pending_def filter_neq
        Let_def split: if_splits)
  have pos: "eq_len qs = Suc (eq_len qs')"
    using pending_len [OF inv, of key] by (simp add: p len)
  have "queues_inv qs'"
  proof (rule queues_inv_update [OF inv _ q'])
    show "xs @ ys = [] \<or> queue_ok key (xs @ ys)"
      using pending_ok [OF inv, of _ key] by (auto simp: queue_ok_def p)
    show "distinct (eq_active_order qs')" "set (eq_active_order qs') = eq_active_keys qs'"
      using queues_invD(2,3) [OF inv] by (auto simp: order keys distinct_removeAll)
  qed (use k pos in \<open>auto simp: keys p\<close>)
  moreover have "\<forall>key' < key. \<forall>u \<in> set (pending qs key'). \<not> has_request request_id u"
    using first by (blast dest: pending_mem)
  ultimately show thesis
    using p t order pos sequence pending_update [OF q'] by (intro that [of key xs ys]) simp_all
qed

lemma reset_endpoint_effect:
  assumes inv: "queues_inv qs"
  obtains qs' where "reset_endpoint key qs = (pending qs key, qs')" and "queues_inv qs'"
    and "\<And>key'. pending qs' key' = (if key' = key then [] else pending qs key')"
    and "eq_active_order qs' = removeAll key (eq_active_order qs)"
    and "eq_len qs = eq_len qs' + length (pending qs key)"
    and "eq_next_sequence qs' = eq_next_sequence qs"
proof (cases "bm_get (eq_queues qs) key")
  case None
  then have "pending qs key = []" and "key \<notin> set (eq_active_order qs)"
    using queues_invD(3,4) [OF inv] by (simp_all add: pending_def)
  then show ?thesis
    using None inv by (intro that [of qs]) (auto simp: reset_endpoint_def)
next
  case (Some q)
  define qs' where "qs' = snd (reset_endpoint key qs)"
  have p: "pending qs key = q"
    using Some by (simp add: pending_def)
  have e: "reset_endpoint key qs = (pending qs key, qs')"
    by (simp add: qs'_def reset_endpoint_def Some p)
  have q': "eq_queues qs' = set_pending key [] (eq_queues qs)"
    and order: "eq_active_order qs' = removeAll key (eq_active_order qs)"
    and keys: "eq_active_keys qs' = eq_active_keys qs - {key}"
    and len: "eq_len qs' = eq_len qs - length q" "eq_next_sequence qs' = eq_next_sequence qs"
    by (simp_all add: qs'_def reset_endpoint_def Some set_pending_def filter_neq)
  have pos: "eq_len qs = eq_len qs' + length (pending qs key)"
    using pending_len [OF inv, of key] by (simp add: p len)
  have "queues_inv qs'"
    by (rule queues_inv_update [OF inv _ q'])
      (use queues_invD(2,3) [OF inv] pos in \<open>auto simp: order keys distinct_removeAll\<close>)
  then show ?thesis
    using that [OF e _ _ order pos len(2)] pending_update [OF q'] by simp
qed

lemma clear_queues_effect:
  assumes "queues_inv qs"
  shows "queues_inv (snd (clear_queues qs))" and "pending (snd (clear_queues qs)) key = []"
    and "fst (clear_queues qs) = eq_len qs" and "eq_len (snd (clear_queues qs)) = 0"
    and "eq_active_order (snd (clear_queues qs)) = []"
  by (simp_all add: clear_queues_def queues_inv_def pending_def btree.weight_def)

end
