(* ===== verification/Queue_Spec.thy ===== *)
theory Queue_Spec imports Endpoint_Queue "HOL-Library.Multiset" "HOL-Library.Sublist" begin

text \<open>
  What the daemon's scheduler promises. \<open>round_robin\<close> is the contract of a queue that
  serves its active endpoints in rotation; inside it the consequences for any number of
  pops are proved once (one round serves every endpoint once, each endpoint is served in
  order, the backlog drains). The endpoint queues of the daemon satisfy the contract, and
  the accounting of all five operations over arbitrary schedules follows.
\<close>

section \<open>The contract of a rotation\<close>

locale round_robin =
  fixes inv :: "'s \<Rightarrow> bool" and active :: "'s \<Rightarrow> 'k list" and pend :: "'s \<Rightarrow> 'k \<Rightarrow> 't list"
    and key_of :: "'t \<Rightarrow> 'k" and pop :: "'s \<Rightarrow> 't option \<times> 's"
  assumes active_distinct: "inv s \<Longrightarrow> distinct (active s)"
    and pend_active: "inv s \<Longrightarrow> pend s k = [] \<longleftrightarrow> k \<notin> set (active s)"
    and pend_key: "inv s \<Longrightarrow> t \<in> set (pend s k) \<Longrightarrow> key_of t = k"
    and pop_empty: "inv s \<Longrightarrow> active s = [] \<Longrightarrow> pop s = (None, s)"
    and pop_front: "inv s \<Longrightarrow> active s = k # ks \<Longrightarrow>
      \<exists>t s'. pop s = (Some t, s') \<and> inv s' \<and> pend s k = t # pend s' k \<and>
        (\<forall>k'. k' \<noteq> k \<longrightarrow> pend s' k' = pend s k') \<and>
        active s' = (if pend s' k = [] then ks else ks @ [k])"
begin

fun pops :: "nat \<Rightarrow> 's \<Rightarrow> 't list \<times> 's" where
  "pops 0 s = ([], s)"
| "pops (Suc n) s =
     (case pop s of
        (None, s') \<Rightarrow> ([], s')
      | (Some t, s') \<Rightarrow> (let (ts, s'') = pops n s' in (t # ts, s'')))"

definition backlog :: "'s \<Rightarrow> nat" where
  "backlog s = sum_list (map (\<lambda>k. length (pend s k)) (active s))"

lemma pop_cases:
  assumes "inv s"
  obtains (empty) "active s = []" "pop s = (None, s)" "\<And>k. pend s k = []"
  | (front) k ks t s' where "active s = k # ks" "pop s = (Some t, s')" "inv s'"
      "pend s k = t # pend s' k" "\<And>k'. k' \<noteq> k \<Longrightarrow> pend s' k' = pend s k'" "key_of t = k"
      "active s' = (if pend s' k = [] then ks else ks @ [k])"
proof (cases "active s")
  case Nil
  then show thesis using assms pop_empty pend_active empty by simp
next
  case (Cons k ks)
  then obtain t s' where "pop s = (Some t, s')" "inv s'" "pend s k = t # pend s' k"
    "\<forall>k'. k' \<noteq> k \<longrightarrow> pend s' k' = pend s k'" "active s' = (if pend s' k = [] then ks else ks @ [k])"
    using assms pop_front by blast
  moreover have "key_of t = k"
    using \<open>pend s k = t # pend s' k\<close> pend_key [OF assms, of t k] by simp
  ultimately show thesis
    using front [OF Cons] by blast
qed

lemma backlog_pop:
  assumes "inv s" and "pop s = (Some t, s')"
  shows "backlog s = Suc (backlog s')"
  using assms(1)
proof (cases rule: pop_cases)
  case empty
  then show ?thesis using assms(2) by simp
next
  case (front k ks t' s'')
  then have [simp]: "s'' = s'" using assms(2) by simp
  have "k \<notin> set ks"
    using active_distinct [OF assms(1)] front(1) by simp
  then have rest: "sum_list (map (\<lambda>k. length (pend s' k)) ks) =
      sum_list (map (\<lambda>k. length (pend s k)) ks)"
    using front(5) by (intro arg_cong [where f = sum_list] map_cong refl arg_cong [where f = length])
      (metis \<open>s'' = s'\<close>)
  show ?thesis
  proof (cases "pend s' k = []")
    case True
    then show ?thesis using front(1,4,7) rest by (simp add: backlog_def)
  next
    case False
    then show ?thesis using front(1,4,7) rest by (simp add: backlog_def)
  qed
qed

text \<open>Each endpoint is served in the order of its queue, whatever the others do.\<close>

lemma pops_fifo:
  assumes "inv s" and "pops n s = (ts, s')"
  shows "inv s' \<and> pend s k = filter (\<lambda>t. key_of t = k) ts @ pend s' k"
  using assms
proof (induction n arbitrary: s ts)
  case (Suc n)
  from Suc.prems(1) show ?case
  proof (cases rule: pop_cases)
    case empty
    with Suc.prems show ?thesis by simp
  next
    case (front k' ks t s1)
    obtain ts1 where "pops n s1 = (ts1, s')" and "ts = t # ts1"
      using Suc.prems(2) front(2) by (auto split: prod.splits)
    with Suc.IH [OF front(3)] front(4,5,6) show ?thesis by auto
  qed
qed simp

lemma pops_count:
  assumes "inv s" and "pops n s = (ts, s')"
  shows "length ts = min n (backlog s)" and "backlog s' = backlog s - n"
  using assms
proof (induction n arbitrary: s ts)
  case (Suc n)
  {
    case 1
    then show ?case
    proof (cases rule: pop_cases)
      case empty
      with 1 show ?thesis by (simp add: backlog_def)
    next
      case (front k ks t s1)
      obtain ts1 where "pops n s1 = (ts1, s')" and "ts = t # ts1"
        using 1 front(2) by (auto split: prod.splits)
      with Suc.IH(1) [OF front(3)] backlog_pop [OF 1(1) front(2)] show ?thesis by auto
    qed
  next
    case 2
    then show ?case
    proof (cases rule: pop_cases)
      case empty
      with 2 show ?thesis by (simp add: backlog_def)
    next
      case (front k ks t s1)
      obtain ts1 where "pops n s1 = (ts1, s')" and "ts = t # ts1"
        using 2 front(2) by (auto split: prod.splits)
      with Suc.IH(2) [OF front(3)] backlog_pop [OF 2(1) front(2)] show ?thesis by auto
    qed
  }
qed simp_all

lemma backlog_zero_iff: "inv s \<Longrightarrow> backlog s = 0 \<longleftrightarrow> active s = []"
  using pend_active [of s] by (auto simp: backlog_def)

lemma backlog_active: "inv s \<Longrightarrow> length (active s) \<le> backlog s"
proof -
  assume inv: "inv s"
  have "length ks \<le> sum_list (map (\<lambda>k. length (pend s k)) ks)" if "set ks \<subseteq> set (active s)" for ks
    using that
  proof (induction ks)
    case (Cons k ks)
    then have "0 < length (pend s k)"
      using pend_active [OF inv, of k] by auto
    with Cons show ?case by (simp add: Suc_le_eq add_strict_increasing)
  qed simp
  then show ?thesis by (simp add: backlog_def)
qed

text \<open>A drained queue has handed out every pending transfer and is empty.\<close>

lemma pops_drain:
  assumes "inv s" and "pops (backlog s) s = (ts, s')"
  shows "active s' = []" and "filter (\<lambda>t. key_of t = k) ts = pend s k"
proof -
  have inv: "inv s'" and "backlog s' = 0"
    using pops_fifo [OF assms] pops_count [OF assms] by auto
  then show act: "active s' = []"
    using backlog_zero_iff by blast
  then have "pend s' k = []"
    using pend_active [OF inv] by simp
  then show "filter (\<lambda>t. key_of t = k) ts = pend s k"
    using pops_fifo [OF assms] by simp
qed

text \<open>
  One round: the first \<open>n\<close> endpoints of the rotation are served once each, in rotation
  order, with the oldest transfer of each.
\<close>

lemma pops_round:
  assumes "inv s" and "active s = ks @ rest"
  shows "\<exists>s'. pops (length ks) s = (map (\<lambda>k. hd (pend s k)) ks, s') \<and> inv s' \<and>
     active s' = rest @ filter (\<lambda>k. pend s' k \<noteq> []) ks \<and>
     (\<forall>k. pend s' k = (if k \<in> set ks then tl (pend s k) else pend s k))"
  using assms
proof (induction ks arbitrary: s rest)
  case (Cons k ks)
  from Cons.prems(1) show ?case
  proof (cases rule: pop_cases)
    case empty
    with Cons.prems show ?thesis by simp
  next
    case (front k' ks' t s1)
    then have k': "k' = k" "ks' = ks @ rest" using Cons.prems(2) by simp_all
    have notin: "k \<notin> set ks"
      using active_distinct [OF Cons.prems(1)] Cons.prems(2) by simp
    have "active s1 = ks @ (rest @ (if pend s1 k = [] then [] else [k]))"
      using front(7) by (simp add: k')
    from Cons.IH [OF front(3) this] obtain s' where
      s': "pops (length ks) s1 = (map (\<lambda>k. hd (pend s1 k)) ks, s')" "inv s'"
        "active s' = (rest @ (if pend s1 k = [] then [] else [k])) @
          filter (\<lambda>k. pend s' k \<noteq> []) ks"
        "\<forall>j. pend s' j = (if j \<in> set ks then tl (pend s1 j) else pend s1 j)"
      by blast
    have "pend s' k = pend s1 k" "pend s k = t # pend s1 k"
      using s'(4) notin front(4) by (simp_all add: k')
    moreover have "map (\<lambda>k. hd (pend s1 k)) ks = map (\<lambda>k. hd (pend s k)) ks"
      using front(5) notin by (intro map_cong refl arg_cong [where f = hd]) (metis k'(1))
    moreover have "\<forall>j. j \<noteq> k \<longrightarrow> pend s1 j = pend s j"
      using front(5) by (simp add: k')
    ultimately show ?thesis
      using s' front(2) notin by (intro exI [of _ s']) auto
  qed
qed simp

end

section \<open>The endpoint queues are a rotation\<close>

interpretation queues: round_robin queues_inv eq_active_order pending qt_key pop_next
proof
  fix s k and ks t
  assume inv: "queues_inv s"
  show "distinct (eq_active_order s)"
    by (rule queues_invD [OF inv])
  show "pending s k = [] \<longleftrightarrow> k \<notin> set (eq_active_order s)"
    using pending_Nil_iff [OF inv] queues_invD(3) [OF inv] by simp
  show "t \<in> set (pending s k) \<Longrightarrow> qt_key t = k"
    using pending_ok [OF inv] by blast
  show "eq_active_order s = [] \<Longrightarrow> pop_next s = (None, s)"
    by (rule pop_next_None [OF inv])
  show "\<exists>t s'. pop_next s = (Some t, s') \<and> queues_inv s' \<and> pending s k = t # pending s' k \<and>
      (\<forall>k'. k' \<noteq> k \<longrightarrow> pending s' k' = pending s k') \<and>
      eq_active_order s' = (if pending s' k = [] then ks else ks @ [k])"
    if "eq_active_order s = k # ks"
    using pop_next_Some [OF inv that] by metis
qed

text \<open>\<open>pop_times n\<close> calls \<open>pop_next\<close> until it has been called \<open>n\<close> times or is empty.\<close>

fun pop_times :: "nat \<Rightarrow> endpoint_queues \<Rightarrow> queued_transfer list \<times> endpoint_queues" where
  "pop_times 0 qs = ([], qs)"
| "pop_times (Suc n) qs =
     (case pop_next qs of
        (None, qs') \<Rightarrow> ([], qs')
      | (Some t, qs') \<Rightarrow> (let (ts, qs'') = pop_times n qs' in (t # ts, qs'')))"

lemma pops_pop_times: "queues.pops n qs = pop_times n qs"
  by (induction n arbitrary: qs) (simp_all split: prod.splits option.splits)

lemma backlog_len: "queues_inv qs \<Longrightarrow> queues.backlog qs = eq_len qs"
proof -
  assume inv: "queues_inv qs"
  have wf: "bm_wf (eq_queues qs)" and len: "eq_len qs = btree.weight length (eq_queues qs)"
    using queues_invD [OF inv] by simp_all
  have get: "bm_get (eq_queues qs) k = Some q \<longleftrightarrow> (k, q) \<in> set (eq_queues qs)" for k q
    by (rule bm_get_iff [OF wf])
  have "set (eq_queues qs) = (\<lambda>k. (k, pending qs k)) ` set (eq_active_order qs)"
    using pending_Nil_iff [OF inv] queues_invD(3) [OF inv]
    by (auto simp: get [symmetric] bm_get_pending [OF inv] image_iff split: if_splits)
  moreover have "inj_on (\<lambda>k. (k, pending qs k)) (set (eq_active_order qs))"
    by (simp add: inj_on_def)
  ultimately have "btree.weight length (eq_queues qs) =
      (\<Sum>k \<in> set (eq_active_order qs). length (pending qs k))"
    by (simp add: btree.weight_def sum.reindex)
  then show ?thesis
    using queues_invD(2) [OF inv]
    by (simp add: queues.backlog_def len sum_list_distinct_conv_sum_set)
qed

section \<open>Schedules of operations\<close>

datatype queue_op =
  EnqueueOp frame | PopOp | CancelOp u64 | ResetOp endpoint_key | ClearOp

text \<open>
  One operation with what it does to the flow of transfers: those it accepts, those it
  hands out to the backend, and those it takes away (cancelled, reset or dropped by
  \<open>clear\<close>, which only counts them).
\<close>

record queue_flow =
  qf_accepted :: "queued_transfer list"
  qf_popped :: "queued_transfer list"
  qf_removed :: "queued_transfer list"

definition all_pending :: "endpoint_queues \<Rightarrow> queued_transfer list" where
  "all_pending qs = concat (map (pending qs) (eq_active_order qs))"

fun queue_step :: "queue_op \<Rightarrow> endpoint_queues \<Rightarrow> queue_flow \<times> endpoint_queues" where
  "queue_step (EnqueueOp f) qs =
     (case enqueue f qs of
        (Inl _, qs') \<Rightarrow> (\<lparr>qf_accepted = [], qf_popped = [], qf_removed = []\<rparr>, qs')
      | (Inr sequence, qs') \<Rightarrow>
          (\<lparr>qf_accepted = [\<lparr>qt_sequence = sequence, qt_key = key_from_frame f, qt_frame = f\<rparr>],
            qf_popped = [], qf_removed = []\<rparr>, qs'))"
| "queue_step PopOp qs =
     (case pop_next qs of
        (None, qs') \<Rightarrow> (\<lparr>qf_accepted = [], qf_popped = [], qf_removed = []\<rparr>, qs')
      | (Some t, qs') \<Rightarrow> (\<lparr>qf_accepted = [], qf_popped = [t], qf_removed = []\<rparr>, qs'))"
| "queue_step (CancelOp request_id) qs =
     (case cancel request_id qs of
        (None, qs') \<Rightarrow> (\<lparr>qf_accepted = [], qf_popped = [], qf_removed = []\<rparr>, qs')
      | (Some t, qs') \<Rightarrow> (\<lparr>qf_accepted = [], qf_popped = [], qf_removed = [t]\<rparr>, qs'))"
| "queue_step (ResetOp key) qs =
     (case reset_endpoint key qs of
        (ts, qs') \<Rightarrow> (\<lparr>qf_accepted = [], qf_popped = [], qf_removed = ts\<rparr>, qs'))"
| "queue_step ClearOp qs =
     (\<lparr>qf_accepted = [], qf_popped = [], qf_removed = all_pending qs\<rparr>, snd (clear_queues qs))"

fun queue_run :: "queue_op list \<Rightarrow> endpoint_queues \<Rightarrow> queue_flow \<times> endpoint_queues" where
  "queue_run [] qs = (\<lparr>qf_accepted = [], qf_popped = [], qf_removed = []\<rparr>, qs)"
| "queue_run (op # ops) qs =
     (let (fl, qs') = queue_step op qs; (fls, qs'') = queue_run ops qs'
      in (\<lparr>qf_accepted = qf_accepted fl @ qf_accepted fls,
           qf_popped = qf_popped fl @ qf_popped fls,
           qf_removed = qf_removed fl @ qf_removed fls\<rparr>, qs''))"

text \<open>
  One step, seen from one endpoint: what it accepts for the endpoint is appended to the
  pending transfers, what it pops comes from their front, and what it removes leaves the
  others in order.
\<close>

abbreviation for_key :: "endpoint_key \<Rightarrow> queued_transfer list \<Rightarrow> queued_transfer list" where
  "for_key key \<equiv> filter (\<lambda>t. qt_key t = key)"

lemma for_key_pending:
  "queues_inv qs \<Longrightarrow> for_key key (pending qs key') = (if key' = key then pending qs key else [])"
  using pending_ok [of qs _ key'] by (auto simp: filter_empty_conv intro: filter_True)

lemma for_key_all_pending:
  assumes "queues_inv qs"
  shows "for_key key (all_pending qs) = pending qs key"
proof -
  have "for_key key (concat (map (pending qs) keys)) =
      (if key \<in> set keys then pending qs key else [])" if "distinct keys" for keys
    using that by (induction keys) (auto simp: for_key_pending [OF assms])
  then show ?thesis
    using queues_invD(2) [OF assms] queues.pend_active [OF assms, of key]
    by (auto simp: all_pending_def)
qed

definition step_ok :: "endpoint_queues \<Rightarrow> queue_flow \<times> endpoint_queues \<Rightarrow> bool" where
  "step_ok qs r \<longleftrightarrow> queues_inv (snd r) \<and>
     (\<forall>key. mset (pending qs key) + mset (for_key key (qf_accepted (fst r))) =
        mset (for_key key (qf_popped (fst r))) + mset (for_key key (qf_removed (fst r))) +
        mset (pending (snd r) key)) \<and>
     (\<forall>key. subseq (for_key key (qf_popped (fst r)) @ pending (snd r) key)
        (pending qs key @ for_key key (qf_accepted (fst r))))"

lemma queue_step_ok:
  assumes inv: "queues_inv qs"
  shows "step_ok qs (queue_step op qs)"
proof (cases op)
  case (EnqueueOp f)
  show ?thesis
  proof (cases "fr_frame_type f = Request")
    case True
    show ?thesis
      by (rule enqueue_request [OF inv True]) (simp add: EnqueueOp step_ok_def)
  next
    case False
    then show ?thesis using inv by (simp add: EnqueueOp enqueue_refused step_ok_def)
  qed
next
  case PopOp
  show ?thesis
  proof (cases "eq_active_order qs")
    case Nil
    then show ?thesis using inv by (simp add: PopOp pop_next_None step_ok_def)
  next
    case (Cons key order)
    show ?thesis
    proof (rule pop_next_Some [OF inv Cons])
      fix t qs'
      assume p: "pending qs key = t # pending qs' key" and "pop_next qs = (Some t, qs')"
        and "queues_inv qs'" and "\<And>key'. key' \<noteq> key \<Longrightarrow> pending qs' key' = pending qs key'"
      moreover have "qt_key t = key"
        using pending_ok [OF inv, of t key] p by simp
      ultimately show ?thesis by (auto simp: PopOp step_ok_def)
    qed
  qed
next
  case (CancelOp request_id)
  obtain r qs' where c: "cancel request_id qs = (r, qs')" by fastforce
  show ?thesis
  proof (cases r)
    case None
    then have "qs' = qs" using cancel_None(2) [OF inv, of request_id] c by simp
    then show ?thesis using inv c None by (simp add: CancelOp step_ok_def)
  next
    case (Some t)
    with c have c': "cancel request_id qs = (Some t, qs')" by simp
    show ?thesis
    proof (rule cancel_Some [OF inv c'])
      fix key xs ys
      assume p: "pending qs key = xs @ t # ys" and "queues_inv qs'"
        and "\<And>key'. pending qs' key' = (if key' = key then xs @ ys else pending qs key')"
      moreover have "qt_key t = key"
        using pending_ok [OF inv, of t key] p by simp
      moreover have "subseq (xs @ ys) (xs @ t # ys)"
        using subseq_append' [of xs ys "t # ys"] by (simp add: list_emb_Cons)
      ultimately show ?thesis by (auto simp: CancelOp c' step_ok_def)
    qed
  qed
next
  case (ResetOp key)
  show ?thesis
    by (rule reset_endpoint_effect [OF inv, of key])
      (simp add: ResetOp step_ok_def for_key_pending [OF inv])
next
  case ClearOp
  show ?thesis
    using clear_queues_effect [OF inv] for_key_all_pending [OF inv]
    by (simp add: ClearOp step_ok_def)
qed

lemma flow_add:
  fixes a :: "'a::comm_monoid_add"
  assumes "a + b = c + d + e" and "e + f = g + h + i"
  shows "a + (b + f) = (c + g) + (d + h) + i"
proof -
  have "a + (b + f) = c + d + (e + f)"
    using assms(1) by (metis add.assoc)
  then show ?thesis
    by (simp add: assms(2) add_ac)
qed

lemma queue_run_ok:
  assumes "queues_inv qs"
  shows "step_ok qs (queue_run ops qs)"
  using assms
proof (induction ops arbitrary: qs)
  case Nil
  then show ?case by (simp add: step_ok_def)
next
  case (Cons op ops)
  obtain fl qs1 where s: "queue_step op qs = (fl, qs1)" by fastforce
  obtain fls qs2 where r: "queue_run ops qs1 = (fls, qs2)" by fastforce
  have 1: "step_ok qs (fl, qs1)" using queue_step_ok [OF Cons.prems, of op] s by simp
  then have 2: "step_ok qs1 (fls, qs2)" using Cons.IH [of qs1] r by (simp add: step_ok_def)
  have "subseq (for_key key (qf_popped fl) @ for_key key (qf_popped fls) @ pending qs2 key)
      (pending qs key @ for_key key (qf_accepted fl) @ for_key key (qf_accepted fls))" for key
  proof -
    have "subseq (for_key key (qf_popped fl) @ for_key key (qf_popped fls) @ pending qs2 key)
        (for_key key (qf_popped fl) @ pending qs1 key @ for_key key (qf_accepted fls))"
      using 2 by (simp add: step_ok_def subseq_append')
    also have "subseq \<dots> (pending qs key @ for_key key (qf_accepted fl) @ for_key key (qf_accepted fls))"
      using 1 list_emb_append_mono [of "(=)" "for_key key (qf_popped fl) @ pending qs1 key"
          "pending qs key @ for_key key (qf_accepted fl)" "for_key key (qf_accepted fls)"
          "for_key key (qf_accepted fls)"]
      by (simp add: step_ok_def)
    finally show ?thesis .
  qed
  moreover have "mset (pending qs key) + mset (for_key key (qf_accepted fl @ qf_accepted fls)) =
      mset (for_key key (qf_popped fl @ qf_popped fls)) +
      mset (for_key key (qf_removed fl @ qf_removed fls)) + mset (pending qs2 key)" for key
    using 1 2 unfolding step_ok_def fst_conv snd_conv filter_append mset_append
    by (intro flow_add) blast+
  ultimately show ?case
    using 2 by (simp add: s r step_ok_def)
qed

section \<open>Refinement of the abstract rotation\<close>

text \<open>
  The abstract scheduler is a list of endpoints, each with its pending transfers: a
  transfer joins its endpoint or appends a new one; the endpoint at the front gives its
  oldest transfer and goes to the back of the list if it has more.
\<close>

type_synonym rotation = "(endpoint_key \<times> queued_transfer list) list"

fun rr_enqueue :: "queued_transfer \<Rightarrow> rotation \<Rightarrow> rotation" where
  "rr_enqueue t [] = [(qt_key t, [t])]"
| "rr_enqueue t ((key, q) # rr) =
     (if key = qt_key t then (key, q @ [t]) # rr else (key, q) # rr_enqueue t rr)"

fun rr_pop :: "rotation \<Rightarrow> queued_transfer option \<times> rotation" where
  "rr_pop ((key, t # q) # rr) = (Some t, if q = [] then rr else rr @ [(key, q)])"
| "rr_pop rr = (None, rr)"

definition rr_reset :: "endpoint_key \<Rightarrow> rotation \<Rightarrow> rotation" where
  "rr_reset key rr = filter (\<lambda>(key', _). key' \<noteq> key) rr"

definition rotation_of :: "endpoint_queues \<Rightarrow> rotation" where
  "rotation_of qs = map (\<lambda>key. (key, pending qs key)) (eq_active_order qs)"

lemma rr_enqueue_map:
  assumes "distinct keys"
  shows "rr_enqueue t (map (\<lambda>key. (key, f key)) keys) =
    (if qt_key t \<in> set keys then map (\<lambda>key. (key, if key = qt_key t then f key @ [t] else f key)) keys
     else map (\<lambda>key. (key, f key)) keys @ [(qt_key t, [t])])"
  using assms by (induction keys) auto

lemma rotation_enqueue:
  assumes inv: "queues_inv qs" and req: "fr_frame_type f = Request"
  shows "rotation_of (snd (enqueue f qs)) =
     rr_enqueue \<lparr>qt_sequence = eq_next_sequence qs, qt_key = key_from_frame f, qt_frame = f\<rparr>
       (rotation_of qs)"
proof (rule enqueue_request [OF inv req])
  fix qs'
  assume e: "enqueue f qs = (Inr (eq_next_sequence qs), qs')"
    and p: "\<And>key. pending qs' key = (if key = key_from_frame f
       then pending qs key @ [\<lparr>qt_sequence = eq_next_sequence qs, qt_key = key, qt_frame = f\<rparr>]
       else pending qs key)"
    and order: "eq_active_order qs' = (if pending qs (key_from_frame f) = []
       then eq_active_order qs @ [key_from_frame f] else eq_active_order qs)"
  show ?thesis
    using queues.pend_active [OF inv, of "key_from_frame f"] queues_invD(2) [OF inv]
    by (auto simp: e rotation_of_def rr_enqueue_map p order)
qed

lemma rotation_pop:
  assumes inv: "queues_inv qs"
  shows "rr_pop (rotation_of qs) = (fst (pop_next qs), rotation_of (snd (pop_next qs)))"
proof (cases "eq_active_order qs")
  case Nil
  then show ?thesis using pop_next_None(1) [OF inv] by (simp add: rotation_of_def)
next
  case (Cons key order)
  show ?thesis
  proof (rule pop_next_Some [OF inv Cons])
    fix t qs'
    assume "pending qs key = t # pending qs' key" "pop_next qs = (Some t, qs')"
      and others: "\<And>key'. key' \<noteq> key \<Longrightarrow> pending qs' key' = pending qs key'"
      and "eq_active_order qs' = (if pending qs' key = [] then order else order @ [key])"
    moreover have "map (\<lambda>key. (key, pending qs' key)) order = map (\<lambda>key. (key, pending qs key)) order"
      using queues_invD(2) [OF inv] others by (auto simp: Cons) (metis others)
    ultimately show ?thesis
      by (simp add: rotation_of_def Cons)
  qed
qed

lemma rotation_reset:
  assumes inv: "queues_inv qs"
  shows "rotation_of (snd (reset_endpoint key qs)) = rr_reset key (rotation_of qs)"
proof (rule reset_endpoint_effect [OF inv, of key])
  fix qs'
  assume "reset_endpoint key qs = (pending qs key, qs')"
    and "\<And>key'. pending qs' key' = (if key' = key then [] else pending qs key')"
    and "eq_active_order qs' = removeAll key (eq_active_order qs)"
  then show ?thesis
    by (simp add: rotation_of_def rr_reset_def filter_map o_def filter_neq)
qed

section \<open>Properties\<close>

text \<open>The state after any schedule of operations on a new queue.\<close>

definition reached :: "queue_op list \<Rightarrow> endpoint_queues" where
  "reached ops = snd (queue_run ops queues_default)"

lemma reached_inv [simp]: "queues_inv (reached ops)"
  using queue_run_ok [OF queues_inv_default, of ops] by (simp add: reached_def step_ok_def)

lemma mset_by_key:
  assumes "\<And>key. mset (for_key key xs) = mset (for_key key ys)"
  shows "mset xs = mset ys"
proof (rule multiset_eqI)
  fix x
  have "count (mset (for_key (qt_key x) zs)) x = count (mset zs) x" for zs
    by (induction zs) auto
  then show "count (mset xs) x = count (mset ys) x"
    using assms [of "qt_key x"] by metis
qed

text \<open>
  C9: no transfer is lost or duplicated: after any sequence of enqueues, pops, cancels,
  endpoint resets and clears, the accepted transfers are exactly those handed out, those
  taken away and those still pending, counted with multiplicity; and the length counter is
  the number of those pending, so it never underflows.
\<close>

theorem queue_conservation:
  "mset (qf_accepted (fst (queue_run ops queues_default))) =
     mset (qf_popped (fst (queue_run ops queues_default))) +
     mset (qf_removed (fst (queue_run ops queues_default))) + mset (all_pending (reached ops)) \<and>
   eq_len (reached ops) = length (all_pending (reached ops))"
proof
  let ?fl = "fst (queue_run ops queues_default)"
  have "mset (qf_accepted ?fl) = mset (qf_popped ?fl @ qf_removed ?fl @ all_pending (reached ops))"
    by (rule mset_by_key)
      (use queue_run_ok [OF queues_inv_default, of ops] in
       \<open>simp add: step_ok_def reached_def for_key_all_pending\<close>)
  then show "mset (qf_accepted ?fl) =
      mset (qf_popped ?fl) + mset (qf_removed ?fl) + mset (all_pending (reached ops))"
    by (simp add: add.assoc)
  show "eq_len (reached ops) = length (all_pending (reached ops))"
    using backlog_len [OF reached_inv, of ops]
    by (simp add: queues.backlog_def all_pending_def length_concat o_def)
qed

text \<open>
  C12: the transfers of an endpoint keep their order: in every schedule the transfers of an
  endpoint that were handed out, followed by those still pending, are those accepted for it
  in the order of arrival, less the ones that were cancelled, reset or cleared.
\<close>

theorem queue_fifo:
  "subseq (for_key key (qf_popped (fst (queue_run ops queues_default))) @ pending (reached ops) key)
     (for_key key (qf_accepted (fst (queue_run ops queues_default))))"
  using queue_run_ok [OF queues_inv_default, of ops] by (simp add: step_ok_def reached_def)

text \<open>
  C11: the scheduler is fair: from any reachable state, one pop per active endpoint serves
  every active endpoint exactly once, in rotation order, with its oldest transfer, and
  leaves the endpoints that still have transfers in the same order.
\<close>

theorem queue_round_robin:
  "\<exists>qs'. pop_times (length (eq_active_order (reached ops))) (reached ops) =
       (map (\<lambda>key. hd (pending (reached ops) key)) (eq_active_order (reached ops)), qs') \<and>
     eq_active_order qs' = filter (\<lambda>key. pending qs' key \<noteq> []) (eq_active_order (reached ops)) \<and>
     (\<forall>key. pending qs' key = tl (pending (reached ops) key))"
proof -
  obtain qs' where r: "queues.pops (length (eq_active_order (reached ops))) (reached ops) =
       (map (\<lambda>key. hd (pending (reached ops) key)) (eq_active_order (reached ops)), qs')"
    "eq_active_order qs' = filter (\<lambda>key. pending qs' key \<noteq> []) (eq_active_order (reached ops))"
    and p: "\<forall>key. pending qs' key = (if key \<in> set (eq_active_order (reached ops))
       then tl (pending (reached ops) key) else pending (reached ops) key)"
    using queues.pops_round [OF reached_inv, of ops "eq_active_order (reached ops)" "[]"] by auto
  have "pending qs' key = tl (pending (reached ops) key)" for key
    using p queues.pend_active [OF reached_inv, of ops key] by (metis list.sel(2))
  with r show ?thesis by (auto simp: pops_pop_times)
qed

text \<open>
  The queue drains: popping as often as the length counter says hands out every
  pending transfer of every endpoint, in order, and leaves the queue empty.
\<close>

theorem queue_drains:
  "\<exists>ts qs'. pop_times (eq_len (reached ops)) (reached ops) = (ts, qs') \<and>
     length ts = eq_len (reached ops) \<and>
     (\<forall>key. for_key key ts = pending (reached ops) key) \<and>
     eq_len qs' = 0 \<and> all_pending qs' = [] \<and> fst (pop_next qs') = None"
proof -
  obtain ts qs' where r: "queues.pops (queues.backlog (reached ops)) (reached ops) = (ts, qs')"
    by fastforce
  have inv: "queues_inv qs'" and act: "eq_active_order qs' = []"
    using queues.pops_fifo [OF reached_inv r] queues.pops_drain [OF reached_inv r] by simp_all
  moreover have "eq_len qs' = 0"
    using backlog_len [OF inv] act by (simp add: queues.backlog_def)
  ultimately show ?thesis
    using r queues.pops_drain(2) [OF reached_inv r] queues.pops_count(1) [OF reached_inv r]
      pop_next_None [OF inv act]
    by (simp add: pops_pop_times backlog_len all_pending_def)
qed

text \<open>
  C10: cancelling is exact: it fails, changing nothing, only when no pending transfer has
  the request identifier; otherwise it takes away one transfer, the oldest with that
  identifier of one endpoint, and every other transfer stays pending in its place.
\<close>

theorem cancel_exact:
  "case cancel request_id (reached ops) of
     (None, qs') \<Rightarrow> qs' = reached ops \<and>
       filter (has_request request_id) (all_pending (reached ops)) = []
   | (Some t, qs') \<Rightarrow>
       find (has_request request_id) (pending (reached ops) (qt_key t)) = Some t \<and>
       pending qs' = (pending (reached ops))
         (qt_key t := remove1 t (pending (reached ops) (qt_key t))) \<and>
       eq_len (reached ops) = Suc (eq_len qs')"
proof -
  let ?qs = "reached ops"
  obtain r qs' where c: "cancel request_id ?qs = (r, qs')" by fastforce
  show ?thesis
  proof (cases r)
    case None
    then have "\<forall>key. \<forall>t \<in> set (pending ?qs key). \<not> has_request request_id t" and "qs' = ?qs"
      using cancel_None [OF reached_inv, of request_id ops] c by simp_all
    then show ?thesis
      by (auto simp: c None all_pending_def filter_empty_conv)
  next
    case (Some t)
    with c have c': "cancel request_id ?qs = (Some t, qs')" by simp
    show ?thesis
    proof (rule cancel_Some [OF reached_inv c'])
      fix key xs ys
      assume p: "pending ?qs key = xs @ t # ys" and t: "has_request request_id t"
        and first: "\<forall>u \<in> set xs. \<not> has_request request_id u"
        and p': "\<And>key'. pending qs' key' = (if key' = key then xs @ ys else pending ?qs key')"
        and len: "eq_len ?qs = Suc (eq_len qs')"
      have k: "qt_key t = key"
        using pending_ok [OF reached_inv, of t ops key] p by simp
      have "find (has_request request_id) (xs @ t # ys) = Some t"
        using t first by (induction xs) auto
      moreover have "remove1 t (xs @ t # ys) = xs @ ys"
        using t first by (simp add: remove1_append) auto
      moreover have "pending qs' = (pending ?qs) (key := xs @ ys)"
        using p' by auto
      ultimately show ?thesis
        by (simp add: c' k p len)
    qed
  qed
qed

text \<open>
  C22: the detailed queues refine the abstract rotation: enqueueing a request, popping and
  resetting an endpoint act on the list of endpoints with their pending transfers as the
  abstract scheduler does, and a frame that is not a request is refused without effect.
\<close>

theorem queue_refines_rotation:
  "rotation_of (snd (enqueue f (reached ops))) =
     (if fr_frame_type f = Request
      then rr_enqueue \<lparr>qt_sequence = eq_next_sequence (reached ops), qt_key = key_from_frame f,
             qt_frame = f\<rparr> (rotation_of (reached ops))
      else rotation_of (reached ops)) \<and>
   rr_pop (rotation_of (reached ops)) =
     (fst (pop_next (reached ops)), rotation_of (snd (pop_next (reached ops)))) \<and>
   rotation_of (snd (reset_endpoint key (reached ops))) = rr_reset key (rotation_of (reached ops)) \<and>
   fst (reset_endpoint key (reached ops)) = pending (reached ops) key"
proof (intro conjI)
  show "fst (reset_endpoint key (reached ops)) = pending (reached ops) key"
    by (rule reset_endpoint_effect [OF reached_inv, of key ops]) simp
qed (simp_all add: rotation_enqueue enqueue_refused rotation_pop rotation_reset)

end
