(* ===== verification/Mapped_Ring.thy ===== *)
theory Mapped_Ring imports Prelude begin

text \<open>
  The shared-memory ring of \<open>daemon/src/mapped_ring.rs\<close>: two 64-bit counters and 1 MiB of
  data, in which length-prefixed frames are written by one side and read by the other. The
  arithmetic is the checked one of a build with overflow checks: \<open>None\<close> is a panic, and the
  lemmas show that under the ring's invariant no check fires before the counters have
  counted \<open>2 ^ 64\<close> bytes. The abstract ring is the list of the frames it holds.
\<close>

section \<open>State\<close>

definition RING_BUFFER_SIZE :: nat where "RING_BUFFER_SIZE = 1024 * 1024"
definition RING_HEADER_SIZE :: nat where "RING_HEADER_SIZE = 16"
definition RING_MAPPING_SIZE :: nat where
  "RING_MAPPING_SIZE = RING_HEADER_SIZE + RING_BUFFER_SIZE"
definition FRAME_PREFIX_LEN :: nat where "FRAME_PREFIX_LEN = 4"

lemma prefix_len [simp]: "FRAME_PREFIX_LEN = 4"
  by (simp add: FRAME_PREFIX_LEN_def)

lemma ring_size_pos [simp]: "0 < RING_BUFFER_SIZE"
  by (simp add: RING_BUFFER_SIZE_def)

text \<open>
  The memory at the ring's base: the counter \<open>head\<close> at offset 0, \<open>tail\<close> at offset 8 and
  the data from offset 16, here indexed from 0.
\<close>

record ring =
  ring_head :: u64
  ring_tail :: u64
  ring_data :: "nat \<Rightarrow> u8"

datatype mapped_ring_error =
    NullBase | MisalignedBase
  | InvalidSize nat nat
  | Full nat nat
  | FrameTooLarge nat nat

text \<open>\<open>MappedRing::new\<close> returns the handle, a base address and the size behind it.\<close>

definition mapped_ring_new :: "nat \<Rightarrow> nat \<Rightarrow> mapped_ring_error + nat \<times> nat" where
  "mapped_ring_new base mapped =
     (if base = 0 then Inl NullBase
      else if mapped < RING_MAPPING_SIZE then Inl (InvalidSize mapped RING_MAPPING_SIZE)
      else if base mod 8 \<noteq> 0 then Inl MisalignedBase
      else Inr (base, mapped))"

section \<open>Operations\<close>

definition checked_sub :: "nat \<Rightarrow> nat \<Rightarrow> nat option" where
  "checked_sub a b = (if b \<le> a then Some (a - b) else None)"

definition checked_add64 :: "nat \<Rightarrow> nat \<Rightarrow> nat option" where
  "checked_add64 a b = (if a + b < 2 ^ 64 then Some (a + b) else None)"

definition available_data :: "ring \<Rightarrow> nat option" where
  "available_data r = checked_sub (unat (ring_head r)) (unat (ring_tail r))"

definition available_space :: "ring \<Rightarrow> nat option" where
  "available_space r = Option.bind (available_data r) (checked_sub RING_BUFFER_SIZE)"

text \<open>\<open>copy_nonoverlapping\<close> into and out of the data.\<close>

definition write_at :: "(nat \<Rightarrow> u8) \<Rightarrow> nat \<Rightarrow> bytes \<Rightarrow> nat \<Rightarrow> u8" where
  "write_at data offset src =
     (\<lambda>i. if offset \<le> i \<and> i < offset + length src then src ! (i - offset) else data i)"

definition read_at :: "(nat \<Rightarrow> u8) \<Rightarrow> nat \<Rightarrow> nat \<Rightarrow> bytes" where
  "read_at data offset len = map data [offset ..< offset + len]"

definition write_wrapped :: "(nat \<Rightarrow> u8) \<Rightarrow> nat \<Rightarrow> bytes \<Rightarrow> nat \<Rightarrow> u8" where
  "write_wrapped data absolute_offset src =
     (if src = [] then data
      else let offset = absolute_offset mod RING_BUFFER_SIZE;
               first_len = min (length src) (RING_BUFFER_SIZE - offset);
               data' = write_at data offset (take first_len src)
           in if first_len < length src then write_at data' 0 (drop first_len src) else data')"

definition read_wrapped :: "(nat \<Rightarrow> u8) \<Rightarrow> nat \<Rightarrow> nat \<Rightarrow> bytes" where
  "read_wrapped data absolute_offset len =
     (if len = 0 then []
      else let offset = absolute_offset mod RING_BUFFER_SIZE;
               first_len = min len (RING_BUFFER_SIZE - offset);
               dst = read_at data offset first_len
           in if first_len < len then dst @ read_at data 0 (len - first_len) else dst)"

definition push_frame :: "bytes \<Rightarrow> ring \<Rightarrow> ((mapped_ring_error + unit) \<times> ring) option" where
  "push_frame f r =
     (if length f > 4294967295 then Some (Inl (FrameTooLarge (length f) 4294967295), r)
      else let frame_len = of_nat (length f) :: u32;
               total_len = FRAME_PREFIX_LEN + length f;
               tail = unat (ring_tail r);
               head = unat (ring_head r)
           in Option.bind (checked_sub head tail) (\<lambda>used.
              Option.bind (checked_sub RING_BUFFER_SIZE used) (\<lambda>available_space.
                if total_len > available_space
                then Some (Inl (Full total_len available_space), r)
                else let data = write_wrapped (ring_data r) head (be_bytes 4 frame_len)
                     in Option.bind (checked_add64 head FRAME_PREFIX_LEN) (\<lambda>offset.
                        let data = write_wrapped data offset f
                        in Option.bind (checked_add64 head total_len) (\<lambda>head.
                             Some (Inr (), r\<lparr>ring_data := data, ring_head := of_nat head\<rparr>))))))"

definition pop_frame :: "nat \<Rightarrow> ring \<Rightarrow> ((mapped_ring_error + bytes option) \<times> ring) option" where
  "pop_frame max_len r =
     (let head = unat (ring_head r);
          tail = unat (ring_tail r)
      in Option.bind (checked_sub head tail) (\<lambda>available_data.
           if available_data < FRAME_PREFIX_LEN then Some (Inr None, r)
           else let prefix = read_wrapped (ring_data r) tail FRAME_PREFIX_LEN;
                    frame_len = unat (be_word prefix :: u32);
                    total_len = FRAME_PREFIX_LEN + frame_len
                in if frame_len > max_len then Some (Inl (FrameTooLarge frame_len max_len), r)
                   else if available_data < total_len then Some (Inr None, r)
                   else Option.bind (checked_add64 tail FRAME_PREFIX_LEN) (\<lambda>offset.
                        let frame = read_wrapped (ring_data r) offset frame_len
                        in Option.bind (checked_add64 tail total_len) (\<lambda>tail.
                             Some (Inr (Some frame), r\<lparr>ring_tail := of_nat tail\<rparr>)))))"

section \<open>The data as a circular buffer\<close>

text \<open>\<open>seg data a n\<close> is the \<open>n\<close> bytes from the absolute offset \<open>a\<close> on, around the end.\<close>

definition seg :: "(nat \<Rightarrow> u8) \<Rightarrow> nat \<Rightarrow> nat \<Rightarrow> bytes" where
  "seg data a n = map (\<lambda>i. data (i mod RING_BUFFER_SIZE)) [a ..< a + n]"

lemma length_seg [simp]: "length (seg data a n) = n"
  by (simp add: seg_def)

lemma nth_seg: "i < n \<Longrightarrow> seg data a n ! i = data ((a + i) mod RING_BUFFER_SIZE)"
  by (simp add: seg_def)

lemma seg_append: "seg data a (m + n) = seg data a m @ seg data (a + m) n"
  using upt_add_eq_append [of a "a + m" n] by (simp add: seg_def add.assoc)

lemma seg_split: "seg data a n = xs @ ys \<Longrightarrow>
    seg data a (length xs) = xs \<and> seg data (a + length xs) (length ys) = ys"
  using seg_append [of data a "length xs" "length ys"] length_seg [of data a n]
  by (metis append_eq_append_conv length_append length_seg)

lemma wrap_mod:
  assumes "i < RING_BUFFER_SIZE"
  shows "(a + i) mod RING_BUFFER_SIZE =
    (if a mod RING_BUFFER_SIZE + i < RING_BUFFER_SIZE then a mod RING_BUFFER_SIZE + i
     else a mod RING_BUFFER_SIZE + i - RING_BUFFER_SIZE)"
proof -
  let ?o = "a mod RING_BUFFER_SIZE"
  have "?o + i - RING_BUFFER_SIZE < RING_BUFFER_SIZE"
    using assms mod_less_divisor [OF ring_size_pos, of a] by linarith
  then have "(?o + i) mod RING_BUFFER_SIZE =
      (if ?o + i < RING_BUFFER_SIZE then ?o + i else ?o + i - RING_BUFFER_SIZE)"
    by (auto simp: le_mod_geq)
  then show ?thesis
    by (simp add: mod_add_left_eq)
qed

lemma read_wrapped_seg:
  assumes "n \<le> RING_BUFFER_SIZE"
  shows "read_wrapped data a n = seg data a n"
proof (rule nth_equalityI)
  have lt: "a mod RING_BUFFER_SIZE < RING_BUFFER_SIZE" by simp
  show "length (read_wrapped data a n) = length (seg data a n)"
    by (auto simp: read_wrapped_def read_at_def Let_def)
  fix i assume "i < length (read_wrapped data a n)"
  then have i: "i < n"
    by (auto simp: read_wrapped_def read_at_def Let_def split: if_splits)
  then have "(a + i) mod RING_BUFFER_SIZE = (if a mod RING_BUFFER_SIZE + i < RING_BUFFER_SIZE
      then a mod RING_BUFFER_SIZE + i else a mod RING_BUFFER_SIZE + i - RING_BUFFER_SIZE)"
    using assms by (intro wrap_mod) simp
  then show "read_wrapped data a n ! i = seg data a n ! i"
    using i lt assms
    by (auto simp: read_wrapped_def read_at_def Let_def nth_seg nth_append min_def add.commute)
qed

text \<open>One byte of a wrapped write: the last write of a short enough source covers it once.\<close>

lemma write_wrapped_nth:
  assumes "length src \<le> RING_BUFFER_SIZE" and "j < RING_BUFFER_SIZE"
  shows "write_wrapped data a src j =
    (let i = (j + RING_BUFFER_SIZE - a mod RING_BUFFER_SIZE) mod RING_BUFFER_SIZE
     in if i < length src then src ! i else data j)"
proof -
  define off where "off = a mod RING_BUFFER_SIZE"
  have lt: "off < RING_BUFFER_SIZE" by (simp add: off_def)
  have i: "(j + RING_BUFFER_SIZE - off) mod RING_BUFFER_SIZE =
      (if off \<le> j then j - off else j + RING_BUFFER_SIZE - off)"
    using lt assms(2) by (simp add: mod_if)
  show ?thesis
  proof (cases "length src \<le> RING_BUFFER_SIZE - off")
    case True
    then have "write_wrapped data a src = write_at data off src"
      by (auto simp: write_wrapped_def Let_def off_def write_at_def fun_eq_iff)
    with True lt assms(2) show ?thesis
      unfolding off_def [symmetric] i Let_def by (auto simp: write_at_def)
  next
    case False
    let ?n = "RING_BUFFER_SIZE - off"
    have w: "write_wrapped data a src = write_at (write_at data off (take ?n src)) 0 (drop ?n src)"
      using False by (auto simp: write_wrapped_def Let_def off_def)
    have len: "length (drop ?n src) \<le> off" "length (take ?n src) = ?n"
      using False assms(1) lt unfolding length_drop length_take by linarith+
    show ?thesis
    proof (cases "off \<le> j")
      case True
      with len lt assms(2) False show ?thesis
        unfolding w off_def [symmetric] i Let_def by (auto simp: write_at_def)
    next
      case False
      then have "?n + j = j + RING_BUFFER_SIZE - off" using lt by linarith
      with False len show ?thesis
        unfolding w off_def [symmetric] i Let_def by (auto simp: write_at_def nth_drop)
    qed
  qed
qed

lemma offset_back:
  assumes "i < RING_BUFFER_SIZE"
  shows "((a + i) mod RING_BUFFER_SIZE + RING_BUFFER_SIZE - a mod RING_BUFFER_SIZE)
    mod RING_BUFFER_SIZE = i"
proof -
  define off where "off = a mod RING_BUFFER_SIZE"
  have lt: "off < RING_BUFFER_SIZE" by (simp add: off_def)
  have "(a + i) mod RING_BUFFER_SIZE =
      (if off + i < RING_BUFFER_SIZE then off + i else off + i - RING_BUFFER_SIZE)"
    unfolding off_def by (rule wrap_mod [OF assms])
  moreover have "off + i + RING_BUFFER_SIZE - off = i + RING_BUFFER_SIZE"
    by simp
  ultimately show ?thesis
    using lt assms by (auto simp: off_def [symmetric])
qed

lemma seg_write_self:
  assumes "length src \<le> RING_BUFFER_SIZE"
  shows "seg (write_wrapped data a src) a (length src) = src"
  using assms
  by (intro nth_equalityI) (simp_all add: nth_seg write_wrapped_nth offset_back Let_def)

lemma seg_write_other:
  assumes "b + n \<le> a" and "a + length src \<le> b + RING_BUFFER_SIZE"
  shows "seg (write_wrapped data a src) b n = seg data b n"
proof (rule nth_equalityI; simp add: nth_seg)
  fix i assume "i < n"
  define d where "d = a - (b + i)"
  have d: "0 < d" "b + i + d = a" "length src + d \<le> RING_BUFFER_SIZE"
    using \<open>i < n\<close> assms by (simp_all add: d_def)
  then have lt: "RING_BUFFER_SIZE - d < RING_BUFFER_SIZE" and "d \<le> RING_BUFFER_SIZE"
    by simp_all
  then have "a + (RING_BUFFER_SIZE - d) = b + i + RING_BUFFER_SIZE"
    using d(2) by linarith
  then have "(b + i) mod RING_BUFFER_SIZE = (a + (RING_BUFFER_SIZE - d)) mod RING_BUFFER_SIZE"
    by simp
  then have "((b + i) mod RING_BUFFER_SIZE + RING_BUFFER_SIZE - a mod RING_BUFFER_SIZE)
      mod RING_BUFFER_SIZE = RING_BUFFER_SIZE - d"
    using offset_back [OF lt, of a] by simp
  then show "write_wrapped data a src ((b + i) mod RING_BUFFER_SIZE) = data ((b + i) mod RING_BUFFER_SIZE)"
    using d(3) by (simp add: write_wrapped_nth Let_def) linarith
qed

section \<open>The frames in the ring\<close>

definition frame_bytes :: "bytes \<Rightarrow> bytes" where
  "frame_bytes f = be_bytes 4 (of_nat (length f) :: u32) @ f"

lemma length_frame_bytes [simp]: "length (frame_bytes f) = 4 + length f"
  by (simp add: frame_bytes_def)

definition ring_bytes :: "bytes list \<Rightarrow> bytes" where
  "ring_bytes fs = concat (map frame_bytes fs)"

lemma ring_bytes_simps [simp]:
  "ring_bytes [] = []" "ring_bytes (f # fs) = frame_bytes f @ ring_bytes fs"
  "ring_bytes (fs @ gs) = ring_bytes fs @ ring_bytes gs"
  by (simp_all add: ring_bytes_def)

text \<open>
  \<open>ring_holds r fs\<close>: the bytes between the two counters are the frames \<open>fs\<close>, oldest
  first, and do not overrun the buffer.
\<close>

definition ring_holds :: "ring \<Rightarrow> bytes list \<Rightarrow> bool" where
  "ring_holds r fs \<longleftrightarrow>
     unat (ring_head r) = unat (ring_tail r) + length (ring_bytes fs) \<and>
     length (ring_bytes fs) \<le> RING_BUFFER_SIZE \<and>
     seg (ring_data r) (unat (ring_tail r)) (length (ring_bytes fs)) = ring_bytes fs"

definition ring_has_room :: "ring \<Rightarrow> bytes list \<Rightarrow> bytes \<Rightarrow> bool" where
  "ring_has_room r fs f \<longleftrightarrow> length (ring_bytes fs) + 4 + length f \<le> RING_BUFFER_SIZE"

lemma ring_size_small: "RING_BUFFER_SIZE < 4294967296"
  by (simp add: RING_BUFFER_SIZE_def)

lemma push_frame_room:
  assumes holds: "ring_holds r fs" and room: "ring_has_room r fs f"
    and life: "unat (ring_head r) + 4 + length f < 2 ^ 64"
  obtains r' where "push_frame f r = Some (Inr (), r')" and "ring_holds r' (fs @ [f])"
    and "unat (ring_head r') = unat (ring_head r) + 4 + length f" and "ring_tail r' = ring_tail r"
proof -
  let ?t = "unat (ring_tail r)"
  let ?h = "unat (ring_head r)"
  let ?n = "length (ring_bytes fs)"
  let ?prefix = "be_bytes 4 (of_nat (length f) :: u32)"
  let ?d1 = "write_wrapped (ring_data r) ?h ?prefix"
  let ?d2 = "write_wrapped ?d1 (?h + 4) f"
  let ?r = "r\<lparr>ring_data := ?d2, ring_head := of_nat (?h + (4 + length f))\<rparr>"
  have h: "?h = ?t + ?n" and n: "?n + 4 + length f \<le> RING_BUFFER_SIZE"
    and old: "seg (ring_data r) ?t ?n = ring_bytes fs"
    using holds room by (simp_all add: ring_holds_def ring_has_room_def)
  then have small: "\<not> length f > 4294967295"
    using ring_size_small by linarith
  have push: "push_frame f r = Some (Inr (), ?r)"
    using small n life h
    by (simp add: push_frame_def Let_def checked_sub_def checked_add64_def)
  have "unat (of_nat (?h + (4 + length f)) :: u64) = ?h + (4 + length f)"
    using life by (intro unat_of_nat_u64) simp
  moreover have "ring_head ?r = of_nat (?h + (4 + length f))"
    by simp
  ultimately have head: "unat (ring_head ?r) = ?h + 4 + length f"
    by (simp only: add.assoc)
  have d1: "seg ?d1 ?t ?n = ring_bytes fs"
    using old n by (subst seg_write_other) (simp_all add: h)
  have "seg ?d2 ?t ?n = ring_bytes fs"
    using d1 n by (subst seg_write_other) (simp_all add: h)
  moreover have "seg ?d2 ?h 4 = ?prefix"
    using n seg_write_self [of ?prefix "ring_data r" ?h] by (subst seg_write_other) simp_all
  moreover have "seg ?d2 (?h + 4) (length f) = f"
    using n by (intro seg_write_self) simp
  ultimately have "seg ?d2 ?t (?n + (4 + length f)) = ring_bytes fs @ ?prefix @ f"
    by (simp add: seg_append h add.assoc)
  then have "ring_holds ?r (fs @ [f])"
    using n head by (simp add: ring_holds_def h frame_bytes_def)
  then show thesis
    using that [OF push _ head] by simp
qed

lemma push_frame_no_room:
  assumes "ring_holds r fs" and "\<not> ring_has_room r fs f"
  shows "push_frame f r = Some (Inl (if length f > 4294967295
       then FrameTooLarge (length f) 4294967295
       else Full (4 + length f) (RING_BUFFER_SIZE - length (ring_bytes fs))), r)"
  using assms
  by (auto simp: push_frame_def Let_def checked_sub_def ring_holds_def ring_has_room_def)

lemma pop_frame_empty: "ring_holds r [] \<Longrightarrow> pop_frame max_len r = Some (Inr None, r)"
  by (simp add: pop_frame_def Let_def checked_sub_def ring_holds_def)

lemma pop_frame_front:
  assumes holds: "ring_holds r (f # fs)"
  obtains (too_long) "length f > max_len"
      "pop_frame max_len r = Some (Inl (FrameTooLarge (length f) max_len), r)"
  | (frame) r' where "length f \<le> max_len" "pop_frame max_len r = Some (Inr (Some f), r')"
      "ring_holds r' fs" "ring_head r' = ring_head r"
      "unat (ring_tail r') = unat (ring_tail r) + 4 + length f"
proof -
  let ?t = "unat (ring_tail r)"
  let ?h = "unat (ring_head r)"
  let ?prefix = "be_bytes 4 (of_nat (length f) :: u32)"
  have h: "?h = ?t + (4 + length f + length (ring_bytes fs))"
    and n: "4 + length f + length (ring_bytes fs) \<le> RING_BUFFER_SIZE"
    and all: "seg (ring_data r) ?t (4 + length f + length (ring_bytes fs)) =
      ?prefix @ f @ ring_bytes fs"
    using holds by (simp_all add: ring_holds_def frame_bytes_def add.assoc)
  have pre: "seg (ring_data r) ?t 4 = ?prefix"
    and rest: "seg (ring_data r) (?t + 4) (length (f @ ring_bytes fs)) = f @ ring_bytes fs"
    using seg_split [OF all] by simp_all
  have frame: "seg (ring_data r) (?t + 4) (length f) = f"
    and tail: "seg (ring_data r) (?t + 4 + length f) (length (ring_bytes fs)) = ring_bytes fs"
    using seg_split [OF rest] by simp_all
  have len: "length f < 4294967296"
    using n ring_size_small by linarith
  then have word: "unat (be_word ?prefix :: u32) = length f"
    by (simp add: be_word_be_bytes)
  have r1: "read_wrapped (ring_data r) ?t 4 = ?prefix"
    using n pre by (simp add: read_wrapped_seg)
  have r2: "read_wrapped (ring_data r) (?t + 4) (length f) = f"
    using n frame by (simp add: read_wrapped_seg)
  have life: "?t + (4 + length f) < 2 ^ 64"
    using unat_less_2p64 [of "ring_head r"] h by simp
  let ?r = "r\<lparr>ring_tail := of_nat (?t + (4 + length f))\<rparr>"
  show thesis
  proof (cases "length f > max_len")
    case True
    then show thesis
      using h by (intro too_long)
        (simp_all add: pop_frame_def Let_def checked_sub_def r1 word)
  next
    case False
    have "unat (of_nat (?t + (4 + length f)) :: u64) = ?t + (4 + length f)"
      using life by (intro unat_of_nat_u64) simp
    moreover have "ring_tail ?r = of_nat (?t + (4 + length f))"
      by simp
    ultimately have tail': "unat (ring_tail ?r) = ?t + (4 + length f)"
      by (simp only:)
    have "pop_frame max_len r = Some (Inr (Some f), ?r)"
      using False h life
      by (simp add: pop_frame_def Let_def checked_sub_def checked_add64_def r1 r2 word)
    moreover have "ring_holds ?r fs"
      using h n tail tail' by (simp add: ring_holds_def add.assoc)
    ultimately show thesis
      using False tail' that(2) [of ?r] by simp
  qed
qed

end
