(* ===== verification/Ring_Channel.thy ===== *)
theory Ring_Channel imports Mapped_Ring begin

text \<open>
  What the shared-memory ring promises the two drivers' backends that use it: a bounded
  FIFO channel of frames. The contract is the locale \<open>frame_channel\<close>; its consequences for
  arbitrary sequences of sends and receives are proved inside it and applied to the ring
  of \<open>daemon/src/mapped_ring.rs\<close>.
\<close>

section \<open>The contract of a frame channel\<close>

datatype channel_op = Send bytes | Recv nat

locale frame_channel =
  fixes holds :: "'s \<Rightarrow> bytes list \<Rightarrow> bool" and room :: "'s \<Rightarrow> bytes list \<Rightarrow> bytes \<Rightarrow> bool"
    and spent :: "'s \<Rightarrow> nat"
    and push :: "bytes \<Rightarrow> 's \<Rightarrow> (('e + unit) \<times> 's) option"
    and pop :: "nat \<Rightarrow> 's \<Rightarrow> (('e + bytes option) \<times> 's) option"
  assumes push_room: "holds s fs \<Longrightarrow> room s fs f \<Longrightarrow> spent s + 4 + length f < 2 ^ 64 \<Longrightarrow>
      \<exists>s'. push f s = Some (Inr (), s') \<and> holds s' (fs @ [f]) \<and> spent s' = spent s + 4 + length f"
    and push_no_room: "holds s fs \<Longrightarrow> \<not> room s fs f \<Longrightarrow> \<exists>e. push f s = Some (Inl e, s)"
    and pop_empty: "holds s [] \<Longrightarrow> pop n s = Some (Inr None, s)"
    and pop_fits: "holds s (f # fs) \<Longrightarrow> length f \<le> n \<Longrightarrow>
      \<exists>s'. pop n s = Some (Inr (Some f), s') \<and> holds s' fs \<and> spent s' = spent s"
    and pop_long: "holds s (f # fs) \<Longrightarrow> n < length f \<Longrightarrow> \<exists>e. pop n s = Some (Inl e, s)"
begin

fun run :: "channel_op list \<Rightarrow> 's \<Rightarrow> (bytes list \<times> bytes list \<times> 's) option" where
  "run [] s = Some ([], [], s)"
| "run (Send f # ops) s =
     Option.bind (push f s) (\<lambda>(r, s'). Option.bind (run ops s') (\<lambda>(sent, got, s'').
       Some (case r of Inl _ \<Rightarrow> (sent, got, s'') | Inr _ \<Rightarrow> (f # sent, got, s''))))"
| "run (Recv n # ops) s =
     Option.bind (pop n s) (\<lambda>(r, s'). Option.bind (run ops s') (\<lambda>(sent, got, s'').
       Some (case r of Inr (Some f) \<Rightarrow> (sent, f # got, s'') | _ \<Rightarrow> (sent, got, s''))))"

definition send_bytes :: "channel_op list \<Rightarrow> nat" where
  "send_bytes ops = sum_list (map (\<lambda>op. case op of Send f \<Rightarrow> 4 + length f | Recv _ \<Rightarrow> 0) ops)"

text \<open>
  Every run that does not send \<open>2 ^ 64\<close> bytes ends without a panic, and what was received
  followed by what is still in the channel is what it held before followed by what was sent.
\<close>

lemma run_fifo:
  assumes "holds s fs" and "spent s + send_bytes ops < 2 ^ 64"
  shows "\<exists>sent got s' fs'. run ops s = Some (sent, got, s') \<and> holds s' fs' \<and> fs @ sent = got @ fs'"
  using assms
proof (induction ops arbitrary: s fs)
  case Nil
  then show ?case by auto
next
  case (Cons op ops)
  show ?case
  proof (cases op)
    case (Send f)
    show ?thesis
    proof (cases "room s fs f")
      case True
      moreover have "spent s + 4 + length f < 2 ^ 64"
        using Cons.prems(2) by (simp add: Send send_bytes_def)
      ultimately obtain s1 where p: "push f s = Some (Inr (), s1)" "holds s1 (fs @ [f])"
        and sp: "spent s1 = spent s + 4 + length f"
        using push_room Cons.prems(1) by blast
      then have "spent s1 + send_bytes ops < 2 ^ 64"
        using Cons.prems(2) by (simp add: Send send_bytes_def)
      from Cons.IH [OF p(2) this] show ?thesis
        by (auto simp: Send p(1))
    next
      case False
      then obtain e where p: "push f s = Some (Inl e, s)"
        using push_no_room Cons.prems(1) by blast
      have "spent s + send_bytes ops < 2 ^ 64"
        using Cons.prems(2) by (simp add: Send send_bytes_def)
      from Cons.IH [OF Cons.prems(1) this] show ?thesis
        by (auto simp: Send p)
    qed
  next
    case (Recv n)
    have sp: "spent s + send_bytes ops < 2 ^ 64"
      using Cons.prems(2) by (simp add: Recv send_bytes_def)
    show ?thesis
    proof (cases fs)
      case Nil
      then show ?thesis
        using Cons.IH [OF Cons.prems(1) sp] pop_empty [of s n] Cons.prems(1)
        by (auto simp: Recv)
    next
      case (Cons f fs1)
      show ?thesis
      proof (cases "length f \<le> n")
        case True
        then obtain s1 where p: "pop n s = Some (Inr (Some f), s1)" "holds s1 fs1" "spent s1 = spent s"
          using pop_fits Cons.prems(1) Cons by blast
        then show ?thesis
          using Cons.IH [OF p(2)] sp by (auto simp: Recv Cons)
      next
        case False
        then obtain e where "pop n s = Some (Inl e, s)"
          using pop_long Cons.prems(1) Cons by (metis not_le)
        then show ?thesis
          using Cons.IH [OF Cons.prems(1) sp] by (auto simp: Recv)
      qed
    qed
  qed
qed

text \<open>
  A frame longer than the receiver takes blocks the channel: receiving any number of times
  gets nothing, whatever stands behind it.
\<close>

lemma recv_blocked:
  assumes "holds s (f # fs)" and "n < length f"
  shows "run (replicate k (Recv n)) s = Some ([], [], s)"
proof -
  obtain e where "pop n s = Some (Inl e, s)"
    using pop_long assms by blast
  then show ?thesis by (induction k) simp_all
qed

text \<open>A channel is emptied by as many receives as it holds frames.\<close>

lemma recv_all:
  assumes "holds s fs" and "\<And>f. f \<in> set fs \<Longrightarrow> length f \<le> n"
  shows "\<exists>s'. run (replicate (length fs) (Recv n)) s = Some ([], fs, s') \<and> holds s' []"
  using assms
proof (induction fs arbitrary: s)
  case (Cons f fs)
  then obtain s1 where p: "pop n s = Some (Inr (Some f), s1)" "holds s1 fs"
    using pop_fits by (metis list.set_intros(1))
  then show ?case
    using Cons.IH [OF p(2)] Cons.prems(2) by auto
qed auto

end

section \<open>The ring is a frame channel\<close>

interpretation ring: frame_channel ring_holds ring_has_room "\<lambda>r. unat (ring_head r)"
  push_frame pop_frame
proof
  fix r fs f n
  assume holds: "ring_holds r fs"
  show "\<exists>r'. push_frame f r = Some (Inr (), r') \<and> ring_holds r' (fs @ [f]) \<and>
      unat (ring_head r') = unat (ring_head r) + 4 + length f"
    if "ring_has_room r fs f" "unat (ring_head r) + 4 + length f < 2 ^ 64"
    using push_frame_room [OF holds that] by metis
  show "\<exists>e. push_frame f r = Some (Inl e, r)" if "\<not> ring_has_room r fs f"
    using push_frame_no_room [OF holds that] by blast
next
  fix r n
  assume "ring_holds r []"
  then show "pop_frame n r = Some (Inr None, r)"
    by (rule pop_frame_empty)
next
  fix r f fs n
  assume holds: "ring_holds r (f # fs)"
  show "\<exists>r'. pop_frame n r = Some (Inr (Some f), r') \<and> ring_holds r' fs \<and>
      unat (ring_head r') = unat (ring_head r)" if "length f \<le> n"
    using that by (cases rule: pop_frame_front [OF holds, of n]) auto
  show "\<exists>e. pop_frame n r = Some (Inl e, r)" if "n < length f"
    using that by (cases rule: pop_frame_front [OF holds, of n]) auto
qed

section \<open>Properties\<close>

definition ring_empty :: ring where
  "ring_empty = \<lparr>ring_head = 0, ring_tail = 0, ring_data = (\<lambda>_. 0)\<rparr>"

lemma ring_empty_holds [simp]: "ring_holds ring_empty []"
  by (simp add: ring_holds_def ring_empty_def seg_def)

text \<open>
  A run of sends and receives on the ring: the frames that were accepted, the frames that
  were received, and the ring at the end; \<open>None\<close> when an operation panics.
\<close>

fun ring_run :: "channel_op list \<Rightarrow> ring \<Rightarrow> (bytes list \<times> bytes list \<times> ring) option" where
  "ring_run [] r = Some ([], [], r)"
| "ring_run (Send f # ops) r =
     Option.bind (push_frame f r) (\<lambda>(res, r'). Option.bind (ring_run ops r') (\<lambda>(sent, got, r'').
       Some (case res of Inl _ \<Rightarrow> (sent, got, r'') | Inr _ \<Rightarrow> (f # sent, got, r''))))"
| "ring_run (Recv n # ops) r =
     Option.bind (pop_frame n r) (\<lambda>(res, r'). Option.bind (ring_run ops r') (\<lambda>(sent, got, r'').
       Some (case res of Inr (Some f) \<Rightarrow> (sent, f # got, r'') | _ \<Rightarrow> (sent, got, r''))))"

definition bytes_to_send :: "channel_op list \<Rightarrow> nat" where
  "bytes_to_send ops = sum_list (map (\<lambda>op. case op of Send f \<Rightarrow> 4 + length f | Recv _ \<Rightarrow> 0) ops)"

lemma ring_run_eq: "ring_run ops r = ring.run ops r"
proof (induction ops arbitrary: r)
  case (Cons op ops)
  then show ?case by (cases op) simp_all
qed simp

lemma bytes_to_send_eq: "bytes_to_send ops = ring.send_bytes ops"
  by (simp add: bytes_to_send_def ring.send_bytes_def)

text \<open>
  C19: the ring is a reliable FIFO: whatever frames are pushed and popped in whatever order,
  with wrap-around at the end of the buffer, no operation panics, the frames popped are a
  prefix of the frames accepted, unchanged and in order, and the rest is still in the ring
  (as long as fewer than \<open>2 ^ 64\<close> bytes are sent in total, which its counters can count).
\<close>

theorem ring_reliable_fifo:
  assumes "bytes_to_send ops < 2 ^ 64"
  shows "\<exists>sent got r rest. ring_run ops ring_empty = Some (sent, got, r) \<and> sent = got @ rest \<and>
    ring_holds r rest"
  using ring.run_fifo [OF ring_empty_holds, of ops] assms
  by (simp add: ring_run_eq bytes_to_send_eq ring_empty_def) metis

theorem ring_reliable_fifo_witness:
  "\<exists>sent got r rest. ring_run [Send [1, 2], Send [], Recv 8, Send [3], Recv 1] ring_empty =
      Some (sent, got, r) \<and> sent = got @ rest \<and> ring_holds r rest"
  by (rule ring_reliable_fifo) (simp add: bytes_to_send_def)

text \<open>
  C37: the ring loses no space: a frame is refused exactly when its bytes and its prefix do
  not fit beside the frames the ring holds, the refusal names the space that is left, and
  the ring stays as it is.
\<close>

theorem push_refused_iff_full:
  assumes "ring_holds r fs" and "unat (ring_head r) + 4 + length f < 2 ^ 64"
    and "length f \<le> 4294967295"
  shows "push_frame f r = Some (Inl (Full (4 + length f) (RING_BUFFER_SIZE - length (ring_bytes fs))), r)
      \<longleftrightarrow> length (ring_bytes fs) + 4 + length f > RING_BUFFER_SIZE"
proof (cases "ring_has_room r fs f")
  case True
  then obtain r' where "push_frame f r = Some (Inr (), r')"
    using push_frame_room [OF assms(1) _ assms(2)] by metis
  then show ?thesis using True by (simp add: ring_has_room_def)
next
  case False
  then show ?thesis
    using push_frame_no_room [OF assms(1), of f] assms(3) by (simp add: ring_has_room_def)
qed

theorem push_refused_iff_full_witness:
  "push_frame (replicate (1024 * 1024) 0) ring_empty =
     Some (Inl (Full (4 + 1024 * 1024) (1024 * 1024)), ring_empty)"
  using push_refused_iff_full [OF ring_empty_holds, of "replicate (1024 * 1024) 0"]
  by (simp add: ring_empty_def RING_BUFFER_SIZE_def)

text \<open>
  C38: a frame longer than the reader's limit blocks the ring for good: every further pop
  fails on the same frame and leaves the ring as it is, so the frames behind it are never
  read.
\<close>

theorem long_frame_blocks_ring:
  assumes "ring_holds r (f # fs)" and "max_len < length f"
  shows "pop_frame max_len r = Some (Inl (FrameTooLarge (length f) max_len), r) \<and>
    ring_run (replicate k (Recv max_len)) r = Some ([], [], r)"
proof
  show "pop_frame max_len r = Some (Inl (FrameTooLarge (length f) max_len), r)"
    using assms(2) by (cases rule: pop_frame_front [OF assms(1), of max_len]) auto
  show "ring_run (replicate k (Recv max_len)) r = Some ([], [], r)"
    using ring.recv_blocked [OF assms] by (simp add: ring_run_eq)
qed

theorem long_frame_blocks_ring_witness:
  "\<exists>r r'. push_frame [1, 2, 3] ring_empty = Some (Inr (), r) \<and> push_frame [4] r = Some (Inr (), r') \<and>
     pop_frame 2 r' = Some (Inl (FrameTooLarge 3 2), r') \<and>
     ring_run [Recv 2, Recv 2, Recv 2] r' = Some ([], [], r')"
proof -
  have room: "ring_has_room ring_empty [] [1, 2, 3]"
    by (simp add: ring_has_room_def RING_BUFFER_SIZE_def)
  obtain r where r: "push_frame [1, 2, 3] ring_empty = Some (Inr (), r)"
    "ring_holds r [[1, 2, 3]]" "unat (ring_head r) = 7"
    by (rule push_frame_room [OF ring_empty_holds room]) (simp_all add: ring_empty_def)
  have "ring_has_room r [[1, 2, 3]] [4]"
    by (simp add: ring_has_room_def RING_BUFFER_SIZE_def)
  then obtain r' where r': "push_frame [4] r = Some (Inr (), r')" "ring_holds r' ([[1, 2, 3]] @ [[4]])"
    using push_frame_room [OF r(2), of "[4]"] r(3) by auto
  have "ring_holds r' ([1, 2, 3] # [[4]])"
    using r'(2) by simp
  then show ?thesis
    using long_frame_blocks_ring [of r' "[1, 2, 3]" "[[4]]" 2 3] r(1) r'(1)
    by (intro exI [of _ r] exI [of _ r']) (simp add: numeral_3_eq_3)
qed

end
