(* ===== verification/Ring_Concurrency.thy ===== *)
theory Ring_Concurrency imports Ring_Channel begin

text \<open>
  The ring with its two sides running concurrently. \<open>push_frame\<close> and \<open>pop_frame\<close> touch
  the shared memory in four actions each (the loads of the counters with the checks, the
  accesses to the prefix and to the frame, the store of the own counter), and the actions
  of the one producer and the one consumer interleave arbitrarily. The release stores and
  acquire loads of the code make every write to the data visible before the counter that
  publishes it, which is the order the steps have here. The invariant carries the two
  promises: nothing is lost, reordered or torn, and the two sides never touch the same byte.
\<close>

datatype producer = PIdle | PPrefix bytes nat | PBody bytes nat | PPublish bytes nat

datatype consumer = CIdle | CPrefix nat nat | CBody nat | CPublish bytes

text \<open>
  \<open>sp_sent\<close> and \<open>sp_got\<close> record the frames published so far and the frames taken so far.
\<close>

record spsc =
  sp_ring :: ring
  sp_prod :: producer
  sp_cons :: consumer
  sp_sent :: "bytes list"
  sp_got :: "bytes list"

abbreviation sp_head :: "spsc \<Rightarrow> nat" where "sp_head c \<equiv> unat (ring_head (sp_ring c))"
abbreviation sp_tail :: "spsc \<Rightarrow> nat" where "sp_tail c \<equiv> unat (ring_tail (sp_ring c))"
abbreviation sp_data :: "spsc \<Rightarrow> nat \<Rightarrow> u8" where "sp_data c \<equiv> ring_data (sp_ring c)"

inductive spsc_step :: "spsc \<Rightarrow> spsc \<Rightarrow> bool" where
  push_load: "spsc_step c (c\<lparr>sp_prod := PPrefix f (sp_head c)\<rparr>)"
    if "sp_prod c = PIdle" "length f \<le> 4294967295"
      "checked_sub (sp_head c) (sp_tail c) = Some used"
      "checked_sub RING_BUFFER_SIZE used = Some space" "FRAME_PREFIX_LEN + length f \<le> space"
| push_prefix: "spsc_step c (c\<lparr>sp_ring := (sp_ring c)\<lparr>ring_data :=
      write_wrapped (sp_data c) h (be_bytes 4 (of_nat (length f) :: u32))\<rparr>, sp_prod := PBody f h\<rparr>)"
    if "sp_prod c = PPrefix f h"
| push_body: "spsc_step c (c\<lparr>sp_ring := (sp_ring c)\<lparr>ring_data := write_wrapped (sp_data c) offset f\<rparr>,
      sp_prod := PPublish f h\<rparr>)"
    if "sp_prod c = PBody f h" "checked_add64 h FRAME_PREFIX_LEN = Some offset"
| push_publish: "spsc_step c (c\<lparr>sp_ring := (sp_ring c)\<lparr>ring_head := of_nat h'\<rparr>, sp_prod := PIdle,
      sp_sent := sp_sent c @ [f]\<rparr>)"
    if "sp_prod c = PPublish f h" "checked_add64 h (FRAME_PREFIX_LEN + length f) = Some h'"
| pop_load: "spsc_step c (c\<lparr>sp_cons := CPrefix limit avail\<rparr>)"
    if "sp_cons c = CIdle" "checked_sub (sp_head c) (sp_tail c) = Some avail"
      "FRAME_PREFIX_LEN \<le> avail"
| pop_prefix: "spsc_step c (c\<lparr>sp_cons :=
      if n > limit \<or> avail < FRAME_PREFIX_LEN + n then CIdle else CBody n\<rparr>)"
    if "sp_cons c = CPrefix limit avail"
      "n = unat (be_word (read_wrapped (sp_data c) (sp_tail c) FRAME_PREFIX_LEN) :: u32)"
| pop_body: "spsc_step c (c\<lparr>sp_cons := CPublish (read_wrapped (sp_data c) offset n)\<rparr>)"
    if "sp_cons c = CBody n" "checked_add64 (sp_tail c) FRAME_PREFIX_LEN = Some offset"
| pop_publish: "spsc_step c (c\<lparr>sp_ring := (sp_ring c)\<lparr>ring_tail := of_nat t'\<rparr>, sp_cons := CIdle,
      sp_got := sp_got c @ [f]\<rparr>)"
    if "sp_cons c = CPublish f" "checked_add64 (sp_tail c) (FRAME_PREFIX_LEN + length f) = Some t'"

definition spsc_init :: spsc where
  "spsc_init = \<lparr>sp_ring = ring_empty, sp_prod = PIdle, sp_cons = CIdle, sp_sent = [], sp_got = []\<rparr>"

inductive spsc_reachable :: "spsc \<Rightarrow> bool" where
  init: "spsc_reachable spsc_init"
| step: "spsc_reachable c \<Longrightarrow> spsc_step c c' \<Longrightarrow> spsc_reachable c'"

section \<open>The invariant\<close>

definition producer_ok :: "spsc \<Rightarrow> bool" where
  "producer_ok c =
     (case sp_prod c of
        PIdle \<Rightarrow> True
      | PPrefix f h \<Rightarrow> h = sp_head c \<and> h + 4 + length f \<le> sp_tail c + RING_BUFFER_SIZE
      | PBody f h \<Rightarrow> h = sp_head c \<and> h + 4 + length f \<le> sp_tail c + RING_BUFFER_SIZE \<and>
          seg (sp_data c) h 4 = be_bytes 4 (of_nat (length f) :: u32)
      | PPublish f h \<Rightarrow> h = sp_head c \<and> h + 4 + length f \<le> sp_tail c + RING_BUFFER_SIZE \<and>
          seg (sp_data c) h (4 + length f) = frame_bytes f)"

definition consumer_ok :: "spsc \<Rightarrow> bytes list \<Rightarrow> bool" where
  "consumer_ok c fs =
     (case sp_cons c of
        CIdle \<Rightarrow> True
      | CPrefix limit avail \<Rightarrow> 4 \<le> avail \<and> (\<exists>seen rest. fs = seen @ rest \<and> avail = length (ring_bytes seen))
      | CBody n \<Rightarrow> (\<exists>f rest. fs = f # rest \<and> n = length f)
      | CPublish f \<Rightarrow> (\<exists>rest. fs = f # rest))"

definition spsc_inv :: "spsc \<Rightarrow> bytes list \<Rightarrow> bool" where
  "spsc_inv c fs \<longleftrightarrow>
     ring_holds (sp_ring c) fs \<and> sp_sent c = sp_got c @ fs \<and> producer_ok c \<and> consumer_ok c fs"

lemma checked_sub_Some [simp]: "checked_sub a b = Some d \<longleftrightarrow> b \<le> a \<and> d = a - b"
  by (auto simp: checked_sub_def)

lemma checked_add64_Some [simp]: "checked_add64 a b = Some d \<longleftrightarrow> a + b < 2 ^ 64 \<and> d = a + b"
  by (auto simp: checked_add64_def)

lemma side_simps [simp]:
  "producer_ok (c\<lparr>sp_cons := x\<rparr>) = producer_ok c"
  "producer_ok (c\<lparr>sp_got := gs\<rparr>) = producer_ok c"
  "consumer_ok (c\<lparr>sp_prod := p\<rparr>) fs = consumer_ok c fs"
  "consumer_ok (c\<lparr>sp_ring := r\<rparr>) fs = consumer_ok c fs"
  "consumer_ok (c\<lparr>sp_sent := gs\<rparr>) fs = consumer_ok c fs"
  "consumer_ok (c\<lparr>sp_got := gs\<rparr>) fs = consumer_ok c fs"
  by (simp_all add: producer_ok_def consumer_ok_def split: producer.split consumer.split)

text \<open>A write of the producer beyond the head leaves the frames in the ring as they are.\<close>

lemma ring_holds_write:
  assumes "ring_holds r fs" and "unat (ring_head r) \<le> a"
    and "a + length src \<le> unat (ring_tail r) + RING_BUFFER_SIZE"
  shows "ring_holds (r\<lparr>ring_data := write_wrapped (ring_data r) a src\<rparr>) fs"
  using assms by (simp add: ring_holds_def seg_write_other)

lemma ring_holds_prefix:
  assumes "ring_holds r (f # fs)"
  shows "read_wrapped (ring_data r) (unat (ring_tail r)) 4 = be_bytes 4 (of_nat (length f) :: u32)"
    and "read_wrapped (ring_data r) (unat (ring_tail r) + 4) (length f) = f"
    and "length f < 4294967296"
    and "seg (ring_data r) (unat (ring_tail r) + 4 + length f) (length (ring_bytes fs)) = ring_bytes fs"
proof -
  let ?t = "unat (ring_tail r)"
  have n: "4 + length f + length (ring_bytes fs) \<le> RING_BUFFER_SIZE"
    and all: "seg (ring_data r) ?t (4 + length f + length (ring_bytes fs)) =
      be_bytes 4 (of_nat (length f) :: u32) @ f @ ring_bytes fs"
    using assms by (simp_all add: ring_holds_def frame_bytes_def add.assoc)
  have rest: "seg (ring_data r) (?t + 4) (length (f @ ring_bytes fs)) = f @ ring_bytes fs"
    and pre: "seg (ring_data r) ?t 4 = be_bytes 4 (of_nat (length f) :: u32)"
    using seg_split [OF all] by simp_all
  then show "read_wrapped (ring_data r) ?t 4 = be_bytes 4 (of_nat (length f) :: u32)"
    using n by (simp add: read_wrapped_seg)
  show "read_wrapped (ring_data r) (?t + 4) (length f) = f"
    using n seg_split [OF rest] by (simp add: read_wrapped_seg)
  show "length f < 4294967296"
    using n ring_size_small by linarith
  show "seg (ring_data r) (?t + 4 + length f) (length (ring_bytes fs)) = ring_bytes fs"
    using seg_split [OF rest] by simp
qed

lemma consumer_ok_append: "consumer_ok c fs \<Longrightarrow> consumer_ok c (fs @ [f])"
  by (auto simp: consumer_ok_def split: consumer.splits) blast

lemma unat_counter: "n < 2 ^ 64 \<Longrightarrow> unat (of_nat n :: u64) = n"
  by (rule unat_of_nat_u64) simp

lemma spsc_step_inv:
  assumes "spsc_step c c'" and inv: "spsc_inv c fs"
  shows "\<exists>fs'. spsc_inv c' fs'"
  using assms(1)
proof cases
  case (push_load f used space)
  then have "sp_head c + 4 + length f \<le> sp_tail c + RING_BUFFER_SIZE" by auto
  then have "spsc_inv c' fs"
    using inv push_load by (simp add: spsc_inv_def producer_ok_def consumer_ok_def)
  then show ?thesis by blast
next
  case (push_prefix f h)
  then have h: "h = sp_head c" "h + 4 + length f \<le> sp_tail c + RING_BUFFER_SIZE"
    using inv by (simp_all add: spsc_inv_def producer_ok_def)
  have "seg (write_wrapped (sp_data c) h (be_bytes 4 (of_nat (length f) :: u32))) h 4 =
      be_bytes 4 (of_nat (length f) :: u32)"
    using seg_write_self [of "be_bytes 4 (of_nat (length f) :: u32)" "sp_data c" h]
    by (simp add: RING_BUFFER_SIZE_def)
  then have "spsc_inv c' fs"
    using inv h push_prefix
    by (simp add: spsc_inv_def producer_ok_def consumer_ok_def ring_holds_write)
  then show ?thesis by blast
next
  case (push_body f h offset)
  then have h: "h = sp_head c" "h + 4 + length f \<le> sp_tail c + RING_BUFFER_SIZE"
    and pre: "seg (sp_data c) h 4 = be_bytes 4 (of_nat (length f) :: u32)"
    and offset: "offset = h + 4"
    using inv by (auto simp: spsc_inv_def producer_ok_def)
  have "sp_tail c \<le> h"
    using inv by (simp add: spsc_inv_def ring_holds_def h)
  then have fit: "4 + length f \<le> RING_BUFFER_SIZE" if "sp_tail c = h"
    using h that by simp
  have len: "length f \<le> RING_BUFFER_SIZE"
    using h \<open>sp_tail c \<le> h\<close> by linarith
  have "seg (write_wrapped (sp_data c) (h + 4) f) h 4 = seg (sp_data c) h 4"
    using h \<open>sp_tail c \<le> h\<close> by (intro seg_write_other) linarith+
  moreover have "seg (write_wrapped (sp_data c) (h + 4) f) (h + 4) (length f) = f"
    using len by (rule seg_write_self)
  ultimately have "seg (write_wrapped (sp_data c) (h + 4) f) h (4 + length f) = frame_bytes f"
    by (simp add: seg_append pre frame_bytes_def)
  then have "spsc_inv c' fs"
    using inv h push_body offset
    by (simp add: spsc_inv_def producer_ok_def consumer_ok_def ring_holds_write)
  then show ?thesis by blast
next
  case (push_publish f h h')
  then have h: "h = sp_head c" "h + 4 + length f \<le> sp_tail c + RING_BUFFER_SIZE"
    and new: "seg (sp_data c) h (4 + length f) = frame_bytes f"
    and h': "h' = h + (4 + length f)" "h' < 2 ^ 64"
    using inv by (auto simp: spsc_inv_def producer_ok_def)
  have head: "unat (of_nat h' :: u64) = h + (4 + length f)"
    using unat_counter [OF h'(2)] h'(1) by simp
  have old: "sp_head c = sp_tail c + length (ring_bytes fs)"
    "seg (sp_data c) (sp_tail c) (length (ring_bytes fs)) = ring_bytes fs"
    using inv by (simp_all add: spsc_inv_def ring_holds_def)
  have "seg (sp_data c) (sp_tail c) (length (ring_bytes fs) + (4 + length f)) =
      ring_bytes fs @ frame_bytes f"
    using new old by (simp add: seg_append [of _ _ "length (ring_bytes fs)"] h)
  then have "ring_holds ((sp_ring c)\<lparr>ring_head := of_nat h'\<rparr>) (fs @ [f])"
    using old h head by (simp add: ring_holds_def)
  then have "spsc_inv c' (fs @ [f])"
    using inv push_publish consumer_ok_append [of c fs f]
    by (simp add: spsc_inv_def producer_ok_def consumer_ok_def)
  then show ?thesis by blast
next
  case (pop_load avail limit)
  then have "avail = length (ring_bytes fs)"
    using inv by (simp add: spsc_inv_def ring_holds_def)
  then have "spsc_inv c' fs"
    using inv pop_load by (auto simp: spsc_inv_def consumer_ok_def) (metis append_Nil2)
  then show ?thesis by blast
next
  case (pop_prefix limit avail n)
  then obtain seen rest where fs: "fs = seen @ rest" "avail = length (ring_bytes seen)" "4 \<le> avail"
    using inv by (auto simp: spsc_inv_def consumer_ok_def)
  then obtain f seen' where seen: "seen = f # seen'" by (cases seen) auto
  have "ring_holds (sp_ring c) (f # seen' @ rest)"
    using inv by (simp add: spsc_inv_def fs seen)
  from ring_holds_prefix [OF this] have "n = length f"
    by (simp add: pop_prefix be_word_be_bytes)
  then have "spsc_inv c' fs"
    using inv pop_prefix by (auto simp: spsc_inv_def consumer_ok_def fs seen)
  then show ?thesis by blast
next
  case (pop_body n offset)
  then obtain f rest where fs: "fs = f # rest" "n = length f" and offset: "offset = sp_tail c + 4"
    using inv by (auto simp: spsc_inv_def consumer_ok_def)
  have "ring_holds (sp_ring c) (f # rest)"
    using inv by (simp add: spsc_inv_def fs)
  then have "read_wrapped (sp_data c) offset n = f"
    using ring_holds_prefix(2) by (simp add: fs offset)
  then have "spsc_inv c' fs"
    using inv pop_body by (auto simp: spsc_inv_def consumer_ok_def fs)
  then show ?thesis by blast
next
  case (pop_publish f t')
  then obtain rest where fs: "fs = f # rest"
    and t': "t' = sp_tail c + (4 + length f)" "t' < 2 ^ 64"
    using inv by (auto simp: spsc_inv_def consumer_ok_def)
  have holds: "ring_holds (sp_ring c) (f # rest)"
    using inv by (simp add: spsc_inv_def fs)
  have tail: "unat (of_nat t' :: u64) = sp_tail c + (4 + length f)"
    using unat_counter [OF t'(2)] t'(1) by simp
  have "ring_holds ((sp_ring c)\<lparr>ring_tail := of_nat t'\<rparr>) rest"
    using holds ring_holds_prefix(4) [OF holds] tail by (simp add: ring_holds_def add.assoc)
  moreover have "producer_ok c'"
    using inv tail pop_publish by (auto simp: spsc_inv_def producer_ok_def split: producer.splits)
  ultimately have "spsc_inv c' rest"
    using inv pop_publish by (auto simp: spsc_inv_def consumer_ok_def fs)
  then show ?thesis by blast
qed

lemma spsc_reachable_inv: "spsc_reachable c \<Longrightarrow> \<exists>fs. spsc_inv c fs"
proof (induction rule: spsc_reachable.induct)
  case init
  have "spsc_inv spsc_init []"
    by (simp add: spsc_inv_def spsc_init_def producer_ok_def consumer_ok_def)
  then show ?case by blast
next
  case (step c c')
  then show ?case using spsc_step_inv by blast
qed

section \<open>The two sides never touch the same byte\<close>

text \<open>The indexes of the data that the next action of each side writes or reads.\<close>

definition region :: "nat \<Rightarrow> nat \<Rightarrow> nat set" where
  "region a n = (\<lambda>i. i mod RING_BUFFER_SIZE) ` {a ..< a + n}"

definition next_writes :: "spsc \<Rightarrow> nat set" where
  "next_writes c =
     (case sp_prod c of
        PPrefix f h \<Rightarrow> region h 4
      | PBody f h \<Rightarrow> region (h + 4) (length f)
      | _ \<Rightarrow> {})"

definition next_reads :: "spsc \<Rightarrow> nat set" where
  "next_reads c =
     (case sp_cons c of
        CPrefix limit avail \<Rightarrow> region (sp_tail c) 4
      | CBody n \<Rightarrow> region (sp_tail c + 4) n
      | _ \<Rightarrow> {})"

lemma region_disjoint:
  assumes "a + n \<le> b" and "b + m \<le> a + RING_BUFFER_SIZE"
  shows "region b m \<inter> region a n = {}"
proof -
  have ne: "x mod RING_BUFFER_SIZE \<noteq> y mod RING_BUFFER_SIZE"
    if "x < y" "y < x + RING_BUFFER_SIZE" for x y
  proof
    assume "x mod RING_BUFFER_SIZE = y mod RING_BUFFER_SIZE"
    then have "RING_BUFFER_SIZE dvd y - x"
      using that(1) by (metis mod_eq_dvd_iff_nat less_imp_le)
    then show False
      using that by (auto dest: dvd_imp_le)
  qed
  have "y mod RING_BUFFER_SIZE \<noteq> x mod RING_BUFFER_SIZE"
    if "x \<in> {a ..< a + n}" "y \<in> {b ..< b + m}" for x y
  proof -
    have "x < y" "y < x + RING_BUFFER_SIZE"
      using that assms by auto
    from ne [OF this] show ?thesis by metis
  qed
  then show ?thesis
    unfolding region_def by blast
qed

lemma region_mono: "a \<le> b \<Longrightarrow> b + n \<le> a + m \<Longrightarrow> region b n \<subseteq> region a m"
  by (auto simp: region_def)

lemma next_reads_bound:
  assumes "spsc_inv c fs"
  shows "next_reads c \<subseteq> region (sp_tail c) (length (ring_bytes fs))"
proof (cases "sp_cons c")
  case (CPrefix limit avail)
  then have "4 \<le> length (ring_bytes fs)"
    using assms by (auto simp: spsc_inv_def consumer_ok_def)
  then show ?thesis
    using CPrefix by (simp add: next_reads_def region_mono)
next
  case (CBody n)
  then have "4 + n \<le> length (ring_bytes fs)"
    using assms by (auto simp: spsc_inv_def consumer_ok_def)
  then show ?thesis
    using CBody by (simp add: next_reads_def region_mono)
qed (simp_all add: next_reads_def)

lemma next_writes_bound:
  assumes "spsc_inv c fs"
  shows "next_writes c \<subseteq> region (sp_head c) (sp_tail c + RING_BUFFER_SIZE - sp_head c)"
proof (cases "sp_prod c")
  case (PPrefix f h)
  then have "h = sp_head c" "h + 4 + length f \<le> sp_tail c + RING_BUFFER_SIZE"
    using assms by (auto simp: spsc_inv_def producer_ok_def)
  then show ?thesis
    using PPrefix by (simp add: next_writes_def region_mono)
next
  case (PBody f h)
  then have "h = sp_head c" "h + 4 + length f \<le> sp_tail c + RING_BUFFER_SIZE"
    using assms by (auto simp: spsc_inv_def producer_ok_def)
  then show ?thesis
    using PBody by (simp add: next_writes_def region_mono)
qed (simp_all add: next_writes_def)

section \<open>The operations of the code are runs of these steps\<close>

lemma push_frame_steps:
  assumes push: "push_frame f (sp_ring c) = Some (Inr (), r')" and idle: "sp_prod c = PIdle"
  shows "spsc_step\<^sup>*\<^sup>* c (c\<lparr>sp_ring := r', sp_sent := sp_sent c @ [f]\<rparr>)"
proof -
  let ?h = "sp_head c"
  let ?h' = "?h + (4 + length f)"
  let ?d1 = "write_wrapped (sp_data c) ?h (be_bytes 4 (of_nat (length f) :: u32))"
  let ?d2 = "write_wrapped ?d1 (?h + 4) f"
  have len: "length f \<le> 4294967295" and tail: "sp_tail c \<le> ?h"
    and space: "?h - sp_tail c \<le> RING_BUFFER_SIZE"
      "4 + length f \<le> RING_BUFFER_SIZE - (?h - sp_tail c)"
    and life: "?h + 4 < 2 ^ 64" "?h' < 2 ^ 64"
    and r': "r' = (sp_ring c)\<lparr>ring_data := ?d2, ring_head := of_nat ?h'\<rparr>"
    using push by (auto simp: push_frame_def Let_def bind_eq_Some_conv split: if_splits)
  let ?c1 = "c\<lparr>sp_prod := PPrefix f ?h\<rparr>"
  let ?c2 = "c\<lparr>sp_ring := (sp_ring c)\<lparr>ring_data := ?d1\<rparr>, sp_prod := PBody f ?h\<rparr>"
  let ?c3 = "c\<lparr>sp_ring := (sp_ring c)\<lparr>ring_data := ?d2\<rparr>, sp_prod := PPublish f ?h\<rparr>"
  have "spsc_step c ?c1"
    using spsc_step.push_load [OF idle len, of "?h - sp_tail c"] tail space by simp
  moreover have "spsc_step ?c1 ?c2"
    using spsc_step.push_prefix [of ?c1 f ?h] by simp
  moreover have "spsc_step ?c2 ?c3"
    using spsc_step.push_body [of ?c2 f ?h "?h + 4"] life by simp
  moreover have "spsc_step ?c3 (c\<lparr>sp_ring := r', sp_sent := sp_sent c @ [f]\<rparr>)"
  proof -
    have "c\<lparr>sp_prod := PIdle\<rparr> = c" using idle by (cases c) simp
    then show ?thesis
      using spsc_step.push_publish [of ?c3 f ?h ?h'] life idle unfolding r' by (cases c) simp
  qed
  ultimately show ?thesis
    by (meson converse_rtranclp_into_rtranclp rtranclp.rtrancl_refl)
qed

lemma pop_frame_steps:
  assumes pop: "pop_frame limit (sp_ring c) = Some (Inr (Some f), r')" and idle: "sp_cons c = CIdle"
  shows "spsc_step\<^sup>*\<^sup>* c (c\<lparr>sp_ring := r', sp_got := sp_got c @ [f]\<rparr>)"
proof -
  let ?t = "sp_tail c"
  define n where "n = unat (be_word (read_wrapped (sp_data c) ?t 4) :: u32)"
  let ?avail = "sp_head c - ?t"
  have tail: "?t \<le> sp_head c" and avail: "4 \<le> ?avail" "n \<le> limit" "4 + n \<le> ?avail"
    and life: "?t + 4 < 2 ^ 64" "?t + (4 + n) < 2 ^ 64"
    and f: "f = read_wrapped (sp_data c) (?t + 4) n"
    and r': "r' = (sp_ring c)\<lparr>ring_tail := of_nat (?t + (4 + n))\<rparr>"
    using pop by (auto simp: pop_frame_def Let_def bind_eq_Some_conv n_def split: if_splits)
  have len: "length f = n"
    by (auto simp: f read_wrapped_def read_at_def Let_def)
  let ?c1 = "c\<lparr>sp_cons := CPrefix limit ?avail\<rparr>"
  let ?c2 = "c\<lparr>sp_cons := CBody n\<rparr>"
  let ?c3 = "c\<lparr>sp_cons := CPublish f\<rparr>"
  have "spsc_step c ?c1"
    by (rule spsc_step.pop_load) (use idle tail avail in simp_all)
  moreover have "spsc_step ?c1 ?c2"
    using spsc_step.pop_prefix [of ?c1 limit ?avail n] avail by (simp add: n_def)
  moreover have "spsc_step ?c2 ?c3"
    using spsc_step.pop_body [of ?c2 n "?t + 4"] life by (simp add: f)
  moreover have "spsc_step ?c3 (c\<lparr>sp_ring := r', sp_got := sp_got c @ [f]\<rparr>)"
    using spsc_step.pop_publish [of ?c3 f "?t + (4 + n)"] life idle len unfolding r'
    by (cases c) simp
  ultimately show ?thesis
    by (meson converse_rtranclp_into_rtranclp rtranclp.rtrancl_refl)
qed

section \<open>Properties\<close>

lemma spsc_reachable_steps: "spsc_step\<^sup>*\<^sup>* c c' \<Longrightarrow> spsc_reachable c \<Longrightarrow> spsc_reachable c'"
  by (induction rule: rtranclp_induct) (auto intro: spsc_reachable.step)

text \<open>A reachable state with a frame in the ring and another one half written.\<close>

lemma spsc_example:
  "\<exists>c f. spsc_reachable c \<and> sp_prod c = PPrefix [7] f \<and> sp_cons c = CPrefix 10 6 \<and>
     sp_sent c = [[1, 2]] \<and> sp_got c = []"
proof -
  have room: "ring_has_room ring_empty [] [1, 2]"
    by (simp add: ring_has_room_def RING_BUFFER_SIZE_def)
  obtain r where r: "push_frame [1, 2] ring_empty = Some (Inr (), r)"
    "ring_holds r [[1, 2]]" "unat (ring_head r) = 6" "ring_tail r = ring_tail ring_empty"
    by (rule push_frame_room [OF ring_empty_holds room]) (simp_all add: ring_empty_def)
  let ?c = "spsc_init\<lparr>sp_ring := r, sp_sent := [[1, 2]]\<rparr>"
  have "spsc_reachable ?c"
    using spsc_reachable_steps [OF push_frame_steps [of "[1, 2]" spsc_init r] spsc_reachable.init] r(1)
    by (simp add: spsc_init_def)
  moreover have "spsc_step ?c (?c\<lparr>sp_prod := PPrefix [7] 6\<rparr>)"
    using spsc_step.push_load [of ?c "[7]" 6 "RING_BUFFER_SIZE - 6"] r(3,4)
    by (simp add: spsc_init_def ring_empty_def RING_BUFFER_SIZE_def)
  moreover have "spsc_step (?c\<lparr>sp_prod := PPrefix [7] 6\<rparr>)
      (?c\<lparr>sp_prod := PPrefix [7] 6, sp_cons := CPrefix 10 6\<rparr>)"
    using spsc_step.pop_load [of "?c\<lparr>sp_prod := PPrefix [7] 6\<rparr>" 6 10] r(3,4)
    by (simp add: spsc_init_def ring_empty_def)
  ultimately have "spsc_reachable (?c\<lparr>sp_prod := PPrefix [7] 6, sp_cons := CPrefix 10 6\<rparr>)"
    by (blast intro: spsc_reachable.step)
  then show ?thesis
    by (intro exI [of _ "?c\<lparr>sp_prod := PPrefix [7] 6, sp_cons := CPrefix 10 6\<rparr>"])
      (simp add: spsc_init_def)
qed

text \<open>
  C34: the ring is a FIFO under every interleaving of its producer and its consumer: at any
  moment the frames taken are a prefix of the frames published, whole and in order, and the
  ring holds exactly the others.
\<close>

theorem spsc_fifo:
  assumes "spsc_reachable c"
  shows "\<exists>fs. sp_sent c = sp_got c @ fs \<and> ring_holds (sp_ring c) fs"
  using spsc_reachable_inv [OF assms] by (auto simp: spsc_inv_def)

theorem spsc_fifo_witness:
  "\<exists>c :: spsc. sp_sent c = [[1, 2]] \<and> sp_got c = [] \<and> ring_holds (sp_ring c) [[1, 2]]"
proof -
  obtain c where c: "spsc_reachable c" "sp_sent c = [[1, 2]]" "sp_got c = []"
    using spsc_example by (elim exE conjE)
  obtain fs where fs: "sp_sent c = sp_got c @ fs" "ring_holds (sp_ring c) fs"
    using spsc_fifo [OF c(1)] by blast
  then have "fs = [[1, 2]]" by (simp only: c append_Nil)
  with c fs show ?thesis by (intro exI [of _ c]) simp
qed

text \<open>
  C35: no data race: in every reachable state the bytes the producer writes next and the
  bytes the consumer reads next are disjoint, so no frame is read while it is being written.
\<close>

theorem spsc_race_free:
  assumes "spsc_reachable c"
  shows "next_writes c \<inter> next_reads c = {}"
proof -
  obtain fs where inv: "spsc_inv c fs"
    using spsc_reachable_inv [OF assms] by blast
  then have h: "sp_head c = sp_tail c + length (ring_bytes fs)" "length (ring_bytes fs) \<le> RING_BUFFER_SIZE"
    by (simp_all add: spsc_inv_def ring_holds_def)
  have "region (sp_head c) (sp_tail c + RING_BUFFER_SIZE - sp_head c) \<inter>
      region (sp_tail c) (length (ring_bytes fs)) = {}"
    using h by (intro region_disjoint) simp_all
  then show ?thesis
    using next_reads_bound [OF inv] next_writes_bound [OF inv] by blast
qed

theorem spsc_race_free_witness:
  "\<exists>c :: spsc. next_writes c \<noteq> {} \<and> next_reads c \<noteq> {} \<and> next_writes c \<inter> next_reads c = {}"
proof -
  obtain c h where "spsc_reachable c" "sp_prod c = PPrefix [7] h" "sp_cons c = CPrefix 10 6"
    using spsc_example by (elim exE conjE)
  then have "next_writes c \<noteq> {}" "next_reads c \<noteq> {}"
    by (simp_all add: next_writes_def next_reads_def region_def)
  with spsc_race_free [OF \<open>spsc_reachable c\<close>] show ?thesis
    by (intro exI [of _ c] conjI)
qed



end
