(* ===== verification/Driver_Backend.thy ===== *)
theory Driver_Backend imports Frames Ring_Channel begin

text \<open>
  The interface between the daemon's sessions and a driver, the trait \<open>DriverBackend\<close> of
  \<open>daemon/src/driver_backend.rs\<close>, and the mock driver that implements it over the two
  rings of the kernel driver's \<open>driver/src/vhci.cpp\<close>. A backend is a record of its
  operations over its own state; what a session may rely on is the locale
  \<open>loopback_driver\<close>, which the mock driver interprets.
\<close>

section \<open>The trait\<close>

record device_attach_request =
  da_vendor_id :: u16
  da_product_id :: u16
  da_bus_id :: u8
  da_port_id :: u8
  da_flags :: u16

text \<open>
  \<open>WindowsIo\<close> carries the operation and the code of the \<open>io::Error\<close>.
\<close>

datatype driver_error =
    InitFailed i32
  | RxRingFull nat
  | MalformedTxFrame protocol_error
  | MappedRing string
  | UnsupportedBackend string
  | WindowsIo string u32
  | Abi string

text \<open>
  The methods take \<open>&self\<close> and change the driver behind it: the state \<open>'d\<close> is passed
  explicitly. \<open>wait_for_tx_frame\<close> only lets time pass.
\<close>

record 'd driver_ops =
  dr_attach_device :: "device_attach_request \<Rightarrow> 'd \<Rightarrow> (driver_error + unit) \<times> 'd"
  dr_detach_device :: "u32 \<Rightarrow> 'd \<Rightarrow> (driver_error + unit) \<times> 'd"
  dr_push_rx_bytes :: "bytes \<Rightarrow> 'd \<Rightarrow> (driver_error + unit) \<times> 'd"
  dr_pump_once :: "'d \<Rightarrow> bool \<times> 'd"
  dr_poll_tx_frame :: "'d \<Rightarrow> (driver_error + frame option) \<times> 'd"

text \<open>
  What the data path relies on: a driver that is \<open>idle\<close> with the frames \<open>txs\<close> waiting to be
  polled takes a frame and, pumped once, has it behind the others; \<open>room\<close> says which further
  frames it can take. Polling hands the frames out in order.
\<close>

locale loopback_driver =
  fixes ops :: "('d, 'm) driver_ops_scheme" and idle :: "'d \<Rightarrow> bytes list \<Rightarrow> bool"
    and room :: "'d \<Rightarrow> bytes list \<Rightarrow> bytes list \<Rightarrow> bool"
  assumes transfer: "idle d txs \<Longrightarrow> room d txs (bs # bss) \<Longrightarrow>
      \<exists>d1 d2. dr_push_rx_bytes ops bs d = (Inr (), d1) \<and> dr_pump_once ops d1 = (True, d2) \<and>
        idle d2 (txs @ [bs]) \<and> room d2 (txs @ [bs]) bss"
    and poll: "idle d (bs # txs) \<Longrightarrow> room d (bs # txs) bss \<Longrightarrow> frame_decode bs = Inr f \<Longrightarrow>
      length bs \<le> 65536 \<Longrightarrow>
      \<exists>d'. dr_poll_tx_frame ops d = (Inr (Some f), d') \<and> idle d' txs \<and> room d' txs bss"
    and room_len: "room d txs bss \<Longrightarrow> bs \<in> set bss \<Longrightarrow> length bs \<le> 65536"
    and poll_empty: "idle d [] \<Longrightarrow> dr_poll_tx_frame ops d = (Inr None, d)"

section \<open>The rings of the C++ driver\<close>

text \<open>
  \<open>SPSC_RingBuffer::push_frame\<close> and \<open>pop_frame\<close> of \<open>driver/inc/ring_buffer.h\<close>: the same
  layout as the Rust ring, in C++'s wrapping arithmetic, with one refusal for everything.
\<close>

definition cpp_push_frame :: "bytes \<Rightarrow> ring \<Rightarrow> bool \<times> ring" where
  "cpp_push_frame src r =
     (if length src > 4294967295 then (False, r)
      else let prefix = be_bytes 4 (of_nat (length src) :: u32);
               total_len = 4 + length src;
               available_space = unat (of_nat RING_BUFFER_SIZE - (ring_head r - ring_tail r))
           in if total_len > available_space then (False, r)
              else let data = write_wrapped (ring_data r) (unat (ring_head r)) prefix;
                       data = write_wrapped data (unat (ring_head r + 4)) src
                   in (True, r\<lparr>ring_data := data, ring_head := ring_head r + of_nat total_len\<rparr>))"

definition cpp_pop_frame :: "nat \<Rightarrow> ring \<Rightarrow> bytes option \<times> ring" where
  "cpp_pop_frame max_len r =
     (let available_data = unat (ring_head r - ring_tail r)
      in if available_data < 4 then (None, r)
         else let frame_len = unat (be_word (read_wrapped (ring_data r) (unat (ring_tail r)) 4) :: u32);
                  total_len = 4 + frame_len
              in if available_data < total_len \<or> frame_len > max_len then (None, r)
                 else (Some (read_wrapped (ring_data r) (unat (ring_tail r + 4)) frame_len),
                       r\<lparr>ring_tail := ring_tail r + of_nat total_len\<rparr>))"

lemma unat_used:
  assumes "ring_holds r fs"
  shows "unat (ring_head r - ring_tail r) = length (ring_bytes fs)"
    and "unat (of_nat RING_BUFFER_SIZE - (ring_head r - ring_tail r)) =
      RING_BUFFER_SIZE - length (ring_bytes fs)"
proof -
  have h: "unat (ring_head r) = unat (ring_tail r) + length (ring_bytes fs)"
    and n: "length (ring_bytes fs) \<le> RING_BUFFER_SIZE"
    using assms by (simp_all add: ring_holds_def)
  then have "ring_tail r \<le> ring_head r"
    by (simp add: word_le_nat_alt)
  then show used: "unat (ring_head r - ring_tail r) = length (ring_bytes fs)"
    using h by (simp add: unat_sub)
  have size: "unat (of_nat RING_BUFFER_SIZE :: u64) = RING_BUFFER_SIZE"
    by (rule unat_of_nat_u64) (simp add: RING_BUFFER_SIZE_def)
  then have "ring_head r - ring_tail r \<le> of_nat RING_BUFFER_SIZE"
    using used n by (simp add: word_le_nat_alt)
  then show "unat (of_nat RING_BUFFER_SIZE - (ring_head r - ring_tail r)) =
      RING_BUFFER_SIZE - length (ring_bytes fs)"
    using used size by (simp add: unat_sub)
qed

lemma counter_add:
  assumes "unat (w :: u64) + n < 2 ^ 64"
  shows "unat (w + of_nat n) = unat w + n" and "w + of_nat n = of_nat (unat w + n)"
proof -
  have "unat (of_nat n :: u64) = n" using assms by (intro unat_of_nat_u64) simp
  then show "unat (w + of_nat n) = unat w + n"
    using assms by (subst unat_add_lem [THEN iffD1]) simp_all
  show "w + of_nat n = of_nat (unat w + n)" by simp
qed

text \<open>On a ring that holds frames the C++ operations are those of the Rust ring.\<close>

lemma cpp_push_frame_holds:
  assumes holds: "ring_holds r fs" and life: "unat (ring_head r) + 4 + length f < 2 ^ 64"
  shows "push_frame f r = Some (res, r') \<Longrightarrow> cpp_push_frame f r = (\<not> isl res, r')"
proof -
  assume push: "push_frame f r = Some (res, r')"
  have h: "unat (ring_tail r) \<le> unat (ring_head r)"
    "unat (ring_head r) - unat (ring_tail r) = length (ring_bytes fs)"
    "length (ring_bytes fs) \<le> RING_BUFFER_SIZE"
    using holds by (simp_all add: ring_holds_def)
  have four: "unat (ring_head r + 4) = unat (ring_head r) + 4"
    using counter_add(1) [of "ring_head r" 4] life by simp
  show ?thesis
    using push h life
    by (auto simp: cpp_push_frame_def push_frame_def Let_def checked_sub_def checked_add64_def
        unat_used(2) [OF holds] four split: if_splits)
qed

lemma cpp_pop_frame_holds:
  assumes holds: "ring_holds r fs"
  shows "pop_frame max_len r = Some (res, r') \<Longrightarrow>
    cpp_pop_frame max_len r = (case res of Inr (Some f) \<Rightarrow> (Some f, r') | _ \<Rightarrow> (None, r))"
proof -
  assume pop: "pop_frame max_len r = Some (res, r')"
  have h: "unat (ring_tail r) \<le> unat (ring_head r)"
    "unat (ring_head r) - unat (ring_tail r) = length (ring_bytes fs)"
    using holds by (simp_all add: ring_holds_def)
  have four: "unat (ring_tail r + 4) = unat (ring_tail r) + 4"
    if "4 \<le> length (ring_bytes fs)"
  proof -
    have "unat (ring_tail r) + 4 < 18446744073709551616"
      using h that unat_less_2p64 [of "ring_head r"] by linarith
    then show ?thesis using counter_add(1) [of "ring_tail r" 4] by simp
  qed
  show ?thesis
    using pop h four
    by (auto simp: cpp_pop_frame_def pop_frame_def Let_def checked_sub_def checked_add64_def
        unat_used(1) [OF holds] bind_eq_Some_conv split: if_splits)
qed

section \<open>The mock driver\<close>

text \<open>
  The state behind \<open>MockDriverBackend\<close> after a successful \<open>init\<close>: the driver's two rings
  (\<open>SharedMemoryContext\<close>), TX towards the daemon and RX towards the driver.
\<close>

record mock_driver =
  md_tx :: ring
  md_rx :: ring

definition MAX_DRIVER_FRAME_SIZE :: nat where "MAX_DRIVER_FRAME_SIZE = 1024 * 64"

definition mock_driver_init :: "i32 \<Rightarrow> driver_error + mock_driver" where
  "mock_driver_init status =
     (if status \<noteq> 0 then Inl (InitFailed status)
      else Inr \<lparr>md_tx = ring_empty, md_rx = ring_empty\<rparr>)"

definition mock_attach_device ::
  "device_attach_request \<Rightarrow> mock_driver \<Rightarrow> (driver_error + unit) \<times> mock_driver" where
  "mock_attach_device request d = (Inr (), d)"

definition mock_detach_device :: "u32 \<Rightarrow> mock_driver \<Rightarrow> (driver_error + unit) \<times> mock_driver" where
  "mock_detach_device reason d = (Inr (), d)"

definition mock_push_rx_bytes :: "bytes \<Rightarrow> mock_driver \<Rightarrow> (driver_error + unit) \<times> mock_driver" where
  "mock_push_rx_bytes bs d =
     (let (success, rx) = cpp_push_frame bs (md_rx d)
      in if \<not> success then (Inl (RxRingFull (length bs)), d)
         else (Inr (), d\<lparr>md_rx := rx\<rparr>))"

text \<open>\<open>mock_driver_pump_once\<close> of \<open>driver/src/vhci.cpp\<close>: one frame from RX back to TX.\<close>

definition mock_pump_once :: "mock_driver \<Rightarrow> bool \<times> mock_driver" where
  "mock_pump_once d =
     (case cpp_pop_frame (64 * 1024) (md_rx d) of
        (None, rx) \<Rightarrow> (False, d)
      | (Some f, rx) \<Rightarrow>
          let (success, tx) = cpp_push_frame f (md_tx d)
          in (success, \<lparr>md_tx = tx, md_rx = rx\<rparr>))"

definition mock_poll_tx_frame :: "mock_driver \<Rightarrow> (driver_error + frame option) \<times> mock_driver" where
  "mock_poll_tx_frame d =
     (case cpp_pop_frame MAX_DRIVER_FRAME_SIZE (md_tx d) of
        (None, tx) \<Rightarrow> (Inr None, d)
      | (Some bs, tx) \<Rightarrow>
          (case frame_decode bs of
             Inr f \<Rightarrow> Inr (Some f)
           | Inl e \<Rightarrow> Inl (MalformedTxFrame e), d\<lparr>md_tx := tx\<rparr>))"

definition mock_ops :: "mock_driver driver_ops" where
  "mock_ops =
     \<lparr>dr_attach_device = mock_attach_device, dr_detach_device = mock_detach_device,
      dr_push_rx_bytes = mock_push_rx_bytes, dr_pump_once = mock_pump_once,
      dr_poll_tx_frame = mock_poll_tx_frame\<rparr>"

lemma mock_ops_simps [simp]:
  "dr_attach_device mock_ops = mock_attach_device"
  "dr_detach_device mock_ops = mock_detach_device"
  "dr_push_rx_bytes mock_ops = mock_push_rx_bytes"
  "dr_pump_once mock_ops = mock_pump_once"
  "dr_poll_tx_frame mock_ops = mock_poll_tx_frame"
  by (simp_all add: mock_ops_def)

text \<open>
  \<open>mock_holds d rxs txs\<close>: the frames on their way to the driver and back; \<open>mock_life d n\<close>:
  the counters can still count \<open>n\<close> bytes.
\<close>

definition mock_holds :: "mock_driver \<Rightarrow> bytes list \<Rightarrow> bytes list \<Rightarrow> bool" where
  "mock_holds d rxs txs \<longleftrightarrow> ring_holds (md_rx d) rxs \<and> ring_holds (md_tx d) txs"

definition mock_life :: "mock_driver \<Rightarrow> nat \<Rightarrow> bool" where
  "mock_life d n \<longleftrightarrow>
     unat (ring_head (md_rx d)) + n < 2 ^ 64 \<and> unat (ring_head (md_tx d)) + n < 2 ^ 64"

lemma cpp_push_room:
  assumes "ring_holds r fs" "ring_has_room r fs f" "unat (ring_head r) + 4 + length f < 2 ^ 64"
  obtains r' where "cpp_push_frame f r = (True, r')" "ring_holds r' (fs @ [f])"
    "unat (ring_head r') = unat (ring_head r) + 4 + length f"
proof (rule push_frame_room [OF assms])
  fix r' assume "push_frame f r = Some (Inr (), r')" "ring_holds r' (fs @ [f])"
    "unat (ring_head r') = unat (ring_head r) + 4 + length f"
  then show thesis
    using cpp_push_frame_holds [OF assms(1,3)] that [of r'] by fastforce
qed

lemma cpp_push_no_room:
  assumes "ring_holds r fs" "\<not> ring_has_room r fs f" "unat (ring_head r) + 4 + length f < 2 ^ 64"
  shows "cpp_push_frame f r = (False, r)"
  using push_frame_no_room [OF assms(1,2)] cpp_push_frame_holds [OF assms(1,3)] by fastforce

lemma cpp_pop_empty: "ring_holds r [] \<Longrightarrow> cpp_pop_frame n r = (None, r)"
  using cpp_pop_frame_holds [of r "[]"] pop_frame_empty by fastforce

lemma cpp_pop_front:
  assumes "ring_holds r (f # fs)" "length f \<le> n"
  obtains r' where "cpp_pop_frame n r = (Some f, r')" "ring_holds r' fs" "ring_head r' = ring_head r"
proof (rule pop_frame_front [OF assms(1), of n])
  assume "n < length f"
  then show thesis using assms(2) by simp
next
  fix r' assume "pop_frame n r = Some (Inr (Some f), r')" "ring_holds r' fs" "ring_head r' = ring_head r"
  then show thesis
    using cpp_pop_frame_holds [OF assms(1)] that [of r'] by fastforce
qed

text \<open>One transfer through the mock driver: pushed, pumped and left for the poller.\<close>

lemma mock_push_rx_ok:
  assumes "mock_holds d rxs txs" and "ring_has_room (md_rx d) rxs bs" and "mock_life d (4 + length bs)"
  obtains d' where "mock_push_rx_bytes bs d = (Inr (), d')" "mock_holds d' (rxs @ [bs]) txs"
    "md_tx d' = md_tx d" "unat (ring_head (md_rx d')) = unat (ring_head (md_rx d)) + 4 + length bs"
proof -
  obtain rx where "cpp_push_frame bs (md_rx d) = (True, rx)" "ring_holds rx (rxs @ [bs])"
    "unat (ring_head rx) = unat (ring_head (md_rx d)) + 4 + length bs"
    using cpp_push_room [of "md_rx d" rxs bs] assms by (auto simp: mock_holds_def mock_life_def)
  then show thesis
    using assms(1) by (intro that [of "d\<lparr>md_rx := rx\<rparr>"])
      (simp_all add: mock_push_rx_bytes_def mock_holds_def)
qed

lemma mock_poll_ok:
  assumes "mock_holds d rxs (bs # txs)" and "length bs \<le> 65536"
  obtains d' where "mock_poll_tx_frame d =
      (case frame_decode bs of Inr f \<Rightarrow> Inr (Some f) | Inl e \<Rightarrow> Inl (MalformedTxFrame e), d')"
    "mock_holds d' rxs txs" "md_rx d' = md_rx d" "ring_head (md_tx d') = ring_head (md_tx d)"
proof -
  obtain tx where "cpp_pop_frame MAX_DRIVER_FRAME_SIZE (md_tx d) = (Some bs, tx)" "ring_holds tx txs"
    "ring_head tx = ring_head (md_tx d)"
    using cpp_pop_front [of "md_tx d" bs txs MAX_DRIVER_FRAME_SIZE] assms
    by (auto simp: mock_holds_def MAX_DRIVER_FRAME_SIZE_def)
  then show thesis
    using assms(1) by (intro that [of "d\<lparr>md_tx := tx\<rparr>"])
      (simp_all add: mock_poll_tx_frame_def mock_holds_def)
qed

lemma mock_poll_empty:
  "mock_holds d rxs [] \<Longrightarrow> mock_poll_tx_frame d = (Inr None, d)"
  by (simp add: mock_poll_tx_frame_def mock_holds_def cpp_pop_empty)

definition mock_idle :: "mock_driver \<Rightarrow> bytes list \<Rightarrow> bool" where
  "mock_idle d txs \<longleftrightarrow> mock_holds d [] txs"

definition mock_room :: "mock_driver \<Rightarrow> bytes list \<Rightarrow> bytes list \<Rightarrow> bool" where
  "mock_room d txs bss \<longleftrightarrow>
     list_all (\<lambda>bs. length bs \<le> 65536) bss \<and>
     length (ring_bytes (txs @ bss)) \<le> RING_BUFFER_SIZE \<and> mock_life d (length (ring_bytes bss))"

lemma mock_transfer:
  assumes "mock_idle d txs" and "mock_room d txs (bs # bss)"
  shows "\<exists>d1 d2. mock_push_rx_bytes bs d = (Inr (), d1) \<and> mock_pump_once d1 = (True, d2) \<and>
    mock_idle d2 (txs @ [bs]) \<and> mock_room d2 (txs @ [bs]) bss"
proof -
  have len: "length bs \<le> 65536" and life: "mock_life d (4 + length bs)"
    and tx: "ring_has_room (md_tx d) txs bs"
    using assms(2) by (auto simp: mock_room_def mock_life_def ring_has_room_def)
  then have "ring_has_room (md_rx d) [] bs"
    by (simp add: ring_has_room_def RING_BUFFER_SIZE_def)
  then obtain d1 where 1: "mock_push_rx_bytes bs d = (Inr (), d1)" "mock_holds d1 [bs] txs"
    "md_tx d1 = md_tx d" "unat (ring_head (md_rx d1)) = unat (ring_head (md_rx d)) + 4 + length bs"
    using mock_push_rx_ok [of d "[]" txs bs] assms(1) life by (auto simp: mock_idle_def)
  obtain tx' where "cpp_push_frame bs (md_tx d1) = (True, tx')" "ring_holds tx' (txs @ [bs])"
    "unat (ring_head tx') = unat (ring_head (md_tx d1)) + 4 + length bs"
    using cpp_push_room [of "md_tx d1" txs bs] 1 tx life by (auto simp: mock_holds_def mock_life_def)
  moreover obtain rx' where "cpp_pop_frame 65536 (md_rx d1) = (Some bs, rx')" "ring_holds rx' []"
    "ring_head rx' = ring_head (md_rx d1)"
    using cpp_pop_front [of "md_rx d1" bs "[]" 65536] 1(2) len by (auto simp: mock_holds_def)
  ultimately have "mock_pump_once d1 = (True, \<lparr>md_tx = tx', md_rx = rx'\<rparr>)"
    "mock_idle \<lparr>md_tx = tx', md_rx = rx'\<rparr> (txs @ [bs])"
    "mock_room \<lparr>md_tx = tx', md_rx = rx'\<rparr> (txs @ [bs]) bss"
    using assms(2) 1 by (auto simp: mock_pump_once_def mock_idle_def mock_holds_def mock_room_def
        mock_life_def)
  then show ?thesis using 1(1) by blast
qed

interpretation mock: loopback_driver mock_ops mock_idle mock_room
proof
  show "\<exists>d1 d2. dr_push_rx_bytes mock_ops bs d = (Inr (), d1) \<and>
      dr_pump_once mock_ops d1 = (True, d2) \<and> mock_idle d2 (txs @ [bs]) \<and>
      mock_room d2 (txs @ [bs]) bss"
    if "mock_idle d txs" "mock_room d txs (bs # bss)" for d txs bs bss
    using mock_transfer [OF that] by simp
  show "\<exists>d'. dr_poll_tx_frame mock_ops d = (Inr (Some f), d') \<and> mock_idle d' txs \<and>
      mock_room d' txs bss"
    if "mock_idle d (bs # txs)" "mock_room d (bs # txs) bss" "frame_decode bs = Inr f"
      "length bs \<le> 65536" for d bs txs f bss
  proof (rule mock_poll_ok [of d "[]" bs txs])
    fix d' assume "mock_poll_tx_frame d =
        (case frame_decode bs of Inr f \<Rightarrow> Inr (Some f) | Inl e \<Rightarrow> Inl (MalformedTxFrame e), d')"
      "mock_holds d' [] txs" "md_rx d' = md_rx d" "ring_head (md_tx d') = ring_head (md_tx d)"
    then show ?thesis
      using that by (intro exI [of _ d']) (auto simp: mock_idle_def mock_room_def mock_life_def)
  qed (use that in \<open>simp_all add: mock_idle_def\<close>)
  show "length bs \<le> 65536" if "mock_room d txs bss" "bs \<in> set bss" for d txs bss bs
    using that by (auto simp: mock_room_def list_all_iff)
  show "dr_poll_tx_frame mock_ops d = (Inr None, d)" if "mock_idle d []" for d
    using that by (simp add: mock_idle_def mock_poll_empty)
qed

lemma mock_idle_init [simp]:
  "mock_driver_init 0 = Inr d \<Longrightarrow> mock_idle d []"
  by (auto simp: mock_driver_init_def mock_idle_def mock_holds_def)

end
