(* ===== verification/Control_Requests.thy ===== *)
theory Control_Requests imports Frames begin

text \<open>
  How the daemon answers the standard control requests on endpoint 0:
  \<open>handle_control_request\<close> of \<open>daemon/src/session.rs\<close>, which both the why-usb session and
  the USB/IP session call. The two registers of the device, its address and its active
  configuration, are passed in and out.
\<close>

record control_reply =
  cr_response :: frame
  cr_events :: "frame list"

record device_registers =
  reg_address :: u8
  reg_configuration :: u8

definition control_reply_response :: "frame \<Rightarrow> control_reply" where
  "control_reply_response f = \<lparr>cr_response = f, cr_events = []\<rparr>"

definition mock_hid_keyboard_events :: "bytes \<Rightarrow> frame list" where
  "mock_hid_keyboard_events keycodes =
     concat (map (\<lambda>keycode.
       [hid_keyboard_input_event 0 (hid_report_key_press keycode),
        hid_keyboard_input_event 0 hid_report_empty]) keycodes)"

definition status_reply :: "frame \<Rightarrow> transfer_status \<Rightarrow> bytes \<Rightarrow> control_reply" where
  "status_reply f status data =
     control_reply_response (control_response f (transfer_status_code status) data)"

definition requested_descriptor ::
  "usb_descriptor_set \<Rightarrow> usb_control_setup \<Rightarrow> usb_descriptor_type \<Rightarrow> (protocol_error + bytes) option" where
  "requested_descriptor descriptors setup descriptor_type =
     (case descriptor_type of
        Device \<Rightarrow> Some (device_descriptor_bytes descriptors)
      | Configuration \<Rightarrow>
          Some (configuration_descriptor_bytes descriptors (setup_descriptor_index setup))
      | Report \<Rightarrow>
          Some (report_descriptor_bytes descriptors 0 (ucast (setup_index setup))
            (setup_descriptor_index setup))
      | _ \<Rightarrow> None)"

definition handle_get_descriptor ::
  "frame \<Rightarrow> usb_control_setup \<Rightarrow> usb_descriptor_set option \<Rightarrow> control_reply" where
  "handle_get_descriptor f setup descriptors =
     (case setup_descriptor_type setup of
        Inl _ \<Rightarrow> status_reply f Stall []
      | Inr descriptor_type \<Rightarrow>
          (case descriptors of
             None \<Rightarrow> status_reply f Failed []
           | Some ds \<Rightarrow>
               (case requested_descriptor ds setup descriptor_type of
                  None \<Rightarrow> status_reply f Stall []
                | Some (Inr bs) \<Rightarrow> status_reply f Ok (take (unat (setup_length setup)) bs)
                | Some (Inl _) \<Rightarrow> status_reply f Stall [])))"

definition handle_set_address ::
  "frame \<Rightarrow> usb_control_setup \<Rightarrow> device_registers \<Rightarrow> control_reply \<times> device_registers" where
  "handle_set_address f setup regs =
     (let address = ucast (setup_value setup) :: u8
      in if setup_value setup > 127 \<or> setup_length setup \<noteq> 0
         then (status_reply f Stall [], regs)
         else (status_reply f Ok [], regs\<lparr>reg_address := address\<rparr>))"

definition handle_set_configuration ::
  "frame \<Rightarrow> usb_control_setup \<Rightarrow> usb_descriptor_set option \<Rightarrow> bytes \<Rightarrow> device_registers \<Rightarrow>
   control_reply \<times> device_registers" where
  "handle_set_configuration f setup descriptors keycodes regs =
     (let configuration = ucast (setup_value setup) :: u8;
          supported = (configuration = 0 \<or>
            (case descriptors of
               None \<Rightarrow> False
             | Some ds \<Rightarrow> list_ex (\<lambda>c. cfg_configuration_value (conf_descriptor c) = configuration)
                 (ds_configurations ds)))
      in if setup_value setup > 255 \<or> setup_length setup \<noteq> 0 \<or> \<not> supported
         then (status_reply f Stall [], regs)
         else (let response = status_reply f Ok [];
                   events = (if configuration \<noteq> 0 then mock_hid_keyboard_events keycodes
                             else cr_events response)
               in (response\<lparr>cr_events := events\<rparr>, regs\<lparr>reg_configuration := configuration\<rparr>)))"

definition handle_control_request ::
  "frame \<Rightarrow> usb_descriptor_set option \<Rightarrow> bytes \<Rightarrow> device_registers \<Rightarrow>
   control_reply \<times> device_registers" where
  "handle_control_request f descriptors keycodes regs =
     (case control_transfer_decode (fr_payload f) of
        Inl _ \<Rightarrow> (status_reply f Failed [], regs)
      | Inr control \<Rightarrow>
          (case setup_standard_request (ct_setup control) of
             Inr GetDescriptor \<Rightarrow> (handle_get_descriptor f (ct_setup control) descriptors, regs)
           | Inr SetAddress \<Rightarrow> handle_set_address f (ct_setup control) regs
           | Inr SetConfiguration \<Rightarrow>
               handle_set_configuration f (ct_setup control) descriptors keycodes regs
           | Inl _ \<Rightarrow> (status_reply f Stall [], regs)))"

lemmas control_handler_defs =
  handle_control_request_def handle_get_descriptor_def handle_set_address_def
  handle_set_configuration_def status_reply_def control_reply_response_def Let_def

section \<open>Facts\<close>

lemma status_reply_simps [simp]:
  "cr_response (status_reply f st data) = control_response f (transfer_status_code st) data"
  "cr_events (status_reply f st data) = []"
  by (simp_all add: status_reply_def control_reply_response_def)

lemma control_response_simps [simp]:
  "fr_request_id (control_response f st data) = fr_request_id f"
  "fr_frame_type (control_response f st data) = Response"
  "fr_status (control_response f st data) = st"
  "fr_direction (control_response f st data) = fr_direction f"
  "fr_transfer_type (control_response f st data) = Control"
  by (simp_all add: control_response_def frame_new_def Let_def)

text \<open>
  Every reply of the handler is a control response to the frame with one of three statuses;
  data, events and register changes accompany only \<open>Ok\<close>.
\<close>

definition reply_ok :: "frame \<Rightarrow> device_registers \<Rightarrow> control_reply \<times> device_registers \<Rightarrow> bool" where
  "reply_ok f regs r \<longleftrightarrow>
     (\<exists>st data. cr_response (fst r) = control_response f (transfer_status_code st) data \<and>
        st \<in> {Ok, Failed, Stall} \<and> length data \<le> 65535 \<and>
        (st \<noteq> Ok \<longrightarrow> data = [] \<and> cr_events (fst r) = [] \<and> snd r = regs))"

lemma reply_ok_error [simp]:
  "reply_ok f regs (status_reply f Failed [], regs)" "reply_ok f regs (status_reply f Stall [], regs)"
  unfolding reply_ok_def fst_conv snd_conv status_reply_simps
  by (rule exI [of _ Failed], simp) (rule exI [of _ Stall], simp)

lemma reply_ok_Ok:
  "length data \<le> 65535 \<Longrightarrow> reply_ok f regs (status_reply f Ok data, regs')"
  "length data \<le> 65535 \<Longrightarrow> reply_ok f regs ((status_reply f Ok data)\<lparr>cr_events := ev\<rparr>, regs')"
  by (auto simp: reply_ok_def status_reply_def control_reply_response_def intro!: exI [of _ Ok])

lemma take_u16 [simp]: "length (take (unat (w :: u16)) bs) \<le> 65535"
  using unat_less_65536 [of w] unfolding length_take by linarith

lemma handle_control_request_ok: "reply_ok f regs (handle_control_request f ds keys regs)"
proof -
  have get: "reply_ok f regs (handle_get_descriptor f su ds, regs)" for su
    by (simp add: handle_get_descriptor_def reply_ok_Ok del: length_take split: sum.split option.split)
  have addr: "reply_ok f regs (handle_set_address f su regs)" for su
    by (simp add: handle_set_address_def Let_def reply_ok_Ok)
  have conf: "reply_ok f regs (handle_set_configuration f su ds keys regs)" for su
    by (simp add: handle_set_configuration_def Let_def reply_ok_Ok)
  show ?thesis
    by (simp add: handle_control_request_def get addr conf split: sum.split usb_standard_request.split)
qed

end
