(* ===== verification/Daemon_Session.thy ===== *)
theory Daemon_Session imports Queue_Spec Driver_Backend Control_Requests begin

text \<open>
  The daemon's why-usb session, \<open>daemon/src/session.rs\<close>: attaching and detaching the
  device, cancel and reset, injected outcomes, dispatch of the queued transfers to the
  driver, the event loop and the TX worker beside it. A step takes one event of the loop's
  \<open>select!\<close> or one turn of the worker and gives the frames written to the connection,
  whether the loop goes on, and the new state; \<open>None\<close> is a panic or a loop that does not
  end, and the lemmas show that neither happens.
\<close>

section \<open>Attach and detach\<close>

datatype session_state = Connected | Attached | Detaching | Closed

text \<open>
  The variables \<open>attached_by_control_plane\<close> and \<open>state\<close>, which both kinds of session hand
  to \<open>attach_session\<close> and \<open>detach_session\<close> by reference.
\<close>

record lifecycle =
  lc_attached_by_control_plane :: bool
  lc_state :: session_state

definition attach_session ::
  "('d, 'm) driver_ops_scheme \<Rightarrow> device_attach_request option \<Rightarrow> lifecycle \<Rightarrow> 'd \<Rightarrow>
   i32 \<times> lifecycle \<times> 'd" where
  "attach_session ops attach_device lc d =
     (if lc_state lc = Attached then (0, lc, d)
      else case attach_device of
        Some request \<Rightarrow>
          (case dr_attach_device ops request d of
             (Inl _, d') \<Rightarrow> (-1, lc, d')
           | (Inr _, d') \<Rightarrow>
               (0, lc\<lparr>lc_attached_by_control_plane := True, lc_state := Attached\<rparr>, d'))
      | None \<Rightarrow> (0, lc\<lparr>lc_state := Attached\<rparr>, d))"

definition detach_session ::
  "('d, 'm) driver_ops_scheme \<Rightarrow> lifecycle \<Rightarrow> 'd \<Rightarrow> i32 \<times> lifecycle \<times> 'd" where
  "detach_session ops lc d =
     (if lc_state lc = Closed then (0, lc, d)
      else let lc1 = lc\<lparr>lc_state := Detaching\<rparr>
           in if lc_attached_by_control_plane lc1
              then (case dr_detach_device ops 0 d of
                      (Inl _, d') \<Rightarrow> (-1, lc1, d')
                    | (Inr _, d') \<Rightarrow>
                        (0, lc1\<lparr>lc_attached_by_control_plane := False, lc_state := Closed\<rparr>, d'))
              else (0, lc1\<lparr>lc_state := Closed\<rparr>, d))"

definition descriptor_set_for_attach :: "device_attach_request option \<Rightarrow> usb_descriptor_set" where
  "descriptor_set_for_attach attach_device =
     (let (vendor_id, product_id) =
        (case attach_device of
           Some request \<Rightarrow> (da_vendor_id request, da_product_id request)
         | None \<Rightarrow> (0x1209, 0x0001))
      in mock_hid_keyboard vendor_id product_id)"

section \<open>Configuration of a session\<close>

datatype mock_transfer_outcome = OutcomeStatus transfer_status | ShortPacket nat

record mock_transfer_outcome_rule =
  mo_request_id :: u64
  mo_outcome :: mock_transfer_outcome

record session_config =
  sc_attach_device :: "device_attach_request option"
  sc_mock_hid_keycodes :: bytes
  sc_mock_transfer_outcomes :: "mock_transfer_outcome_rule list"

text \<open>
  The blocking TX worker polls the driver and sends what it finds to a channel of 100
  messages: it is polling, or blocked with an encoded frame in hand, or it has panicked.
\<close>

datatype tx_worker = Polling | Sending bytes | WorkerDead

definition TX_CHANNEL_CAPACITY :: nat where "TX_CHANNEL_CAPACITY = 100"

record 'd session =
  ss_lifecycle :: lifecycle
  ss_descriptors :: "usb_descriptor_set option"
  ss_registers :: device_registers
  ss_queues :: endpoint_queues
  ss_worker :: tx_worker
  ss_channel :: "bytes list"
  ss_driver :: 'd

definition session_start :: "'d \<Rightarrow> 'd session" where
  "session_start d =
     \<lparr>ss_lifecycle = \<lparr>lc_attached_by_control_plane = False, lc_state = Connected\<rparr>,
      ss_descriptors = None, ss_registers = \<lparr>reg_address = 0, reg_configuration = 0\<rparr>,
      ss_queues = queues_default, ss_worker = Polling, ss_channel = [], ss_driver = d\<rparr>"

section \<open>Transfers\<close>

text \<open>The text of \<open>b"Mock response from daemon driver"\<close>.\<close>

definition mock_response_text :: bytes where
  "mock_response_text = map (of_nat \<circ> of_char) ''Mock response from daemon driver''"

text \<open>\<open>None\<close> is the panic of \<open>MockBulkPayload::encode\<close>.\<close>

definition outbound_network_frame :: "frame \<Rightarrow> frame option" where
  "outbound_network_frame f =
     (if fr_frame_type f = Request
      then (case mock_bulk_decode (fr_payload f) of
              Inr payload \<Rightarrow> map_option (mock_response f) (mock_bulk_encode payload)
            | Inl _ \<Rightarrow> Some (mock_response f mock_response_text))
      else Some f)"

definition mock_transfer_outcome_response ::
  "frame \<Rightarrow> mock_transfer_outcome_rule list \<Rightarrow> frame option" where
  "mock_transfer_outcome_response f outcomes =
     (case find (\<lambda>rule. mo_request_id rule = fr_request_id f) outcomes of
        None \<Rightarrow> None
      | Some rule \<Rightarrow>
          (case mo_outcome rule of
             OutcomeStatus status \<Rightarrow> Some (status_response f status)
           | ShortPacket len \<Rightarrow> Some (mock_response f (take len mock_response_text))))"

definition handle_cancel_request ::
  "frame \<Rightarrow> session_state \<Rightarrow> endpoint_queues \<Rightarrow> frame \<times> endpoint_queues" where
  "handle_cancel_request f state qs =
     (if state \<noteq> Attached then (cancel_response f Failed, qs)
      else case cancel (fr_request_id f) qs of
        (Some cancelled, qs') \<Rightarrow> (cancel_response f Cancelled, qs')
      | (None, qs') \<Rightarrow> (cancel_response f Failed, qs'))"

definition handle_reset_request ::
  "frame \<Rightarrow> session_state \<Rightarrow> endpoint_queues \<Rightarrow> frame list \<times> endpoint_queues" where
  "handle_reset_request f state qs =
     (if state \<noteq> Attached then ([reset_response f Failed], qs)
      else let key = key_from_frame f;
               (dropped, qs') = reset_endpoint key qs
           in (reset_response f Ok #
               map (\<lambda>transfer. status_response (qt_frame transfer) Reset) dropped, qs'))"

text \<open>
  The loop that hands every queued transfer to the driver; its result is the list of the
  answers to the transfers the driver refused.
\<close>

partial_function (option) flush_endpoint_transfers ::
  "('d, 'm) driver_ops_scheme \<Rightarrow> 'd \<Rightarrow> endpoint_queues \<Rightarrow> (frame list \<times> 'd \<times> endpoint_queues) option"
  where [code]:
  "flush_endpoint_transfers ops d qs =
     (case pop_next qs of
        (None, qs') \<Rightarrow> Some ([], d, qs')
      | (Some transfer, qs') \<Rightarrow>
          Option.bind (frame_encode (qt_frame transfer)) (\<lambda>bs.
            case dr_push_rx_bytes ops bs d of
              (Inl _, d') \<Rightarrow>
                Option.bind (flush_endpoint_transfers ops d' qs') (\<lambda>(failed, d'', qs'').
                  Some (status_response (qt_frame transfer) Failed # failed, d'', qs''))
            | (Inr _, d') \<Rightarrow>
                (case dr_pump_once ops d' of
                   (_, d'') \<Rightarrow> flush_endpoint_transfers ops d'' qs')))"

section \<open>One network frame\<close>

text \<open>
  What a handler asks to be written: \<open>out_must\<close> are the frames whose failed write ends the
  session, \<open>out_may\<close> those whose failed write only drops the rest of them.
\<close>

datatype loop_flow = Continue | Break

record outgoing =
  out_must :: "frame list"
  out_may :: "frame list"
  out_flow :: loop_flow

definition outgoing_none :: outgoing where
  "outgoing_none = \<lparr>out_must = [], out_may = [], out_flow = Continue\<rparr>"

definition outgoing_one :: "frame \<Rightarrow> outgoing" where
  "outgoing_one f = outgoing_none\<lparr>out_must := [f]\<rparr>"

definition outgoing_list :: "frame list \<Rightarrow> outgoing" where
  "outgoing_list fs = outgoing_none\<lparr>out_may := fs\<rparr>"

definition on_attach_request ::
  "('d, 'm) driver_ops_scheme \<Rightarrow> session_config \<Rightarrow> frame \<Rightarrow> 'd session \<Rightarrow> outgoing \<times> 'd session" where
  "on_attach_request ops cfg f s =
     (let (status, lc, d) =
            attach_session ops (sc_attach_device cfg) (ss_lifecycle s) (ss_driver s);
          s1 = s\<lparr>ss_lifecycle := lc, ss_driver := d\<rparr>
      in if status = 0
         then let descriptors = descriptor_set_for_attach (sc_attach_device cfg);
                  s2 = s1\<lparr>ss_descriptors := Some descriptors\<rparr>
              in (outgoing_one (case attach_response_with_descriptors f status descriptors of
                                  Inr response \<Rightarrow> response
                                | Inl _ \<Rightarrow> attach_response f (-1)), s2)
         else (outgoing_one (attach_response f status), s1))"

definition on_detach_request ::
  "('d, 'm) driver_ops_scheme \<Rightarrow> frame \<Rightarrow> 'd session \<Rightarrow> outgoing \<times> 'd session" where
  "on_detach_request ops f s =
     (let (status, lc, d) = detach_session ops (ss_lifecycle s) (ss_driver s)
      in (\<lparr>out_must = [detach_response f status], out_may = [], out_flow = Break\<rparr>,
          s\<lparr>ss_lifecycle := lc, ss_driver := d\<rparr>))"

definition on_request ::
  "('d, 'm) driver_ops_scheme \<Rightarrow> session_config \<Rightarrow> frame \<Rightarrow> 'd session \<Rightarrow>
   (outgoing \<times> 'd session) option" where
  "on_request ops cfg f s =
     (if lc_state (ss_lifecycle s) \<noteq> Attached
      then Some (outgoing_one (status_response f Failed), s)
      else if fr_transfer_type f = Control \<and> fr_endpoint f = 0
      then let (reply, regs) = handle_control_request f (ss_descriptors s)
                 (sc_mock_hid_keycodes cfg) (ss_registers s)
           in Some ((outgoing_one (cr_response reply))\<lparr>out_may := cr_events reply\<rparr>,
                    s\<lparr>ss_registers := regs\<rparr>)
      else case mock_transfer_outcome_response f (sc_mock_transfer_outcomes cfg) of
        Some response \<Rightarrow> Some (outgoing_one response, s)
      | None \<Rightarrow>
          (case enqueue f (ss_queues s) of
             (Inl _, qs) \<Rightarrow> Some (outgoing_none, s\<lparr>ss_queues := qs\<rparr>)
           | (Inr _, qs) \<Rightarrow>
               Option.bind (flush_endpoint_transfers ops (ss_driver s) qs) (\<lambda>(failed, d, qs').
                 Some (outgoing_list failed, s\<lparr>ss_driver := d, ss_queues := qs'\<rparr>))))"

definition on_network_frame ::
  "('d, 'm) driver_ops_scheme \<Rightarrow> session_config \<Rightarrow> frame \<Rightarrow> 'd session \<Rightarrow>
   (outgoing \<times> 'd session) option" where
  "on_network_frame ops cfg f s =
     (case fr_frame_type f of
        AttachRequest \<Rightarrow> Some (on_attach_request ops cfg f s)
      | DetachRequest \<Rightarrow> Some (on_detach_request ops f s)
      | CancelRequest \<Rightarrow>
          (let (response, qs) = handle_cancel_request f (lc_state (ss_lifecycle s)) (ss_queues s)
           in Some (outgoing_one response, s\<lparr>ss_queues := qs\<rparr>))
      | ResetRequest \<Rightarrow>
          (let (responses, qs) = handle_reset_request f (lc_state (ss_lifecycle s)) (ss_queues s)
           in Some (outgoing_list responses, s\<lparr>ss_queues := qs\<rparr>))
      | Request \<Rightarrow> on_request ops cfg f s
      | _ \<Rightarrow> Some (outgoing_none, s))"

section \<open>The TX worker\<close>

text \<open>
  One poll of the driver: the encoded frame to be sent to the channel, if any. A driver
  error only drops the frame.
\<close>

definition tx_worker_poll ::
  "('d, 'm) driver_ops_scheme \<Rightarrow> 'd \<Rightarrow> (bytes option \<times> 'd) option" where
  "tx_worker_poll ops d =
     (case dr_poll_tx_frame ops d of
        (Inr (Some f), d') \<Rightarrow>
          Option.bind (outbound_network_frame f) (\<lambda>outbound.
          Option.bind (frame_encode outbound) (\<lambda>bs. Some (Some bs, d')))
      | (Inr None, d') \<Rightarrow> Some (None, d')
      | (Inl _, d') \<Rightarrow> Some (None, d'))"

text \<open>
  One turn: a frame in hand is sent when the channel has room, otherwise the driver is
  polled. A panic ends the worker, not the session.
\<close>

definition tx_worker_turn :: "('d, 'm) driver_ops_scheme \<Rightarrow> 'd session \<Rightarrow> 'd session" where
  "tx_worker_turn ops s =
     (case ss_worker s of
        WorkerDead \<Rightarrow> s
      | Sending bs \<Rightarrow>
          if length (ss_channel s) < TX_CHANNEL_CAPACITY
          then s\<lparr>ss_worker := Polling, ss_channel := ss_channel s @ [bs]\<rparr> else s
      | Polling \<Rightarrow>
          (case tx_worker_poll ops (ss_driver s) of
             None \<Rightarrow> s\<lparr>ss_worker := WorkerDead\<rparr>
           | Some (None, d) \<Rightarrow> s\<lparr>ss_driver := d\<rparr>
           | Some (Some bs, d) \<Rightarrow> s\<lparr>ss_worker := Sending bs, ss_driver := d\<rparr>))"

section \<open>The event loop\<close>

text \<open>
  The events: a message of the length-delimited stream, a read error or the end of the
  stream; a message received from the worker's channel; and a turn of the worker. The
  outcome of each write of a step is given beside the event; writes beyond the list succeed.
\<close>

datatype session_event = NetMessage bytes | NetError | NetEnd | TxRecv | WorkerTurn

fun write_all :: "bytes list \<Rightarrow> bool list \<Rightarrow> bytes list \<times> bool list \<times> bool" where
  "write_all [] oks = ([], oks, True)"
| "write_all (b # bs) [] = (b # bs, [], True)"
| "write_all (b # bs) (ok # oks) =
     (if ok then (let (sent, oks', done) = write_all bs oks in (b # sent, oks', done))
      else ([], oks, False))"

fun encode_all :: "frame list \<Rightarrow> bytes list option" where
  "encode_all [] = Some []"
| "encode_all (f # fs) =
     Option.bind (frame_encode f) (\<lambda>b. Option.bind (encode_all fs) (\<lambda>bs. Some (b # bs)))"

definition write_outgoing :: "outgoing \<Rightarrow> bool list \<Rightarrow> (bytes list \<times> loop_flow) option" where
  "write_outgoing out oks =
     Option.bind (encode_all (out_must out)) (\<lambda>must.
     Option.bind (encode_all (out_may out)) (\<lambda>may.
       let (sent, oks', done) = write_all must oks
       in if \<not> done then Some (sent, Break)
          else let (sent', _, _) = write_all may oks' in Some (sent @ sent', out_flow out)))"

definition session_step ::
  "('d, 'm) driver_ops_scheme \<Rightarrow> session_config \<Rightarrow> session_event \<Rightarrow> bool list \<Rightarrow> 'd session \<Rightarrow>
   (bytes list \<times> loop_flow \<times> 'd session) option" where
  "session_step ops cfg event oks s =
     (case event of
        NetMessage bs \<Rightarrow>
          (case frame_decode bs of
             Inl _ \<Rightarrow> Some ([], Continue, s)
           | Inr f \<Rightarrow>
               Option.bind (on_network_frame ops cfg f s) (\<lambda>(out, s').
               Option.bind (write_outgoing out oks) (\<lambda>(sent, fl). Some (sent, fl, s'))))
      | NetError \<Rightarrow> Some ([], Break, s)
      | NetEnd \<Rightarrow> Some ([], Break, s)
      | TxRecv \<Rightarrow>
          (case ss_channel s of
             [] \<Rightarrow> Some ([], Continue, s)
           | bs # channel \<Rightarrow>
               let (sent, _, done) = write_all [bs] oks
               in Some (sent, if done then Continue else Break, s\<lparr>ss_channel := channel\<rparr>))
      | WorkerTurn \<Rightarrow> Some ([], Continue, tx_worker_turn ops s))"

text \<open>The code after the loop.\<close>

definition session_cleanup :: "('d, 'm) driver_ops_scheme \<Rightarrow> 'd session \<Rightarrow> 'd session" where
  "session_cleanup ops s =
     (let (_, lc, d) = detach_session ops ((ss_lifecycle s)\<lparr>lc_state := Detaching\<rparr>) (ss_driver s);
          (_, qs) = clear_queues (ss_queues s)
      in s\<lparr>ss_lifecycle := lc\<lparr>lc_state := Closed\<rparr>, ss_driver := d, ss_queues := qs\<rparr>)"

fun session_run ::
  "('d, 'm) driver_ops_scheme \<Rightarrow> session_config \<Rightarrow> (session_event \<times> bool list) list \<Rightarrow> 'd session \<Rightarrow>
   (bytes list \<times> loop_flow \<times> 'd session) option" where
  "session_run ops cfg [] s = Some ([], Continue, s)"
| "session_run ops cfg ((event, oks) # events) s =
     Option.bind (session_step ops cfg event oks s) (\<lambda>(sent, fl, s').
       case fl of
         Break \<Rightarrow> Some (sent, Break, session_cleanup ops s')
       | Continue \<Rightarrow>
           Option.bind (session_run ops cfg events s') (\<lambda>(sent', fl', s'').
             Some (sent @ sent', fl', s'')))"

end
