(* ===== verification/Session_Dispatch.thy ===== *)
theory Session_Dispatch imports Daemon_Session begin

text \<open>
  The dispatch of queued transfers to the driver, \<open>flush_endpoint_transfers\<close>: the loop ends,
  it is the sequential push of what the scheduler hands out, and in the session, where it
  runs after every accepted request, it makes the queue transparent.
\<close>

section \<open>The loop and its reference\<close>

text \<open>Pushing a list of transfers to the driver one after the other.\<close>

fun push_all ::
  "('d, 'm) driver_ops_scheme \<Rightarrow> queued_transfer list \<Rightarrow> 'd \<Rightarrow> (frame list \<times> 'd) option" where
  "push_all ops [] d = Some ([], d)"
| "push_all ops (t # ts) d =
     Option.bind (frame_encode (qt_frame t)) (\<lambda>bs.
       case dr_push_rx_bytes ops bs d of
         (Inl _, d') \<Rightarrow>
           Option.bind (push_all ops ts d') (\<lambda>(failed, d'').
             Some (status_response (qt_frame t) Failed # failed, d''))
       | (Inr _, d') \<Rightarrow> push_all ops ts (snd (dr_pump_once ops d')))"

lemma flush_None:
  "pop_next qs = (None, qs') \<Longrightarrow> flush_endpoint_transfers ops d qs = Some ([], d, qs')"
  by (simp add: flush_endpoint_transfers.simps)

lemma flush_Some:
  "pop_next qs = (Some t, qs') \<Longrightarrow> flush_endpoint_transfers ops d qs =
     Option.bind (frame_encode (qt_frame t)) (\<lambda>bs.
       case dr_push_rx_bytes ops bs d of
         (Inl _, d') \<Rightarrow>
           Option.bind (flush_endpoint_transfers ops d' qs') (\<lambda>(failed, d'', qs'').
             Some (status_response (qt_frame t) Failed # failed, d'', qs''))
       | (Inr _, d') \<Rightarrow> flush_endpoint_transfers ops (snd (dr_pump_once ops d')) qs')"
  by (subst flush_endpoint_transfers.simps)
    (auto split: prod.splits sum.splits intro!: Option.bind_cong)

lemma inv_len_zero: "queues_inv qs \<Longrightarrow> eq_len qs = 0 \<longleftrightarrow> eq_active_order qs = []"
  using queues.backlog_zero_iff [of qs] backlog_len [of qs] by simp

lemma pop_next_len:
  assumes "queues_inv qs" "pop_next qs = (Some t, qs')"
  shows "eq_len qs = Suc (eq_len qs')" "queues_inv qs'"
proof -
  show inv: "queues_inv qs'"
    using queues.pops_fifo [OF assms(1), of 1 "[t]" qs'] assms(2) by simp
  show "eq_len qs = Suc (eq_len qs')"
    using queues.backlog_pop [OF assms] by (simp add: backlog_len assms(1) inv)
qed

lemma pop_next_casesE:
  assumes "queues_inv qs"
  obtains (empty) "eq_len qs = 0" "pop_next qs = (None, qs)"
  | (front) t qs' where "pop_next qs = (Some t, qs')" "eq_len qs = Suc (eq_len qs')" "queues_inv qs'"
  using assms
proof (cases rule: queues.pop_cases)
  case empty
  then show thesis using that(1) inv_len_zero [OF assms] by simp
next
  case (front k ks t s')
  then show thesis using that(2) pop_next_len [OF assms front(2)] by simp
qed

lemma flush_pop_times:
  assumes "queues_inv qs"
  shows "flush_endpoint_transfers ops d qs =
    (case pop_times (eq_len qs) qs of (ts, qs') \<Rightarrow>
       map_option (\<lambda>(failed, d'). (failed, d', qs')) (push_all ops ts d))"
  using assms
proof (induction "eq_len qs" arbitrary: qs d)
  case 0
  then show ?case
    using pop_next_None [OF 0(2)] inv_len_zero [OF 0(2)] by (simp add: flush_None)
next
  case (Suc n)
  from Suc.prems show ?case
  proof (cases rule: pop_next_casesE)
    case empty
    with Suc.hyps(2) show ?thesis by simp
  next
    case (front t qs')
    then have n: "n = eq_len qs'" using Suc.hyps(2) by simp
    obtain ts qs'' where p: "pop_times n qs' = (ts, qs'')" by fastforce
    then have "pop_times (eq_len qs) qs = (t # ts, qs'')"
      by (simp add: front n [symmetric])
    moreover have "flush_endpoint_transfers ops d' qs' =
        map_option (\<lambda>(failed, d'). (failed, d', qs'')) (push_all ops ts d')" for d'
      using Suc.hyps(1) [OF n front(3), of d'] p by (simp add: n)
    ultimately show ?thesis
      by (simp add: flush_Some [OF front(1)] option.map_comp o_def case_prod_beta'
          split: bind_splits sum.split prod.split)
  qed
qed

lemma push_all_Some:
  assumes "\<forall>t \<in> set ts. wf_frame (qt_frame t)"
  shows "\<exists>failed d'. push_all ops ts d = Some (failed, d') \<and> length failed \<le> length ts"
  using assms
proof (induction ts arbitrary: d)
  case (Cons t ts)
  obtain bs where bs: "frame_encode (qt_frame t) = Some bs"
    using Cons.prems by (auto simp: frame_encode_layout)
  obtain r d' where p: "dr_push_rx_bytes ops bs d = (r, d')" by fastforce
  obtain failed d'' where "push_all ops ts d' = Some (failed, d'')" "length failed \<le> length ts"
    using Cons.IH [of d'] Cons.prems by auto
  moreover obtain failed2 d2 where "push_all ops ts (snd (dr_pump_once ops d')) = Some (failed2, d2)"
      "length failed2 \<le> length ts"
    using Cons.IH [of "snd (dr_pump_once ops d')"] Cons.prems by auto
  ultimately show ?case
    by (cases r) (simp_all add: bs p)
qed simp

lemma pop_all:
  assumes inv: "queues_inv qs" and p: "pop_times (eq_len qs) qs = (ts, qs')"
  shows "queues_inv qs'" "eq_active_order qs' = []" "eq_len qs' = 0" "for_key key ts = pending qs key"
    "length ts = eq_len qs"
proof -
  have p': "queues.pops (queues.backlog qs) qs = (ts, qs')"
    using p by (simp add: pops_pop_times backlog_len [OF inv])
  show inv': "queues_inv qs'"
    using queues.pops_fifo [OF inv p'] by simp
  show "eq_active_order qs' = []" "for_key key ts = pending qs key"
    using queues.pops_drain [OF inv p'] by simp_all
  then show "eq_len qs' = 0"
    using inv_len_zero [OF inv'] by simp
  show "length ts = eq_len qs"
    using queues.pops_count(1) [OF inv p'] by (simp add: backlog_len [OF inv])
qed

lemma all_pending_Nil: "eq_active_order qs = [] \<Longrightarrow> all_pending qs = []"
  by (simp add: all_pending_def)

text \<open>
  Dispatching is a plain sequential loop over what the scheduler hands out: from any
  reachable queue state \<open>flush_endpoint_transfers\<close> is the push of the transfers, in the order
  in which \<open>pop_next\<close> gives them, to the driver one after the other, with the refused ones
  answered in that order.
\<close>

theorem flush_is_sequential_push:
  "flush_endpoint_transfers ops d (reached qops) =
     (case pop_times (eq_len (reached qops)) (reached qops) of (ts, qs') \<Rightarrow>
        map_option (\<lambda>(failed, d'). (failed, d', qs')) (push_all ops ts d))"
  by (rule flush_pop_times [OF reached_inv])

lemma accepted_enqueued:
  "t \<in> set (qf_accepted (fst (queue_run qops qs))) \<Longrightarrow> EnqueueOp (qt_frame t) \<in> set qops"
proof (induction qops arbitrary: qs)
  case (Cons op qops)
  have "EnqueueOp (qt_frame t) = op" if "t \<in> set (qf_accepted (fst (queue_step op qs)))"
    using that by (cases op) (auto split: prod.splits sum.splits option.splits)
  moreover obtain fl qs1 where s: "queue_step op qs = (fl, qs1)" by fastforce
  moreover obtain fls qs2 where r: "queue_run qops qs1 = (fls, qs2)" by fastforce
  ultimately show ?case
    using Cons.IH [of qs1] Cons.prems by auto
qed simp

lemma pending_enqueued:
  assumes "t \<in> set (all_pending (reached qops))"
  shows "EnqueueOp (qt_frame t) \<in> set qops"
proof -
  have "t \<in> set (pending (reached qops) (qt_key t))"
    using assms by (simp flip: for_key_all_pending [OF reached_inv])
  then have "t \<in># mset (pending (reached qops) (qt_key t))" by simp
  then have "t \<in># mset (for_key (qt_key t) (qf_accepted (fst (queue_run qops queues_default))))"
    using queue_run_ok [OF queues_inv_default, of qops]
    by (simp add: step_ok_def reached_def)
  then show ?thesis
    using accepted_enqueued by simp
qed

text \<open>
  C25: the dispatch loop ends, whatever the driver answers: after any sequence of queue
  operations whose enqueued frames fit the wire format it returns, with at most one failure
  answer per queued transfer, and leaves the queue empty.
\<close>

theorem flush_ends:
  assumes "\<forall>f. EnqueueOp f \<in> set qops \<longrightarrow> wf_frame f"
  shows "\<exists>failed d' qs'. flush_endpoint_transfers ops d (reached qops) = Some (failed, d', qs') \<and>
    length failed \<le> eq_len (reached qops) \<and> eq_len qs' = 0 \<and> all_pending qs' = []"
proof -
  obtain ts qs' where p: "pop_times (eq_len (reached qops)) (reached qops) = (ts, qs')" by fastforce
  note all = pop_all [OF reached_inv p]
  have "wf_frame (qt_frame t)" if "t \<in> set ts" for t
  proof -
    have "t \<in> set (for_key (qt_key t) ts)" using that by simp
    then have "t \<in> set (for_key (qt_key t) (all_pending (reached qops)))"
      by (simp only: all(4) for_key_all_pending [OF reached_inv])
    then show ?thesis using assms pending_enqueued by simp
  qed
  then obtain failed d' where "push_all ops ts d = Some (failed, d')" "length failed \<le> length ts"
    using push_all_Some [of ts ops d] by blast
  then show ?thesis
    using all(2,3,5) by (simp add: flush_pop_times [OF reached_inv] p all_pending_Nil)
qed

theorem flush_ends_witness:
  "\<exists>failed d' qs'. flush_endpoint_transfers mock_ops \<lparr>md_tx = ring_empty, md_rx = ring_empty\<rparr>
       (reached [EnqueueOp (mock_request 7 [1, 2]), EnqueueOp (mock_request 8 [3])]) =
         Some (failed, d', qs') \<and>
     length failed \<le> eq_len (reached [EnqueueOp (mock_request 7 [1, 2]), EnqueueOp (mock_request 8 [3])]) \<and>
     eq_len qs' = 0 \<and> all_pending qs' = []"
  by (rule flush_ends) (auto simp: mock_request_def frame_new_def wf_frame_def)

section \<open>The queue between two events\<close>

text \<open>
  In the session the loop runs right after every accepted request, so between two events
  the queue is empty, and the request just accepted is the only one dispatched.
\<close>

definition queues_idle :: "endpoint_queues \<Rightarrow> bool" where
  "queues_idle qs \<longleftrightarrow> queues_inv qs \<and> eq_active_order qs = []"

lemma queues_idle_default [simp]: "queues_idle queues_default"
  by (simp add: queues_idle_def) (simp add: queues_default_def)

lemma queues_idle_cancel: "queues_idle qs \<Longrightarrow> cancel request_id qs = (None, qs)"
proof -
  assume idle: "queues_idle qs"
  then have none: "pending qs key = []" for key
    using pop_next_None(2) by (simp add: queues_idle_def)
  obtain r qs' where c: "cancel request_id qs = (r, qs')" by fastforce
  have "r = None"
  proof (rule ccontr)
    assume "r \<noteq> None"
    then obtain t where "cancel request_id qs = (Some t, qs')" using c by auto
    then show False
      by (rule cancel_Some [of qs, rotated]) (use idle none in \<open>auto simp: queues_idle_def\<close>)
  qed
  moreover from this have "qs' = qs"
    using cancel_None(2) [of qs request_id] c idle by (simp add: queues_idle_def)
  ultimately show ?thesis using c by simp
qed

lemma queues_idle_reset: "queues_idle qs \<Longrightarrow> \<exists>qs'. reset_endpoint key qs = ([], qs') \<and> queues_idle qs'"
  using pop_next_None(2) [of qs key]
  by (auto simp: queues_idle_def elim!: reset_endpoint_effect [of qs key])

lemma queues_idle_clear: "queues_idle qs \<Longrightarrow> queues_idle (snd (clear_queues qs))"
  using clear_queues_effect [of qs] by (simp add: queues_idle_def)

lemma enqueue_flush_idle:
  assumes idle: "queues_idle qs" and req: "fr_frame_type f = Request" and enc: "frame_encode f = Some bs"
  obtains sequence qs1 qs2 where "enqueue f qs = (Inr sequence, qs1)" "queues_idle qs2"
    "\<And>(ops :: ('d, 'm) driver_ops_scheme) d. flush_endpoint_transfers ops d qs1 =
       (case dr_push_rx_bytes ops bs d of
          (Inl _, d') \<Rightarrow> Some ([status_response f Failed], d', qs2)
        | (Inr _, d') \<Rightarrow> Some ([], snd (dr_pump_once ops d'), qs2))"
proof -
  have inv: "queues_inv qs" and ord: "eq_active_order qs = []"
    using idle by (simp_all add: queues_idle_def)
  have none: "pending qs key = []" for key
    by (rule pop_next_None(2) [OF inv ord])
  show thesis
  proof (rule enqueue_request [OF inv req])
    fix qs1
    let ?t = "\<lparr>qt_sequence = eq_next_sequence qs, qt_key = key_from_frame f, qt_frame = f\<rparr>"
    assume e: "enqueue f qs = (Inr (eq_next_sequence qs), qs1)" and inv1: "queues_inv qs1"
      and p1: "\<And>key. pending qs1 key =
        (if key = key_from_frame f
         then pending qs key @ [\<lparr>qt_sequence = eq_next_sequence qs, qt_key = key, qt_frame = f\<rparr>]
         else pending qs key)"
      and o1: "eq_active_order qs1 = (if pending qs (key_from_frame f) = []
        then eq_active_order qs @ [key_from_frame f] else eq_active_order qs)"
    have o1': "eq_active_order qs1 = [key_from_frame f]" by (simp add: o1 none ord)
    show thesis
    proof (rule pop_next_Some [OF inv1 o1'])
      fix t qs2
      assume p: "pending qs1 (key_from_frame f) = t # pending qs2 (key_from_frame f)"
        and pop: "pop_next qs1 = (Some t, qs2)" and inv2: "queues_inv qs2"
        and o2: "eq_active_order qs2 =
          (if pending qs2 (key_from_frame f) = [] then [] else [] @ [key_from_frame f])"
      have t: "t = ?t" "pending qs2 (key_from_frame f) = []"
        using p by (simp_all add: p1 none)
      then have o2': "eq_active_order qs2 = []" by (simp add: o2)
      have "flush_endpoint_transfers ops d qs2 = Some ([], d, qs2)"
        for ops :: "('d, 'm) driver_ops_scheme" and d
        by (rule flush_None [OF pop_next_None(1) [OF inv2 o2']])
      then have "flush_endpoint_transfers ops d qs1 =
          (case dr_push_rx_bytes ops bs d of
             (Inl _, d') \<Rightarrow> Some ([status_response f Failed], d', qs2)
           | (Inr _, d') \<Rightarrow> Some ([], snd (dr_pump_once ops d'), qs2))"
        for ops :: "('d, 'm) driver_ops_scheme" and d
        by (simp add: flush_Some [OF pop] t enc split: prod.split sum.split)
      then show thesis
        using that [OF e, of qs2] inv2 o2' by (simp add: queues_idle_def)
    qed
  qed
qed

end
