(* ===== verification/Session_Run.thy ===== *)
theory Session_Run imports Session_Dispatch begin

text \<open>
  What holds of every run of the daemon's session, whatever the client sends, whatever the
  driver answers and whichever writes fail: nothing panics, the session state is consistent,
  every request is answered or handed to the driver, and the control plane is balanced.
\<close>

section \<open>What a handler writes can be encoded\<close>

definition outgoing_wf :: "outgoing \<Rightarrow> bool" where
  "outgoing_wf out \<longleftrightarrow> list_all wf_frame (out_must out @ out_may out)"

lemma outgoing_simps [simp]:
  "out_must (outgoing_one f) = [f]" "out_may (outgoing_one f) = []" "out_flow (outgoing_one f) = Continue"
  "out_must outgoing_none = []" "out_may outgoing_none = []" "out_flow outgoing_none = Continue"
  "out_must (outgoing_list fs) = []" "out_may (outgoing_list fs) = fs"
  "out_flow (outgoing_list fs) = Continue"
  by (simp_all add: outgoing_one_def outgoing_none_def outgoing_list_def)

lemma wf_frame_answers [simp]:
  "wf_frame (status_response f st)" "wf_frame (cancel_response f st)" "wf_frame (reset_response f st)"
  "wf_frame (attach_response f code)" "wf_frame (detach_response f code)"
  "wf_frame (hid_keyboard_input_event n r)"
  by (simp_all add: wf_frame_def status_response_def cancel_response_def reset_response_def
      attach_response_def detach_response_def hid_keyboard_input_event_def hid_report_encode_def
      frame_new_def)

lemma wf_control_response [simp]: "length data \<le> 65535 \<Longrightarrow> wf_frame (control_response f st data)"
  by (simp add: wf_frame_def control_response_def frame_new_def control_transfer_encode_def
      control_transfer_new_def split: sum.split)

lemma wf_mock_response [simp]: "length p \<le> 4294967295 \<Longrightarrow> wf_frame (mock_response f p)"
  by (simp add: wf_frame_def mock_response_def frame_new_def)

lemma length_mock_response_text [simp]: "length mock_response_text = 32"
  by (simp add: mock_response_text_def)

lemma wf_mock_transfer_outcome_response:
  "mock_transfer_outcome_response f rules = Some r \<Longrightarrow> wf_frame r"
  by (auto simp: mock_transfer_outcome_response_def split: option.splits mock_transfer_outcome.splits)

lemma list_all_events: "list_all wf_frame (mock_hid_keyboard_events keys)"
  by (simp add: mock_hid_keyboard_events_def list_all_iff)

lemma cr_events_cases: "cr_events (fst (handle_control_request f ds keys regs)) \<in>
    {[], mock_hid_keyboard_events keys}"
  by (auto simp: handle_control_request_def handle_get_descriptor_def handle_set_address_def
      handle_set_configuration_def Let_def split: sum.split option.split usb_standard_request.split)

lemma wf_control_reply:
  "wf_frame (cr_response (fst (handle_control_request f ds keys regs)))"
  "list_all wf_frame (cr_events (fst (handle_control_request f ds keys regs)))"
proof -
  show "wf_frame (cr_response (fst (handle_control_request f ds keys regs)))"
    using handle_control_request_ok [of f regs ds keys] by (auto simp: reply_ok_def)
  show "list_all wf_frame (cr_events (fst (handle_control_request f ds keys regs)))"
    using cr_events_cases [of f ds keys regs] list_all_events by auto
qed

lemma encode_all_Some:
  "list_all wf_frame fs \<Longrightarrow> encode_all fs = Some (map (\<lambda>f. frame_layout f [0, 0, 0]) fs)"
  by (induction fs) (simp_all add: frame_encode_layout)

lemma write_outgoing_Some:
  "outgoing_wf out \<Longrightarrow> \<exists>sent fl. write_outgoing out oks = Some (sent, fl) \<and>
     (fl = Continue \<longrightarrow> out_flow out = Continue)"
  by (auto simp: outgoing_wf_def write_outgoing_def encode_all_Some Let_def case_prod_beta)

lemma write_all_default [simp]: "write_all bs [] = (bs, [], True)"
  by (cases bs) simp_all

section \<open>Consistency of the session state\<close>

definition session_ok :: "session_config \<Rightarrow> 'd session \<Rightarrow> bool" where
  "session_ok cfg s \<longleftrightarrow>
     queues_idle (ss_queues s) \<and>
     (case lc_state (ss_lifecycle s) of
        Connected \<Rightarrow> \<not> lc_attached_by_control_plane (ss_lifecycle s)
      | Attached \<Rightarrow>
          lc_attached_by_control_plane (ss_lifecycle s) = (sc_attach_device cfg \<noteq> None) \<and>
          ss_descriptors s = Some (descriptor_set_for_attach (sc_attach_device cfg))
      | _ \<Rightarrow> False)"

lemma session_ok_start [simp]: "session_ok cfg (session_start d)"
  by (simp add: session_ok_def session_start_def)

lemma session_ok_cases:
  assumes "session_ok cfg s"
  obtains (connected) "lc_state (ss_lifecycle s) = Connected"
      "\<not> lc_attached_by_control_plane (ss_lifecycle s)" "queues_idle (ss_queues s)"
  | (attached) "lc_state (ss_lifecycle s) = Attached"
      "lc_attached_by_control_plane (ss_lifecycle s) = (sc_attach_device cfg \<noteq> None)"
      "ss_descriptors s = Some (descriptor_set_for_attach (sc_attach_device cfg))"
      "queues_idle (ss_queues s)"
  using assms by (auto simp: session_ok_def split: session_state.splits)

lemma session_ok_idle: "session_ok cfg s \<Longrightarrow> queues_idle (ss_queues s)"
  by (simp add: session_ok_def)

lemma session_ok_update:
  "session_ok cfg s \<Longrightarrow> queues_idle qs \<Longrightarrow>
     session_ok cfg (s\<lparr>ss_queues := qs\<rparr>) \<and> session_ok cfg (s\<lparr>ss_driver := d, ss_queues := qs\<rparr>)"
  "session_ok cfg s \<Longrightarrow> session_ok cfg (s\<lparr>ss_registers := regs\<rparr>)"
  "session_ok cfg s \<Longrightarrow> session_ok cfg (s\<lparr>ss_channel := ch\<rparr>)"
  "session_ok cfg s \<Longrightarrow> session_ok cfg (s\<lparr>ss_driver := d\<rparr>)"
  "session_ok cfg s \<Longrightarrow> session_ok cfg (s\<lparr>ss_worker := w\<rparr>)"
  by (auto simp: session_ok_def split: session_state.splits)

text \<open>An accepted attach, and the answer that carries the descriptors.\<close>

lemma wf_descriptor_set_for_attach [simp]: "wf_descriptor_set (descriptor_set_for_attach dev)"
  by (simp add: descriptor_set_for_attach_def Let_def split: option.split)

lemma attach_response_ok:
  assumes "wf_descriptor_set ds"
  obtains r where "attach_response_with_descriptors f status ds = Inr r" "wf_frame r"
    "fr_request_id r = fr_request_id f" "fr_frame_type r = AttachResponse" "fr_status r = status"
    "descriptor_set_decode (fr_payload r) = Inr ds"
proof -
  obtain b where b: "descriptor_set_encode ds = Inr b" "descriptor_set_decode b = Inr ds"
    using descriptor_sets.enc_dec [OF assms] by blast
  then show thesis
    using descriptor_set_encode_fits [OF assms b(1)]
    by (intro that [of "frame_new (fr_request_id f) AttachResponse DeviceToHost Control 0 status b"])
      (simp_all add: attach_response_with_descriptors_def wf_frame_def frame_new_def)
qed

text \<open>The answer of a session that is attached.\<close>

definition attach_answer :: "frame \<Rightarrow> device_attach_request option \<Rightarrow> frame" where
  "attach_answer f dev =
     (case attach_response_with_descriptors f 0 (descriptor_set_for_attach dev) of
        Inr response \<Rightarrow> response | Inl _ \<Rightarrow> attach_response f (-1))"

lemma attach_answer_simps [simp]:
  "wf_frame (attach_answer f dev)" "fr_request_id (attach_answer f dev) = fr_request_id f"
  "fr_frame_type (attach_answer f dev) = AttachResponse" "fr_status (attach_answer f dev) = 0"
  "descriptor_set_decode (fr_payload (attach_answer f dev)) = Inr (descriptor_set_for_attach dev)"
proof -
  obtain r where "attach_response_with_descriptors f 0 (descriptor_set_for_attach dev) = Inr r"
    and r: "wf_frame r" "fr_request_id r = fr_request_id f" "fr_frame_type r = AttachResponse"
      "fr_status r = 0" "descriptor_set_decode (fr_payload r) = Inr (descriptor_set_for_attach dev)"
    by (rule attach_response_ok [OF wf_descriptor_set_for_attach])
  then have "attach_answer f dev = r"
    by (simp add: attach_answer_def)
  with r show "wf_frame (attach_answer f dev)" "fr_request_id (attach_answer f dev) = fr_request_id f"
    "fr_frame_type (attach_answer f dev) = AttachResponse" "fr_status (attach_answer f dev) = 0"
    "descriptor_set_decode (fr_payload (attach_answer f dev)) = Inr (descriptor_set_for_attach dev)"
    by simp_all
qed

lemma attach_session_cases:
  assumes "attach_session ops dev lc d = (status, lc', d')"
  obtains (again) "lc_state lc = Attached" "status = 0" "lc' = lc" "d' = d"
  | (refused) e request where "lc_state lc \<noteq> Attached" "dev = Some request"
      "dr_attach_device ops request d = (Inl e, d')" "status = -1" "lc' = lc"
  | (control_plane) request where "lc_state lc \<noteq> Attached" "dev = Some request"
      "dr_attach_device ops request d = (Inr (), d')" "status = 0"
      "lc' = lc\<lparr>lc_attached_by_control_plane := True, lc_state := Attached\<rparr>"
  | (protocol) "lc_state lc \<noteq> Attached" "dev = None" "status = 0" "d' = d"
      "lc' = lc\<lparr>lc_state := Attached\<rparr>"
  using assms by (auto simp: attach_session_def split: if_splits option.splits prod.splits sum.splits)

lemma on_attach_request_Ok:
  "attach_session ops (sc_attach_device cfg) (ss_lifecycle s) (ss_driver s) = (0, lc, d) \<Longrightarrow>
   on_attach_request ops cfg f s =
     (outgoing_one (attach_answer f (sc_attach_device cfg)),
      s\<lparr>ss_lifecycle := lc, ss_driver := d,
        ss_descriptors := Some (descriptor_set_for_attach (sc_attach_device cfg))\<rparr>)"
  by (simp add: on_attach_request_def attach_answer_def Let_def)

lemma on_attach_request_refused:
  "attach_session ops (sc_attach_device cfg) (ss_lifecycle s) (ss_driver s) = (-1, lc, d) \<Longrightarrow>
   on_attach_request ops cfg f s =
     (outgoing_one (attach_response f (-1)), s\<lparr>ss_lifecycle := lc, ss_driver := d\<rparr>)"
  by (simp add: on_attach_request_def)

lemma on_attach_request_ok:
  assumes ok: "session_ok cfg s" and r: "on_attach_request ops cfg f s = (out, s')"
  shows "session_ok cfg s'" and "outgoing_wf out" and "out_flow out = Continue"
proof -
  obtain status lc d where a: "attach_session ops (sc_attach_device cfg) (ss_lifecycle s) (ss_driver s) =
      (status, lc, d)"
    by (metis prod_cases3)
  have "session_ok cfg s' \<and> outgoing_wf out \<and> out_flow out = Continue"
    using a
  proof (cases rule: attach_session_cases)
    case refused
    then show ?thesis
      using r a on_attach_request_refused [of ops cfg s lc d f] ok
      by (auto simp: outgoing_wf_def session_ok_def split: session_state.splits)
  qed (use r a on_attach_request_Ok [of ops cfg s lc d f] ok in
      \<open>auto simp: outgoing_wf_def session_ok_def split: session_state.splits\<close>)
  then show "session_ok cfg s'" "outgoing_wf out" "out_flow out = Continue"
    by simp_all
qed

section \<open>One request\<close>

text \<open>
  What becomes of a request in an attached session: the queue does not show.
\<close>

definition to_driver :: "session_config \<Rightarrow> frame \<Rightarrow> bool" where
  "to_driver cfg f \<longleftrightarrow> fr_frame_type f = Request \<and> \<not> (fr_transfer_type f = Control \<and> fr_endpoint f = 0) \<and>
     mock_transfer_outcome_response f (sc_mock_transfer_outcomes cfg) = None"

lemma on_request_early:
  "lc_state (ss_lifecycle s) \<noteq> Attached \<Longrightarrow>
     on_request ops cfg f s = Some (outgoing_one (status_response f Failed), s)"
  by (simp add: on_request_def)

lemma on_request_control:
  "lc_state (ss_lifecycle s) = Attached \<Longrightarrow> fr_transfer_type f = Control \<Longrightarrow> fr_endpoint f = 0 \<Longrightarrow>
   handle_control_request f (ss_descriptors s) (sc_mock_hid_keycodes cfg) (ss_registers s) =
     (reply, regs) \<Longrightarrow>
   on_request ops cfg f s =
     Some ((outgoing_one (cr_response reply))\<lparr>out_may := cr_events reply\<rparr>, s\<lparr>ss_registers := regs\<rparr>)"
  by (simp add: on_request_def)

lemma on_request_injected:
  "lc_state (ss_lifecycle s) = Attached \<Longrightarrow> \<not> (fr_transfer_type f = Control \<and> fr_endpoint f = 0) \<Longrightarrow>
   mock_transfer_outcome_response f (sc_mock_transfer_outcomes cfg) = Some r \<Longrightarrow>
   on_request ops cfg f s = Some (outgoing_one r, s)"
  by (auto simp: on_request_def)

lemma on_request_to_driver:
  assumes att: "lc_state (ss_lifecycle s) = Attached" and fwd: "to_driver cfg f"
    and idle: "queues_idle (ss_queues s)" and enc: "frame_encode f = Some bs"
  obtains qs where "queues_idle qs" and
    "on_request ops cfg f s =
      (case dr_push_rx_bytes ops bs (ss_driver s) of
         (Inl _, d) \<Rightarrow>
           Some (outgoing_list [status_response f Failed], s\<lparr>ss_driver := d, ss_queues := qs\<rparr>)
       | (Inr _, d) \<Rightarrow>
           Some (outgoing_list [], s\<lparr>ss_driver := snd (dr_pump_once ops d), ss_queues := qs\<rparr>))"
proof -
  have req: "fr_frame_type f = Request" using fwd by (simp add: to_driver_def)
  show thesis
  proof (rule enqueue_flush_idle [OF idle req enc, where 'm = 'b and 'd = 'a])
    fix sequence qs1 qs2
    assume e: "enqueue f (ss_queues s) = (Inr sequence, qs1)" and q: "queues_idle qs2"
      and fl: "\<And>(ops :: ('a, 'b) driver_ops_scheme) d. flush_endpoint_transfers ops d qs1 =
       (case dr_push_rx_bytes ops bs d of
          (Inl _, d') \<Rightarrow> Some ([status_response f Failed], d', qs2)
        | (Inr _, d') \<Rightarrow> Some ([], snd (dr_pump_once ops d'), qs2))"
    have 1: "on_request ops cfg f s =
        Option.bind (flush_endpoint_transfers ops (ss_driver s) qs1) (\<lambda>(failed, d, qs').
          Some (outgoing_list failed, s\<lparr>ss_driver := d, ss_queues := qs'\<rparr>))"
      using att fwd by (auto simp: on_request_def to_driver_def e)
    have 2: "on_request ops cfg f s = (case dr_push_rx_bytes ops bs (ss_driver s) of
         (Inl _, d) \<Rightarrow>
           Some (outgoing_list [status_response f Failed], s\<lparr>ss_driver := d, ss_queues := qs2\<rparr>)
       | (Inr _, d) \<Rightarrow>
           Some (outgoing_list [], s\<lparr>ss_driver := snd (dr_pump_once ops d), ss_queues := qs2\<rparr>))"
      unfolding 1 fl by (simp split: prod.split sum.split)
    show thesis
      by (rule that [OF q 2])
  qed
qed

lemma decoded_encodes: "frame_decode bs = Inr f \<Longrightarrow> frame_encode f = Some (frame_layout f [0, 0, 0])"
  by (drule frame_layout_decode(1)) (simp add: frame_encode_layout)

lemma on_request_ok:
  assumes ok: "session_ok cfg s" and wf: "wf_frame f" and req: "fr_frame_type f = Request"
  shows "\<exists>out s'. on_request ops cfg f s = Some (out, s') \<and> session_ok cfg s' \<and> outgoing_wf out \<and>
    ss_lifecycle s' = ss_lifecycle s"
proof -
  have enc: "frame_encode f = Some (frame_layout f [0, 0, 0])"
    using wf by (simp add: frame_encode_layout)
  consider (early) "lc_state (ss_lifecycle s) \<noteq> Attached"
    | (control) "lc_state (ss_lifecycle s) = Attached" "fr_transfer_type f = Control" "fr_endpoint f = 0"
    | (injected) r where "lc_state (ss_lifecycle s) = Attached"
        "\<not> (fr_transfer_type f = Control \<and> fr_endpoint f = 0)"
        "mock_transfer_outcome_response f (sc_mock_transfer_outcomes cfg) = Some r"
    | (driver) "lc_state (ss_lifecycle s) = Attached" "to_driver cfg f"
    using req by (cases "mock_transfer_outcome_response f (sc_mock_transfer_outcomes cfg)")
      (auto simp: to_driver_def)
  then show ?thesis
  proof cases
    case early
    then show ?thesis using ok by (simp add: on_request_early outgoing_wf_def)
  next
    case control
    obtain reply regs where h: "handle_control_request f (ss_descriptors s) (sc_mock_hid_keycodes cfg)
        (ss_registers s) = (reply, regs)" by fastforce
    then show ?thesis
      using on_request_control [OF control h, of ops] session_ok_update(2) [OF ok]
        wf_control_reply [of f "ss_descriptors s" "sc_mock_hid_keycodes cfg" "ss_registers s"]
      by (simp add: outgoing_wf_def)
  next
    case injected
    then show ?thesis
      using on_request_injected [OF injected, of ops] wf_mock_transfer_outcome_response [OF injected(3)] ok
      by (simp add: outgoing_wf_def)
  next
    case driver
    show ?thesis
      by (rule on_request_to_driver [OF driver session_ok_idle [OF ok] enc, of ops])
        (use session_ok_update(1) [OF ok] in
         \<open>auto simp: outgoing_wf_def split: prod.split sum.split\<close>)
  qed
qed

section \<open>One event\<close>

lemma on_network_frame_ok:
  assumes ok: "session_ok cfg s" and wf: "wf_frame f"
  shows "\<exists>out s'. on_network_frame ops cfg f s = Some (out, s') \<and> outgoing_wf out \<and>
    queues_idle (ss_queues s') \<and> (out_flow out = Continue \<longrightarrow> session_ok cfg s')"
proof -
  have idle: "queues_idle (ss_queues s)" by (rule session_ok_idle [OF ok])
  consider (attach) "fr_frame_type f = AttachRequest" | (detach) "fr_frame_type f = DetachRequest"
    | (cancel) "fr_frame_type f = CancelRequest" | (reset) "fr_frame_type f = ResetRequest"
    | (request) "fr_frame_type f = Request"
    | (other) "on_network_frame ops cfg f s = Some (outgoing_none, s)"
    by (cases "fr_frame_type f") (auto simp: on_network_frame_def)
  then show ?thesis
  proof cases
    case attach
    obtain out s' where "on_attach_request ops cfg f s = (out, s')" by fastforce
    then show ?thesis
      using on_attach_request_ok [OF ok, of ops f out s'] session_ok_idle
      by (auto simp: on_network_frame_def attach)
  next
    case detach
    then show ?thesis
      using idle by (simp add: on_network_frame_def on_detach_request_def outgoing_wf_def
          case_prod_beta Let_def)
  next
    case cancel
    then show ?thesis
      using ok idle by (simp add: on_network_frame_def handle_cancel_request_def outgoing_wf_def
          queues_idle_cancel session_ok_update(1) case_prod_beta Let_def)
  next
    case reset
    obtain qs where "reset_endpoint (key_from_frame f) (ss_queues s) = ([], qs)" "queues_idle qs"
      using queues_idle_reset [OF idle] by blast
    then show ?thesis
      using ok idle by (auto simp: on_network_frame_def handle_reset_request_def reset outgoing_wf_def
          session_ok_update(1))
  next
    case request
    then show ?thesis
      using on_request_ok [OF ok wf request, of ops] session_ok_idle
      by (auto simp: on_network_frame_def)
  next
    case other
    then show ?thesis using ok idle by (simp add: outgoing_wf_def)
  qed
qed

lemma tx_worker_turn_frame [simp]:
  "ss_lifecycle (tx_worker_turn ops s) = ss_lifecycle s"
  "ss_descriptors (tx_worker_turn ops s) = ss_descriptors s"
  "ss_queues (tx_worker_turn ops s) = ss_queues s"
  by (auto simp: tx_worker_turn_def split: tx_worker.split option.split prod.split)

lemma session_step_ok:
  assumes ok: "session_ok cfg s"
  shows "\<exists>sent fl s'. session_step ops cfg event oks s = Some (sent, fl, s') \<and>
    queues_idle (ss_queues s') \<and> (fl = Continue \<longrightarrow> session_ok cfg s')"
proof (cases event)
  case (NetMessage bs)
  show ?thesis
  proof (cases "frame_decode bs")
    case (Inl e)
    then show ?thesis using ok session_ok_idle [OF ok] by (simp add: session_step_def NetMessage)
  next
    case (Inr f)
    obtain out s' where n: "on_network_frame ops cfg f s = Some (out, s')" "outgoing_wf out"
      "queues_idle (ss_queues s')" "out_flow out = Continue \<longrightarrow> session_ok cfg s'"
      using on_network_frame_ok [OF ok frame_layout_decode(1) [OF Inr], of ops] by auto
    then show ?thesis
      using write_outgoing_Some [OF n(2), of oks] by (auto simp: session_step_def NetMessage Inr)
  qed
next
  case TxRecv
  then show ?thesis
    using ok session_ok_idle [OF ok] session_ok_update(3) [OF ok]
    by (auto simp: session_step_def Let_def case_prod_beta split: list.split)
next
  case WorkerTurn
  have "session_ok cfg (tx_worker_turn ops s)"
    using ok unfolding session_ok_def tx_worker_turn_frame .
  then show ?thesis
    using session_ok_idle [OF ok] by (simp add: session_step_def WorkerTurn)
qed (use ok session_ok_idle [OF ok] in \<open>simp_all add: session_step_def\<close>)

lemma session_cleanup_closed:
  "queues_idle (ss_queues s) \<Longrightarrow> lc_state (ss_lifecycle (session_cleanup ops s)) = Closed \<and>
     queues_idle (ss_queues (session_cleanup ops s))"
  using queues_idle_clear [of "ss_queues s"]
  by (simp add: session_cleanup_def case_prod_beta Let_def)

section \<open>Runs\<close>

lemma session_run_ok:
  assumes "session_ok cfg s"
  shows "\<exists>sent fl s'. session_run ops cfg events s = Some (sent, fl, s') \<and>
    queues_idle (ss_queues s') \<and> (fl = Continue \<longrightarrow> session_ok cfg s') \<and>
    (fl = Break \<longrightarrow> lc_state (ss_lifecycle s') = Closed)"
  using assms
proof (induction events arbitrary: s)
  case Nil
  then show ?case by (simp add: session_ok_idle)
next
  case (Cons e events)
  obtain event oks where e: "e = (event, oks)" by fastforce
  obtain sent fl s' where s: "session_step ops cfg event oks s = Some (sent, fl, s')"
    "queues_idle (ss_queues s')" "fl = Continue \<longrightarrow> session_ok cfg s'"
    using session_step_ok [OF Cons.prems, of ops event oks] by blast
  show ?case
  proof (cases fl)
    case Break
    then show ?thesis using s session_cleanup_closed [OF s(2), of ops] by (simp add: e)
  next
    case Continue
    then show ?thesis using s Cons.IH [of s'] by (auto simp: e)
  qed
qed

end
