(* ===== verification/Session_Properties.thy ===== *)
theory Session_Properties imports Session_Run begin

text \<open>
  The properties of the daemon's session over all its runs.
\<close>

section \<open>The run as a whole\<close>


lemma session_run_session_ok:
  "session_run ops cfg events (session_start d) = Some (sent, Continue, s) \<Longrightarrow> session_ok cfg s"
  using session_run_ok [OF session_ok_start, of ops cfg events d] by auto

text \<open>The session after the attach request of a client, without a control-plane device.\<close>

definition attached_session :: "'d \<Rightarrow> 'd session" where
  "attached_session d =
     (session_start d)\<lparr>ss_lifecycle := \<lparr>lc_attached_by_control_plane = False, lc_state = Attached\<rparr>,
       ss_descriptors := Some (descriptor_set_for_attach None)\<rparr>"

lemma attached_session_simps [simp]:
  "lc_state (ss_lifecycle (attached_session d)) = Attached"
  "ss_queues (attached_session d) = queues_default" "ss_driver (attached_session d) = d"
  "ss_worker (attached_session d) = Polling" "ss_channel (attached_session d) = []"
  by (simp_all add: attached_session_def session_start_def)

lemma session_step_frame:
  "frame_decode bs = Inr f \<Longrightarrow> on_network_frame ops cfg f s = Some (out, s') \<Longrightarrow> outgoing_wf out \<Longrightarrow>
   session_step ops cfg (NetMessage bs) [] s =
     Some (map (\<lambda>f. frame_layout f [0, 0, 0]) (out_must out @ out_may out), out_flow out, s')"
  by (simp add: session_step_def write_outgoing_def outgoing_wf_def encode_all_Some)

lemma session_run_attach:
  assumes "frame_decode bs = Inr f" "fr_frame_type f = AttachRequest" "sc_attach_device cfg = None"
  shows "session_run ops cfg [(NetMessage bs, [])] (session_start d) =
    Some ([frame_layout (attach_answer f None) [0, 0, 0]], Continue, attached_session d)"
proof -
  have "on_network_frame ops cfg f (session_start d) =
      Some (outgoing_one (attach_answer f None), attached_session d)"
    using on_attach_request_Ok [of ops cfg "session_start d"
        "\<lparr>lc_attached_by_control_plane = False, lc_state = Attached\<rparr>" d f] assms
    by (simp add: on_network_frame_def attach_session_def session_start_def attached_session_def)
  then show ?thesis
    using assms(1) by (simp add: session_step_frame outgoing_wf_def)
qed

section \<open>Requests\<close>

abbreviation answers_of :: "outgoing \<Rightarrow> frame list" where
  "answers_of out \<equiv> filter (\<lambda>g. fr_frame_type g = Response) (out_must out @ out_may out)"

lemma status_response_simps [simp]:
  "fr_request_id (status_response f st) = fr_request_id f"
  "fr_frame_type (status_response f st) = Response"
  by (simp_all add: status_response_def frame_new_def)

lemma mock_response_simps [simp]:
  "fr_request_id (mock_response f p) = fr_request_id f" "fr_frame_type (mock_response f p) = Response"
  "fr_payload (mock_response f p) = p"
  by (simp_all add: mock_response_def frame_new_def)

lemma filter_events [simp]:
  "filter (\<lambda>g. fr_frame_type g = Response) (mock_hid_keyboard_events keys) = []"
  by (simp add: mock_hid_keyboard_events_def filter_empty_conv hid_keyboard_input_event_def frame_new_def)

lemma outcome_response_simps:
  "mock_transfer_outcome_response f rules = Some r \<Longrightarrow>
     fr_frame_type r = Response \<and> fr_request_id r = fr_request_id f"
  by (auto simp: mock_transfer_outcome_response_def split: option.splits mock_transfer_outcome.splits)

text \<open>
  C15: no request is dropped: a request that reaches the session in any reachable state is
  either answered at once, by exactly one response that carries its identifier, or exactly
  its bytes are pushed to the driver and accepted, and then the driver is pumped and the
  session itself answers nothing. Which of the two happens is decided by \<open>to_driver\<close> and by
  the driver's acceptance alone.
\<close>

theorem request_answered_or_forwarded:
  assumes "session_run ops cfg events (session_start d) = Some (sent, Continue, s)"
    and "fr_frame_type f = Request" and "frame_encode f = Some bs"
  shows "\<exists>out s'. on_network_frame ops cfg f s = Some (out, s') \<and>
    (if lc_state (ss_lifecycle s) = Attached \<and> to_driver cfg f
     then (case dr_push_rx_bytes ops bs (ss_driver s) of
             (Inl _, d') \<Rightarrow> out_must out @ out_may out = [status_response f Failed] \<and> ss_driver s' = d'
           | (Inr _, d') \<Rightarrow> out_must out @ out_may out = [] \<and> ss_driver s' = snd (dr_pump_once ops d'))
     else \<exists>r. answers_of out = [r] \<and> fr_request_id r = fr_request_id f \<and> ss_driver s' = ss_driver s)"
proof -
  have ok: "session_ok cfg s" by (rule session_run_session_ok [OF assms(1)])
  have frame: "on_network_frame ops cfg f s = on_request ops cfg f s"
    by (simp add: on_network_frame_def assms(2))
  consider (early) "lc_state (ss_lifecycle s) \<noteq> Attached"
    | (control) "lc_state (ss_lifecycle s) = Attached" "fr_transfer_type f = Control" "fr_endpoint f = 0"
    | (injected) r where "lc_state (ss_lifecycle s) = Attached"
        "\<not> (fr_transfer_type f = Control \<and> fr_endpoint f = 0)"
        "mock_transfer_outcome_response f (sc_mock_transfer_outcomes cfg) = Some r"
    | (driver) "lc_state (ss_lifecycle s) = Attached" "to_driver cfg f"
    using assms(2) by (cases "mock_transfer_outcome_response f (sc_mock_transfer_outcomes cfg)")
      (auto simp: to_driver_def)
  then show ?thesis
  proof cases
    case early
    then show ?thesis by (simp add: frame on_request_early)
  next
    case control
    obtain reply regs where h: "handle_control_request f (ss_descriptors s) (sc_mock_hid_keycodes cfg)
        (ss_registers s) = (reply, regs)" by fastforce
    obtain st data where "cr_response reply = control_response f st data"
      using handle_control_request_ok [of f "ss_registers s" "ss_descriptors s" "sc_mock_hid_keycodes cfg"]
      by (auto simp: reply_ok_def h)
    moreover have "filter (\<lambda>g. fr_frame_type g = Response) (cr_events reply) = []"
      using cr_events_cases [of f "ss_descriptors s" "sc_mock_hid_keycodes cfg" "ss_registers s"]
      by (auto simp: h)
    ultimately show ?thesis
      using control by (simp add: frame on_request_control [OF control h] to_driver_def)
  next
    case injected
    then show ?thesis
      using outcome_response_simps [OF injected(3)]
      by (simp add: frame on_request_injected [OF injected] to_driver_def)
  next
    case driver
    show ?thesis
      by (rule on_request_to_driver [OF driver session_ok_idle [OF ok] assms(3), of ops])
        (use driver in \<open>simp add: frame split: prod.split sum.split\<close>)
  qed
qed

text \<open>
  C26: because the queues are drained before the next message is read, a cancel request
  never finds its transfer and a reset request never drops one: in every reachable attached
  session a cancel is answered \<open>Failed\<close> and changes nothing, and a reset is answered by its
  acknowledgement alone.
\<close>

theorem cancel_and_reset_find_nothing:
  assumes "session_run ops cfg events (session_start d) = Some (sent, Continue, s)"
  shows "handle_cancel_request f (lc_state (ss_lifecycle s)) (ss_queues s) =
      (cancel_response f Failed, ss_queues s) \<and>
    fst (handle_reset_request f (lc_state (ss_lifecycle s)) (ss_queues s)) =
      [reset_response f (if lc_state (ss_lifecycle s) = Attached then Ok else Failed)]"
proof
  have idle: "queues_idle (ss_queues s)"
    by (rule session_ok_idle [OF session_run_session_ok [OF assms]])
  then show "handle_cancel_request f (lc_state (ss_lifecycle s)) (ss_queues s) =
      (cancel_response f Failed, ss_queues s)"
    by (simp add: handle_cancel_request_def queues_idle_cancel)
  show "fst (handle_reset_request f (lc_state (ss_lifecycle s)) (ss_queues s)) =
      [reset_response f (if lc_state (ss_lifecycle s) = Attached then Ok else Failed)]"
    using queues_idle_reset [OF idle, of "key_from_frame f"]
    by (auto simp: handle_reset_request_def)
qed

lemma attach_run_example:
  "sc_attach_device cfg = None \<Longrightarrow>
   session_run ops cfg [(NetMessage (frame_layout (attach_request 1) [0, 0, 0]), [])] (session_start d) =
     Some ([frame_layout (attach_answer (attach_request 1) None) [0, 0, 0]], Continue, attached_session d)"
  by (rule session_run_attach)
    (simp_all add: frame_decode_layout wf_frame_def attach_request_def frame_new_def)

definition plain_config :: session_config where
  "plain_config = \<lparr>sc_attach_device = None, sc_mock_hid_keycodes = [], sc_mock_transfer_outcomes = []\<rparr>"

lemma plain_config_simps [simp]:
  "sc_attach_device plain_config = None" "sc_mock_transfer_outcomes plain_config = []"
  by (simp_all add: plain_config_def)

lemma to_driver_mock_request [simp]: "to_driver plain_config (mock_request n bs)"
  by (simp add: to_driver_def mock_transfer_outcome_response_def mock_request_def frame_new_def)

lemma frame_encode_mock_request:
  "length p \<le> 4294967295 \<Longrightarrow> frame_encode (mock_request n p) = Some (frame_layout (mock_request n p) [0, 0, 0])"
  by (simp add: frame_encode_layout wf_frame_def mock_request_def frame_new_def)

theorem request_answered_or_forwarded_witness:
  "\<exists>out s'. on_network_frame mock_ops plain_config (mock_request 5 [1, 2])
       (attached_session \<lparr>md_tx = ring_empty, md_rx = ring_empty\<rparr>) = Some (out, s') \<and>
     (case mock_push_rx_bytes (frame_layout (mock_request 5 [1, 2]) [0, 0, 0])
         \<lparr>md_tx = ring_empty, md_rx = ring_empty\<rparr> of
        (Inl _, d') \<Rightarrow>
          out_must out @ out_may out = [status_response (mock_request 5 [1, 2]) Failed] \<and> ss_driver s' = d'
      | (Inr _, d') \<Rightarrow> out_must out @ out_may out = [] \<and> ss_driver s' = snd (mock_pump_once d'))"
proof -
  have req: "fr_frame_type (mock_request 5 [1, 2]) = Request"
    by (simp add: mock_request_def frame_new_def)
  have enc: "frame_encode (mock_request 5 [1, 2]) = Some (frame_layout (mock_request 5 [1, 2]) [0, 0, 0])"
    by (rule frame_encode_mock_request) simp
  show ?thesis
    using request_answered_or_forwarded [OF attach_run_example [of plain_config mock_ops
          "\<lparr>md_tx = ring_empty, md_rx = ring_empty\<rparr>"] req enc]
    by (simp only: attached_session_simps to_driver_mock_request plain_config_simps mock_ops_simps
        simp_thms if_True)
qed

theorem cancel_and_reset_find_nothing_witness:
  "fst (handle_reset_request (reset_request 4 Bulk 1) Attached queues_default) =
     [reset_response (reset_request 4 Bulk 1) Ok]"
  using cancel_and_reset_find_nothing [OF attach_run_example [of plain_config mock_ops
        "\<lparr>md_tx = ring_empty, md_rx = ring_empty\<rparr>"], of "reset_request 4 Bulk 1"]
  by simp

section \<open>The control plane\<close>

text \<open>A driver that keeps a log of its control-plane calls beside the state.\<close>

datatype control_event = AttachDone | DetachDone | DetachRefused

definition logged :: "('d, 'm) driver_ops_scheme \<Rightarrow> ('d \<times> control_event list) driver_ops" where
  "logged ops =
     \<lparr>dr_attach_device = (\<lambda>request (d, log).
        case dr_attach_device ops request d of
          (Inl e, d') \<Rightarrow> (Inl e, d', log) | (Inr u, d') \<Rightarrow> (Inr u, d', log @ [AttachDone])),
      dr_detach_device = (\<lambda>reason (d, log).
        case dr_detach_device ops reason d of
          (Inl e, d') \<Rightarrow> (Inl e, d', log @ [DetachRefused])
        | (Inr u, d') \<Rightarrow> (Inr u, d', log @ [DetachDone])),
      dr_push_rx_bytes = (\<lambda>bs (d, log). case dr_push_rx_bytes ops bs d of (r, d') \<Rightarrow> (r, d', log)),
      dr_pump_once = (\<lambda>(d, log). case dr_pump_once ops d of (r, d') \<Rightarrow> (r, d', log)),
      dr_poll_tx_frame = (\<lambda>(d, log). case dr_poll_tx_frame ops d of (r, d') \<Rightarrow> (r, d', log))\<rparr>"

lemma logged_log [simp]:
  "snd (snd (dr_push_rx_bytes (logged ops) bs d)) = snd d"
  "snd (snd (dr_pump_once (logged ops) d)) = snd d"
  "snd (snd (dr_poll_tx_frame (logged ops) d)) = snd d"
  by (simp_all add: logged_def case_prod_beta)

definition log_in_loop :: "(('d \<times> control_event list) session) \<Rightarrow> bool" where
  "log_in_loop s \<longleftrightarrow> snd (ss_driver s) =
     (if lc_attached_by_control_plane (ss_lifecycle s) then [AttachDone] else [])"

definition log_after :: "bool \<Rightarrow> control_event list \<Rightarrow> bool" where
  "log_after attached log \<longleftrightarrow>
     (if attached then \<exists>n. log = AttachDone # replicate n DetachRefused
      else log = [] \<or> (\<exists>n. log = AttachDone # replicate n DetachRefused @ [DetachDone]))"

lemma log_in_loop_after:
  "log_in_loop s \<Longrightarrow> log_after (lc_attached_by_control_plane (ss_lifecycle s)) (snd (ss_driver s))"
  by (auto simp: log_in_loop_def log_after_def intro: exI [of _ 0])

lemma detach_session_log:
  assumes "log_after (lc_attached_by_control_plane lc) (snd d)"
    and "detach_session (logged ops) lc d = (status, lc', d')"
  shows "log_after (lc_attached_by_control_plane lc') (snd d')"
proof (cases "lc_state lc \<noteq> Closed \<and> lc_attached_by_control_plane lc")
  case False
  then show ?thesis using assms by (auto simp: detach_session_def Let_def split: if_splits)
next
  case True
  then obtain n where n: "snd d = AttachDone # replicate n DetachRefused"
    using assms(1) by (auto simp: log_after_def)
  have "snd d @ [DetachRefused] = AttachDone # replicate (Suc n) DetachRefused"
    by (simp add: n replicate_append_same)
  then have "log_after True (snd d @ [DetachRefused])" "log_after False (snd d @ [DetachDone])"
    by (auto simp: log_after_def n simp del: replicate_Suc)
  then show ?thesis
    using assms(2) True
    by (auto simp: detach_session_def logged_def Let_def case_prod_beta split: sum.splits)
qed

lemma on_attach_request_log:
  assumes ok: "session_ok cfg s" and log: "log_in_loop s"
    and r: "on_attach_request (logged ops) cfg f s = (out, s')"
  shows "log_in_loop s'"
proof -
  obtain status lc d where a: "attach_session (logged ops) (sc_attach_device cfg) (ss_lifecycle s)
      (ss_driver s) = (status, lc, d)"
    by (metis prod_cases3)
  have new: "snd (ss_driver s) = []" if "lc_state (ss_lifecycle s) \<noteq> Attached"
    using that log ok by (cases rule: session_ok_cases [OF ok]) (simp_all add: log_in_loop_def)
  show ?thesis
    using a
  proof (cases rule: attach_session_cases)
    case again
    then show ?thesis using r a on_attach_request_Ok [of "logged ops" cfg s lc d f] log
      by (auto simp: log_in_loop_def)
  next
    case (refused e request)
    then have "snd d = snd (ss_driver s)"
      by (auto simp: logged_def case_prod_beta split: sum.splits)
    then show ?thesis using r a refused on_attach_request_refused [of "logged ops" cfg s lc d f] log
      by (auto simp: log_in_loop_def)
  next
    case (control_plane request)
    then have "snd d = snd (ss_driver s) @ [AttachDone]"
      by (auto simp: logged_def case_prod_beta split: sum.splits)
    then show ?thesis
      using r a control_plane on_attach_request_Ok [of "logged ops" cfg s lc d f] new
      by (auto simp: log_in_loop_def)
  next
    case protocol
    then show ?thesis using r a on_attach_request_Ok [of "logged ops" cfg s lc d f] log
      by (auto simp: log_in_loop_def)
  qed
qed

lemma on_request_log:
  assumes ok: "session_ok cfg s" and wf: "wf_frame f" and req: "fr_frame_type f = Request"
    and r: "on_request (logged ops) cfg f s = Some (out, s')"
  shows "ss_lifecycle s' = ss_lifecycle s \<and> snd (ss_driver s') = snd (ss_driver s)"
proof (cases "lc_state (ss_lifecycle s) = Attached \<and> to_driver cfg f")
  case False
  then show ?thesis
    using r req by (auto simp: on_request_def to_driver_def case_prod_beta Let_def
        split: if_splits option.splits)
next
  case True
  have enc: "frame_encode f = Some (frame_layout f [0, 0, 0])"
    using wf by (simp add: frame_encode_layout)
  have att: "lc_state (ss_lifecycle s) = Attached" and fwd: "to_driver cfg f"
    using True by simp_all
  show ?thesis
  proof (rule on_request_to_driver [OF att fwd session_ok_idle [OF ok] enc, where ops = "logged ops"])
    fix qs
    assume "on_request (logged ops) cfg f s =
      (case dr_push_rx_bytes (logged ops) (frame_layout f [0, 0, 0]) (ss_driver s) of
         (Inl _, d) \<Rightarrow> Some (outgoing_list [status_response f Failed],
           s\<lparr>ss_driver := d, ss_queues := qs\<rparr>)
       | (Inr _, d) \<Rightarrow> Some (outgoing_list [],
           s\<lparr>ss_driver := snd (dr_pump_once (logged ops) d), ss_queues := qs\<rparr>))"
    moreover obtain x d1 where p: "dr_push_rx_bytes (logged ops) (frame_layout f [0, 0, 0])
        (ss_driver s) = (x, d1)" by (rule prod.exhaust)
    moreover from p have "snd d1 = snd (ss_driver s)"
      using logged_log(1) [of ops "frame_layout f [0, 0, 0]" "ss_driver s"] by simp
    ultimately show ?thesis
      using r by (auto split: sum.splits)
  qed
qed

lemma tx_worker_turn_log [simp]:
  "snd (ss_driver (tx_worker_turn (logged ops) s)) = snd (ss_driver s)"
proof -
  have "snd d' = snd d" if "tx_worker_poll (logged ops) d = Some (r, d')" for d r d'
  proof -
    obtain x d1 where p: "dr_poll_tx_frame (logged ops) d = (x, d1)" by (rule prod.exhaust)
    then have "snd d1 = snd d"
      using logged_log(3) [of ops d] by simp
    moreover have "d' = d1"
      using that by (auto simp: tx_worker_poll_def p bind_eq_Some_conv split: sum.splits option.splits)
    ultimately show ?thesis by simp
  qed
  from this [of "ss_driver s"] show ?thesis
    by (auto simp: tx_worker_turn_def split: tx_worker.split option.split prod.split)
qed

lemma on_network_frame_log:
  assumes ok: "session_ok cfg s" and log: "log_in_loop s" and wf: "wf_frame f"
    and r: "on_network_frame (logged ops) cfg f s = Some (out, s')"
  shows "(out_flow out = Continue \<longrightarrow> log_in_loop s') \<and>
    log_after (lc_attached_by_control_plane (ss_lifecycle s')) (snd (ss_driver s'))"
proof -
  have after: "log_after (lc_attached_by_control_plane (ss_lifecycle s)) (snd (ss_driver s))"
    by (rule log_in_loop_after [OF log])
  have keep: ?thesis if "ss_lifecycle s' = ss_lifecycle s" "snd (ss_driver s') = snd (ss_driver s)"
    using that log after by (simp add: log_in_loop_def)
  consider (attach) "fr_frame_type f = AttachRequest" | (detach) "fr_frame_type f = DetachRequest"
    | (request) "fr_frame_type f = Request"
    | (other) "fr_frame_type f \<notin> {AttachRequest, DetachRequest, Request}"
    by blast
  then show ?thesis
  proof cases
    case attach
    then have "log_in_loop s'"
      using on_attach_request_log [OF ok log, of ops f out s'] r by (simp add: on_network_frame_def)
    then show ?thesis by (simp add: log_in_loop_after)
  next
    case detach
    then show ?thesis
      using r detach_session_log [OF after, of ops]
      by (auto simp: on_network_frame_def on_detach_request_def split: prod.splits)
  next
    case request
    then show ?thesis
      using on_request_log [OF ok wf request, of ops out s'] r keep
      by (simp add: on_network_frame_def)
  next
    case other
    then have "ss_lifecycle s' = ss_lifecycle s \<and> snd (ss_driver s') = snd (ss_driver s)"
      using r by (cases "fr_frame_type f") (auto simp: on_network_frame_def Let_def case_prod_beta)
    then show ?thesis using keep by blast
  qed
qed

lemma session_step_log:
  assumes ok: "session_ok cfg s" and log: "log_in_loop s"
    and r: "session_step (logged ops) cfg event oks s = Some (sent, fl, s')"
  shows "(fl = Continue \<longrightarrow> log_in_loop s') \<and>
    log_after (lc_attached_by_control_plane (ss_lifecycle s')) (snd (ss_driver s'))"
proof (cases event)
  case (NetMessage bs)
  show ?thesis
  proof (cases "frame_decode bs")
    case (Inl e)
    then show ?thesis using r log by (simp add: session_step_def NetMessage log_in_loop_after)
  next
    case (Inr f)
    have wf: "wf_frame f" by (rule frame_layout_decode(1) [OF Inr])
    obtain out where n: "on_network_frame (logged ops) cfg f s = Some (out, s')"
      "write_outgoing out oks = Some (sent, fl)"
      using r by (auto simp: session_step_def NetMessage Inr bind_eq_Some_conv)
    moreover from n(2) have "fl = Continue \<longrightarrow> out_flow out = Continue"
      by (auto simp: write_outgoing_def bind_eq_Some_conv Let_def case_prod_beta split: if_splits)
    ultimately show ?thesis
      using on_network_frame_log [OF ok log wf n(1)] by blast
  qed
next
  case WorkerTurn
  then show ?thesis
    using r log log_in_loop_after [OF log] by (auto simp: session_step_def log_in_loop_def)
qed (use r log log_in_loop_after [OF log] in
    \<open>auto simp: session_step_def log_in_loop_def Let_def split: list.splits prod.splits if_splits\<close>)

lemma session_cleanup_log:
  assumes "log_after (lc_attached_by_control_plane (ss_lifecycle s)) (snd (ss_driver s))"
  shows "log_after (lc_attached_by_control_plane (ss_lifecycle (session_cleanup (logged ops) s)))
      (snd (ss_driver (session_cleanup (logged ops) s)))"
  using detach_session_log [of "(ss_lifecycle s)\<lparr>lc_state := Detaching\<rparr>" "ss_driver s" ops] assms
  by (auto simp: session_cleanup_def Let_def split: prod.splits)

lemma session_run_log:
  assumes "session_ok cfg s" and "log_in_loop s"
    and "session_run (logged ops) cfg events s = Some (sent, fl, s')"
  shows "(fl = Continue \<longrightarrow> log_in_loop s') \<and>
    log_after (lc_attached_by_control_plane (ss_lifecycle s')) (snd (ss_driver s'))"
  using assms
proof (induction events arbitrary: s sent)
  case Nil
  then show ?case by (simp add: log_in_loop_after)
next
  case (Cons e events)
  obtain event oks where e: "e = (event, oks)" by fastforce
  obtain sent1 fl1 s1 where s: "session_step (logged ops) cfg event oks s = Some (sent1, fl1, s1)"
    "fl1 = Continue \<longrightarrow> session_ok cfg s1"
    using session_step_ok [OF Cons.prems(1), of "logged ops" event oks] by blast
  note log = session_step_log [OF Cons.prems(1,2) s(1)]
  show ?case
  proof (cases fl1)
    case Break
    then show ?thesis using s log Cons.prems(3) session_cleanup_log [of s1 ops] by (auto simp: e)
  next
    case Continue
    then show ?thesis using s log Cons.prems(3) Cons.IH [of s1]
      by (auto simp: e bind_eq_Some_conv)
  qed
qed


end
