(* ===== verification/Session_Echo.thy ===== *)
theory Session_Echo imports Session_Properties begin

text \<open>
  The data path end to end: the session that pushes requests to the driver, the driver that
  loops them back, the worker that polls it and turns the frames into responses, the
  channel and the session again, under any interleaving of the three. The facts are proved
  for every driver that satisfies \<open>loopback_driver\<close> and hold for the mock driver.
\<close>

section \<open>Responses\<close>

abbreviation wire :: "frame \<Rightarrow> bytes" where "wire f \<equiv> frame_layout f [0, 0, 0]"

text \<open>The bytes the client gets back for a request that went through the driver.\<close>

definition echo :: "frame \<Rightarrow> bytes" where
  "echo f = (case outbound_network_frame f of Some r \<Rightarrow> wire r | None \<Rightarrow> [])"

lemma outbound_network_frame_ok:
  assumes "fr_frame_type f = Request" and "length (wire f) \<le> 65536"
  obtains r where "outbound_network_frame f = Some r" "wf_frame r" "fr_frame_type r = Response"
    "fr_request_id r = fr_request_id f" "fr_status r = 0" "echo f = wire r"
    "case mock_bulk_decode (fr_payload f) of
       Inr p \<Rightarrow> mock_bulk_decode (fr_payload r) = Inr p | Inl e \<Rightarrow> fr_payload r = mock_response_text"
proof (cases "mock_bulk_decode (fr_payload f)")
  case (Inl e)
  then show thesis
    using assms by (intro that [of "mock_response f mock_response_text"])
      (simp_all add: outbound_network_frame_def echo_def, simp add: mock_response_def frame_new_def)
next
  case (Inr p)
  obtain b where enc: "mock_bulk_encode p = Some b"
    using mock_bulk.enc_total [OF mock_bulk.dec_wf [OF Inr]]
    by (auto simp: ok_or_def split: option.splits)
  moreover have "length b = length (fr_payload f)"
    using Inr enc by (auto simp: mock_bulk_encode_def mock_bulk_decode_Inr_iff split: if_splits)
  ultimately show thesis
    using assms by (intro that [of "mock_response f b"])
      (simp_all add: outbound_network_frame_def echo_def Inr mock_bulk_decode_encode,
        simp add: mock_response_def frame_new_def)
qed

section \<open>Schedules of the data path\<close>

text \<open>
  The events of the data path: requests that go to the driver, turns of the worker and
  receptions from its channel, in any order.
\<close>

definition data_event :: "session_config \<Rightarrow> session_event \<Rightarrow> bool" where
  "data_event cfg event =
     (case event of
        NetMessage bs \<Rightarrow> (case frame_decode bs of Inr f \<Rightarrow> to_driver cfg f | Inl _ \<Rightarrow> False)
      | TxRecv \<Rightarrow> True
      | WorkerTurn \<Rightarrow> True
      | _ \<Rightarrow> False)"

fun requests_of :: "session_event list \<Rightarrow> frame list" where
  "requests_of [] = []"
| "requests_of (NetMessage bs # events) =
     (case frame_decode bs of Inr f \<Rightarrow> [f] | Inl _ \<Rightarrow> []) @ requests_of events"
| "requests_of (_ # events) = requests_of events"

lemma requests_of_append [simp]: "requests_of (xs @ ys) = requests_of xs @ requests_of ys"
proof (induction xs)
  case (Cons x xs)
  then show ?case by (cases x) simp_all
qed simp

text \<open>What the worker has polled and the session has not yet written.\<close>

definition in_hand :: "'d session \<Rightarrow> bytes list" where
  "in_hand s = ss_channel s @ (case ss_worker s of Sending bs \<Rightarrow> [bs] | _ \<Rightarrow> [])"

definition echo_frame :: "frame \<Rightarrow> bool" where
  "echo_frame f \<longleftrightarrow> fr_frame_type f = Request \<and> wf_frame f \<and> length (wire f) \<le> 65536"

abbreviation writes_ok :: "session_event list \<Rightarrow> (session_event \<times> bool list) list" where
  "writes_ok events \<equiv> map (\<lambda>event. (event, [])) events"

lemma session_run_append:
  "session_run ops cfg evs s = Some (sent, Continue, s') \<Longrightarrow>
   session_run ops cfg (evs @ evs') s =
     Option.bind (session_run ops cfg evs' s') (\<lambda>(sent', fl, s''). Some (sent @ sent', fl, s''))"
proof (induction evs arbitrary: s sent)
  case (Cons e evs)
  obtain event oks where e: "e = (event, oks)" by fastforce
  obtain sent1 fl s1 where st: "session_step ops cfg event oks s = Some (sent1, fl, s1)"
    using Cons.prems by (auto simp: e bind_eq_Some_conv)
  then have fl: "fl = Continue"
    using Cons.prems by (cases fl) (simp_all add: e)
  then obtain sent2 where "session_run ops cfg evs s1 = Some (sent2, Continue, s')" "sent = sent1 @ sent2"
    using Cons.prems by (auto simp: e st bind_eq_Some_conv)
  then show ?case
    using Cons.IH [of s1 sent2] by (cases "session_run ops cfg evs' s'") (auto simp: e st fl)
qed (simp add: case_prod_beta)

context loopback_driver
begin

text \<open>\<open>echoing cfg s fs todo\<close>: the frames \<open>fs\<close> are in the driver, which has room for \<open>todo\<close>.\<close>

definition echoing :: "session_config \<Rightarrow> 'd session \<Rightarrow> frame list \<Rightarrow> frame list \<Rightarrow> bool" where
  "echoing cfg s fs todo \<longleftrightarrow>
     session_ok cfg s \<and> lc_state (ss_lifecycle s) = Attached \<and> ss_worker s \<noteq> WorkerDead \<and>
     idle (ss_driver s) (map wire fs) \<and> room (ss_driver s) (map wire fs) (map wire todo) \<and>
     list_all echo_frame fs"

lemma echoing_request:
  assumes e: "echoing cfg s fs (f # todo)" and d: "frame_decode bs = Inr f" and fwd: "to_driver cfg f"
  shows "\<exists>s'. session_step ops cfg (NetMessage bs) [] s = Some ([], Continue, s') \<and>
    echoing cfg s' (fs @ [f]) todo \<and> in_hand s' = in_hand s \<and> ss_channel s' = ss_channel s"
proof -
  have enc: "frame_encode f = Some (wire f)" by (rule decoded_encodes [OF d])
  have ok: "session_ok cfg s" and att: "lc_state (ss_lifecycle s) = Attached"
    using e by (simp_all add: echoing_def)
  have ef: "echo_frame f"
    using fwd frame_layout_decode(1) [OF d] e room_len [of "ss_driver s" _ _ "wire f"]
    by (auto simp: echo_frame_def to_driver_def echoing_def)
  obtain d1 d2 where t: "dr_push_rx_bytes ops (wire f) (ss_driver s) = (Inr (), d1)"
    "dr_pump_once ops d1 = (True, d2)" "idle d2 (map wire fs @ [wire f])"
    "room d2 (map wire fs @ [wire f]) (map wire todo)"
    using transfer [of "ss_driver s" "map wire fs" "wire f" "map wire todo"] e
    by (auto simp: echoing_def)
  show ?thesis
  proof (rule on_request_to_driver [OF att fwd session_ok_idle [OF ok] enc, where ops = ops])
    fix qs
    let ?s = "s\<lparr>ss_driver := d2, ss_queues := qs\<rparr>"
    assume q: "queues_idle qs" and r: "on_request ops cfg f s =
      (case dr_push_rx_bytes ops (wire f) (ss_driver s) of
         (Inl _, d) \<Rightarrow> Some (outgoing_list [status_response f Failed],
           s\<lparr>ss_driver := d, ss_queues := qs\<rparr>)
       | (Inr _, d) \<Rightarrow> Some (outgoing_list [],
           s\<lparr>ss_driver := snd (dr_pump_once ops d), ss_queues := qs\<rparr>))"
    have "on_network_frame ops cfg f s = Some (outgoing_list [], ?s)"
      using fwd r by (simp add: on_network_frame_def to_driver_def t)
    then have "session_step ops cfg (NetMessage bs) [] s = Some ([], Continue, ?s)"
      using session_step_frame [OF d, of ops cfg s "outgoing_list []" ?s]
      by (simp add: outgoing_wf_def)
    moreover have "echoing cfg ?s (fs @ [f]) todo"
      using e t session_ok_update(1) [OF ok q] ef by (simp add: echoing_def)
    ultimately show ?thesis
      by (intro exI [of _ ?s]) (simp add: in_hand_def)
  qed
qed

lemma echoing_recv:
  assumes e: "echoing cfg s fs todo"
  shows "\<exists>sent s'. session_step ops cfg TxRecv [] s = Some (sent, Continue, s') \<and>
    echoing cfg s' fs todo \<and> sent @ in_hand s' = in_hand s \<and> (ss_channel s \<noteq> [] \<longrightarrow> sent \<noteq> [])"
  using e session_ok_update(3) [of cfg s]
  by (cases "ss_channel s") (simp_all add: session_step_def echoing_def in_hand_def)

lemma echoing_poll:
  assumes e: "echoing cfg s (f # fs) todo" and w: "ss_worker s = Polling"
  shows "\<exists>d. tx_worker_turn ops s = s\<lparr>ss_worker := Sending (echo f), ss_driver := d\<rparr> \<and>
    echoing cfg (tx_worker_turn ops s) fs todo"
proof -
  have f: "echo_frame f" using e by (simp add: echoing_def)
  obtain d where p: "dr_poll_tx_frame ops (ss_driver s) = (Inr (Some f), d)"
    "idle d (map wire fs)" "room d (map wire fs) (map wire todo)"
    using poll [of "ss_driver s" "wire f" "map wire fs" "map wire todo" f] e f
    by (auto simp: echoing_def echo_frame_def frame_decode_layout)
  obtain r where "outbound_network_frame f = Some r" "wf_frame r" "echo f = wire r"
    by (rule outbound_network_frame_ok [of f]) (use f in \<open>simp_all add: echo_frame_def\<close>)
  then have "tx_worker_turn ops s = s\<lparr>ss_worker := Sending (echo f), ss_driver := d\<rparr>"
    by (simp add: tx_worker_turn_def w tx_worker_poll_def p frame_encode_layout)
  then show ?thesis
    using e p by (auto simp: echoing_def session_ok_update(4,5))
qed

lemma echoing_turn:
  assumes e: "echoing cfg s fs todo"
  shows "\<exists>fs'. echoing cfg (tx_worker_turn ops s) fs' todo \<and>
    in_hand (tx_worker_turn ops s) @ map echo fs' = in_hand s @ map echo fs"
proof (cases "ss_worker s")
  case (Sending b)
  then show ?thesis
    using e by (intro exI [of _ fs])
      (simp add: tx_worker_turn_def echoing_def in_hand_def session_ok_update(3,5))
next
  case Polling
  show ?thesis
  proof (cases fs)
    case Nil
    then show ?thesis
      using e Polling poll_empty [of "ss_driver s"]
      by (intro exI [of _ "[]"]) (simp add: tx_worker_turn_def tx_worker_poll_def echoing_def)
  next
    case (Cons f fs')
    then show ?thesis
      using echoing_poll [of cfg s f fs' todo] e Polling
      by (intro exI [of _ fs']) (auto simp: in_hand_def)
  qed
qed (use e in \<open>simp add: echoing_def\<close>)

text \<open>
  Any schedule: nothing is lost, duplicated or reordered between the requests and the
  responses written.
\<close>

lemma echoing_run:
  assumes "echoing cfg s fs (requests_of events @ todo)" and "list_all (data_event cfg) events"
  shows "\<exists>sent s' fs'. session_run ops cfg (writes_ok events) s = Some (sent, Continue, s') \<and>
    echoing cfg s' fs' todo \<and>
    sent @ in_hand s' @ map echo fs' = in_hand s @ map echo fs @ map echo (requests_of events)"
  using assms
proof (induction events arbitrary: s fs)
  case Nil
  then show ?case by auto
next
  case (Cons event events)
  have step: ?case if st: "session_step ops cfg event [] s = Some (sent1, Continue, s1)"
    and e: "echoing cfg s1 fs1 (requests_of events @ todo)"
    and c: "sent1 @ in_hand s1 @ map echo fs1 = in_hand s @ map echo fs @ map echo (requests_of [event])"
    for sent1 s1 fs1
  proof -
    have rest: "requests_of (event # events) = requests_of [event] @ requests_of events"
      using requests_of_append [of "[event]" events] by simp
    obtain sent' s' fs' where "session_run ops cfg (writes_ok events) s1 = Some (sent', Continue, s')"
      "echoing cfg s' fs' todo"
      "sent' @ in_hand s' @ map echo fs' = in_hand s1 @ map echo fs1 @ map echo (requests_of events)"
      using Cons.IH [OF e] Cons.prems(2) by auto
    then show ?thesis
      using st c by (simp add: rest) (metis append.assoc)
  qed
  show ?case
  proof (cases event)
    case (NetMessage bs)
    then obtain f where d: "frame_decode bs = Inr f" "to_driver cfg f"
      using Cons.prems(2) by (auto simp: data_event_def split: sum.splits)
    have "echoing cfg s fs (f # (requests_of events @ todo))"
      using Cons.prems(1) by (simp add: NetMessage d)
    from echoing_request [OF this d] show ?thesis
      by (elim exE conjE) (rule step, auto simp: NetMessage d)
  next
    case TxRecv
    from Cons.prems(1) have "echoing cfg s fs (requests_of events @ todo)" by (simp add: TxRecv)
    from echoing_recv [OF this] show ?thesis
      by (elim exE conjE) (rule step, auto simp: TxRecv)
  next
    case WorkerTurn
    from Cons.prems(1) have "echoing cfg s fs (requests_of events @ todo)" by (simp add: WorkerTurn)
    from echoing_turn [OF this] show ?thesis
      by (elim exE conjE) (rule step, auto simp: WorkerTurn session_step_def)
  qed (use Cons.prems(2) in \<open>simp_all add: data_event_def\<close>)
qed

text \<open>
  One round of two worker turns and a reception writes a response if any is outstanding, so
  a round per outstanding response delivers them all.
\<close>

lemma echoing_round:
  assumes e: "echoing cfg s fs todo"
  shows "\<exists>sent s' fs'. session_run ops cfg (writes_ok [WorkerTurn, WorkerTurn, TxRecv]) s =
      Some (sent, Continue, s') \<and> echoing cfg s' fs' todo \<and>
    sent @ in_hand s' @ map echo fs' = in_hand s @ map echo fs \<and>
    (in_hand s @ map echo fs \<noteq> [] \<longrightarrow> sent \<noteq> [])"
proof -
  let ?s1 = "tx_worker_turn ops s" let ?s2 = "tx_worker_turn ops ?s1"
  obtain fs1 where 1: "echoing cfg ?s1 fs1 todo"
    "in_hand ?s1 @ map echo fs1 = in_hand s @ map echo fs"
    using echoing_turn [OF e] by blast
  obtain fs2 where 2: "echoing cfg ?s2 fs2 todo"
    "in_hand ?s2 @ map echo fs2 = in_hand ?s1 @ map echo fs1"
    using echoing_turn [OF 1(1)] by blast
  obtain sent s' where 3: "session_step ops cfg TxRecv [] ?s2 = Some (sent, Continue, s')"
    "echoing cfg s' fs2 todo" "sent @ in_hand s' = in_hand ?s2" "ss_channel ?s2 \<noteq> [] \<longrightarrow> sent \<noteq> []"
    using echoing_recv [OF 2(1)] by blast
  have full: "ss_channel ?s2 \<noteq> []" if out: "in_hand s @ map echo fs \<noteq> []"
  proof (cases "ss_channel s")
    case (Cons b ch)
    then show ?thesis
      by (auto simp: tx_worker_turn_def split: tx_worker.split option.split prod.split)
  next
    case Nil
    have room: "length ([] :: bytes list) < TX_CHANNEL_CAPACITY" by (simp add: TX_CHANNEL_CAPACITY_def)
    show ?thesis
    proof (cases "ss_worker s")
      case (Sending b)
      then have "ss_channel ?s1 = [b]"
        using Nil room by (simp add: tx_worker_turn_def)
      then show ?thesis
        by (auto simp: tx_worker_turn_def [of ops ?s1] split: tx_worker.split option.split prod.split)
    next
      case Polling
      have ch: "ss_channel ?s1 = []"
        using Nil Polling by (simp add: tx_worker_turn_def split: option.split prod.split)
      moreover have "in_hand ?s1 \<noteq> []"
      proof
        assume none: "in_hand ?s1 = []"
        from out Nil Polling obtain f rest where fs: "fs = f # rest"
          by (cases fs) (simp_all add: in_hand_def)
        show False
          using echoing_poll [of cfg s f rest todo] e Polling none by (auto simp: fs in_hand_def)
      qed
      ultimately obtain b where "ss_worker ?s1 = Sending b"
        by (auto simp: in_hand_def split: tx_worker.splits)
      then show ?thesis
        using ch room by (simp add: tx_worker_turn_def [of ops ?s1])
    qed (use e in \<open>simp add: echoing_def\<close>)
  qed
  have "session_run ops cfg (writes_ok [WorkerTurn, WorkerTurn, TxRecv]) s = Some (sent, Continue, s')"
    using 3(1) by (simp add: session_step_def)
  moreover have "sent @ in_hand s' @ map echo fs2 = in_hand s @ map echo fs"
    using 1(2) 2(2) 3(3) by (metis append.assoc)
  ultimately show ?thesis
    using 3(2,4) full by blast
qed

lemma echoing_drain:
  assumes "echoing cfg s fs todo" and "length (in_hand s @ map echo fs) \<le> n"
  shows "\<exists>s'. session_run ops cfg
      (writes_ok (concat (replicate n [WorkerTurn, WorkerTurn, TxRecv]))) s =
      Some (in_hand s @ map echo fs, Continue, s') \<and> echoing cfg s' [] todo \<and> in_hand s' = []"
  using assms
proof (induction n arbitrary: s fs)
  case 0
  then show ?case by simp
next
  case (Suc n)
  obtain sent s1 fs1 where r: "session_run ops cfg (writes_ok [WorkerTurn, WorkerTurn, TxRecv]) s =
      Some (sent, Continue, s1)" "echoing cfg s1 fs1 todo"
    "sent @ in_hand s1 @ map echo fs1 = in_hand s @ map echo fs"
    "in_hand s @ map echo fs \<noteq> [] \<longrightarrow> sent \<noteq> []"
    using echoing_round [OF Suc.prems(1)] by blast
  have "length sent + length (in_hand s1 @ map echo fs1) = length (in_hand s @ map echo fs)"
    using r(3) by (metis length_append)
  then have "length (in_hand s1 @ map echo fs1) \<le> n"
    using r(4) Suc.prems(2) by (cases "in_hand s @ map echo fs = []"; cases sent) auto
  from Suc.IH [OF r(2) this] obtain s' where
    "session_run ops cfg (writes_ok (concat (replicate n [WorkerTurn, WorkerTurn, TxRecv]))) s1 =
      Some (in_hand s1 @ map echo fs1, Continue, s')" "echoing cfg s' [] todo" "in_hand s' = []"
    by blast
  then show ?case
    using session_run_append [OF r(1)] r(3) by simp
qed

end

section \<open>The mock driver\<close>

abbreviation fresh_mock :: mock_driver where
  "fresh_mock \<equiv> \<lparr>md_tx = ring_empty, md_rx = ring_empty\<rparr>"

text \<open>The requests of a schedule fit into the rings of a new mock driver.\<close>

definition requests_fit :: "session_event list \<Rightarrow> bool" where
  "requests_fit events \<longleftrightarrow>
     list_all (\<lambda>f. length (wire f) \<le> 65536) (requests_of events) \<and>
     length (ring_bytes (map wire (requests_of events))) \<le> RING_BUFFER_SIZE"

lemma mock_fresh_echoing:
  assumes "sc_attach_device cfg = None" and "requests_fit events"
  shows "mock.echoing cfg (attached_session fresh_mock) [] (requests_of events @ [])"
proof -
  have "mock_idle fresh_mock []"
    by (simp add: mock_idle_def mock_holds_def)
  moreover have "mock_room fresh_mock [] (map wire (requests_of events))"
    using assms(2) by (auto simp: mock_room_def mock_life_def requests_fit_def ring_empty_def
        RING_BUFFER_SIZE_def list_all_iff)
  moreover have "session_ok cfg (attached_session fresh_mock)"
    using assms(1) by (simp add: session_ok_def attached_session_def session_start_def)
  ultimately show ?thesis
    by (simp add: mock.echoing_def)
qed

section \<open>Properties\<close>

lemma data_event_requests:
  "list_all (data_event cfg) events \<Longrightarrow> f \<in> set (requests_of events) \<Longrightarrow> fr_frame_type f = Request"
proof (induction events)
  case (Cons event events)
  then show ?case
    by (cases event) (auto simp: data_event_def to_driver_def split: sum.splits)
qed simp





end
