(* ===== verification/Usbip_Session.thy ===== *)
theory Usbip_Session imports Session_Run Usbip_Packets begin

text \<open>
  The daemon's USB/IP session, \<open>daemon/src/usbip_session.rs\<close>: reading packets from the byte
  stream, the submits of the control and the interrupt endpoint, unlink, and the session
  from attach to detach. The connection is the bytes the peer sends before the stream ends
  or fails, and the outcomes of the writes.
\<close>

section \<open>Reading packets\<close>

datatype stream_end = StreamEof | StreamError

datatype io_error = UnexpectedEof | OtherIoError | InvalidData protocol_error

record byte_stream =
  st_bytes :: bytes
  st_end :: stream_end

text \<open>\<open>AsyncReadExt::read_exact\<close>; after a failed read the stream is at its end.\<close>

definition read_exact :: "nat \<Rightarrow> byte_stream \<Rightarrow> (io_error + bytes) \<times> byte_stream" where
  "read_exact n st =
     (if n \<le> length (st_bytes st)
      then (Inr (take n (st_bytes st)), st\<lparr>st_bytes := drop n (st_bytes st)\<rparr>)
      else (Inl (case st_end st of StreamEof \<Rightarrow> UnexpectedEof | StreamError \<Rightarrow> OtherIoError),
            st\<lparr>st_bytes := []\<rparr>))"

definition submit_is_out :: "bytes \<Rightarrow> bool" where
  "submit_is_out header = (read_u32_be header 12 = 0)"

definition submit_transfer_buffer_len :: "bytes \<Rightarrow> nat" where
  "submit_transfer_buffer_len header = unat (read_u32_be header 24)"

definition read_usbip_packet :: "byte_stream \<Rightarrow> (io_error + bytes option) \<times> byte_stream" where
  "read_usbip_packet st =
     (case read_exact USBIP_HEADER_LEN st of
        (Inl UnexpectedEof, st) \<Rightarrow> (Inr None, st)
      | (Inl e, st) \<Rightarrow> (Inl e, st)
      | (Inr header, st) \<Rightarrow>
          (case usbip_header_decode (slice header 0 20) of
             Inl e \<Rightarrow> (Inl (InvalidData e), st)
           | Inr basic \<Rightarrow>
               let payload_len =
                     (if command basic = CmdSubmit \<and> submit_is_out header
                      then submit_transfer_buffer_len header else 0)
               in if payload_len > 0
                  then (case read_exact payload_len st of
                          (Inl e, st) \<Rightarrow> (Inl e, st)
                        | (Inr payload, st) \<Rightarrow> (Inr (Some (header @ payload)), st))
                  else (Inr (Some header), st)))"

section \<open>Submits\<close>

text \<open>The device behind the session: its registers and the reports waiting to be read.\<close>

record usbip_device =
  ud_registers :: device_registers
  ud_reports :: "bytes list"

definition failed_submit_response :: "usbip_cmd_submit \<Rightarrow> transfer_status \<Rightarrow> usbip_ret_submit" where
  "failed_submit_response submit status =
     (usbip_ret_submit_ok_for submit [])\<lparr>rs_status := transfer_status_code status\<rparr>"

definition interrupt_reports :: "frame list \<Rightarrow> bytes list" where
  "interrupt_reports events =
     map fr_payload (filter (\<lambda>event. fr_transfer_type event = Interrupt \<and> fr_endpoint event = 0x81) events)"

definition handle_control_submit ::
  "usbip_cmd_submit \<Rightarrow> usb_descriptor_set \<Rightarrow> bytes \<Rightarrow> usbip_device \<Rightarrow>
   usbip_ret_submit \<times> usbip_device" where
  "handle_control_submit submit descriptors keycodes dev =
     (case usb_control_setup_decode (cs_setup submit) of
        Inl _ \<Rightarrow> (failed_submit_response submit Stall, dev)
      | Inr setup \<Rightarrow>
          let f = frame_new (ucast (seqnum (cs_header submit))) Request
                    (setup_transfer_direction setup) Control 0 0
                    (control_transfer_encode (control_transfer_new setup (cs_transfer_buffer submit)));
              (control_response, registers) =
                handle_control_request f (Some descriptors) keycodes (ud_registers dev);
              reports = ud_reports dev @ interrupt_reports (cr_events control_response);
              payload = (case control_transfer_decode (fr_payload (cr_response control_response)) of
                           Inr transfer \<Rightarrow> ct_data transfer | Inl _ \<Rightarrow> []);
              response = (usbip_ret_submit_ok_for submit payload)
                           \<lparr>rs_status := fr_status (cr_response control_response)\<rparr>
          in (if rs_status response \<noteq> 0
              then response\<lparr>rs_transfer_buffer := [], rs_actual_length := 0\<rparr> else response,
              \<lparr>ud_registers = registers, ud_reports = reports\<rparr>))"

definition handle_submit ::
  "usbip_cmd_submit \<Rightarrow> usb_descriptor_set \<Rightarrow> bytes \<Rightarrow> usbip_device \<Rightarrow>
   usbip_ret_submit \<times> usbip_device" where
  "handle_submit submit descriptors keycodes dev =
     (if hdr_endpoint (cs_header submit) = 0
      then handle_control_submit submit descriptors keycodes dev
      else if hdr_endpoint (cs_header submit) = 0x81
      then (case ud_reports dev of
              [] \<Rightarrow> (usbip_ret_submit_ok_for submit [], dev)
            | report # reports \<Rightarrow>
                (usbip_ret_submit_ok_for submit report, dev\<lparr>ud_reports := reports\<rparr>))
      else (failed_submit_response submit Stall, dev))"

section \<open>The session\<close>

text \<open>
  One packet: the bytes to be written, if any. \<open>Inl\<close> is the early return of
  \<open>response.encode()?\<close>.
\<close>

definition usbip_packet_step ::
  "usb_descriptor_set \<Rightarrow> bytes \<Rightarrow> bytes \<Rightarrow> usbip_device \<Rightarrow>
   (protocol_error + bytes option) \<times> usbip_device" where
  "usbip_packet_step descriptors keycodes packet dev =
     (case usbip_header_decode (slice packet 0 20) of
        Inl _ \<Rightarrow> (Inr None, dev)
      | Inr header \<Rightarrow>
          (case command header of
             CmdSubmit \<Rightarrow>
               (case usbip_cmd_submit_decode packet of
                  Inl _ \<Rightarrow> (Inr None, dev)
                | Inr submit \<Rightarrow>
                    let (response, dev') = handle_submit submit descriptors keycodes dev
                    in (and_then (usbip_ret_submit_encode response) (\<lambda>bs. Inr (Some bs)), dev'))
           | CmdUnlink \<Rightarrow>
               (case usbip_cmd_unlink_decode packet of
                  Inl _ \<Rightarrow> (Inr None, dev)
                | Inr unlink \<Rightarrow>
                    (Inr (Some (usbip_ret_unlink_encode
                       (usbip_ret_unlink_new (seqnum (cu_header unlink)) 0))), dev))
           | _ \<Rightarrow> (Inr None, dev)))"

lemma read_exact_shrinks:
  "read_exact n st = (Inr bs, st') \<Longrightarrow> length (st_bytes st) = n + length (st_bytes st') \<and>
     st_bytes st = bs @ st_bytes st' \<and> st_end st' = st_end st \<and> length bs = n"
  by (auto simp: read_exact_def split: if_splits)

lemma read_usbip_packet_shrinks:
  assumes "read_usbip_packet st = (Inr (Some packet), st')"
  shows "length (st_bytes st') < length (st_bytes st)"
  using assms
  by (auto simp: read_usbip_packet_def Let_def dest!: read_exact_shrinks
      split: prod.splits sum.splits io_error.splits if_splits)

text \<open>
  The loop, over the stream and the outcomes of its writes: how it ends, what it wrote, and
  the device. Every turn that goes on has consumed a packet.
\<close>

function usbip_loop ::
  "usb_descriptor_set \<Rightarrow> bytes \<Rightarrow> byte_stream \<Rightarrow> bool list \<Rightarrow> usbip_device \<Rightarrow>
   (protocol_error + unit) \<times> bytes list \<times> usbip_device" where
  "usbip_loop descriptors keycodes st oks dev =
     (case read_usbip_packet st of
        (Inl _, _) \<Rightarrow> (Inr (), [], dev)
      | (Inr None, _) \<Rightarrow> (Inr (), [], dev)
      | (Inr (Some packet), st') \<Rightarrow>
          (case usbip_packet_step descriptors keycodes packet dev of
             (Inl e, dev') \<Rightarrow> (Inl e, [], dev')
           | (Inr None, dev') \<Rightarrow> usbip_loop descriptors keycodes st' oks dev'
           | (Inr (Some out), dev') \<Rightarrow>
               if oks \<noteq> [] \<and> \<not> hd oks then (Inr (), [], dev')
               else (let (r, written, dev'') = usbip_loop descriptors keycodes st' (tl oks) dev'
                     in (r, out # written, dev''))))"
  by pat_completeness auto
termination
  by (relation "measure (\<lambda>(_, _, st, _, _). length (st_bytes st))")
    (auto dest: read_usbip_packet_shrinks [OF sym])

declare usbip_loop.simps [simp del]

datatype usbip_session_error = AttachFailed | EncodeFailed protocol_error

definition run_single_usbip_client ::
  "('d, 'm) driver_ops_scheme \<Rightarrow> device_attach_request option \<Rightarrow> bytes \<Rightarrow> byte_stream \<Rightarrow> bool list \<Rightarrow> 'd \<Rightarrow>
   (usbip_session_error + unit) \<times> bytes list \<times> lifecycle \<times> 'd" where
  "run_single_usbip_client ops attach_device keycodes st oks d =
     (let (attach_status, lc, d) = attach_session ops attach_device
            \<lparr>lc_attached_by_control_plane = False, lc_state = Connected\<rparr> d
      in if attach_status \<noteq> 0 then (Inl AttachFailed, [], lc, d)
         else let (r, written, dev) = usbip_loop (descriptor_set_for_attach attach_device) keycodes st oks
                    \<lparr>ud_registers = \<lparr>reg_address = 0, reg_configuration = 0\<rparr>, ud_reports = []\<rparr>
              in case r of
                   Inl e \<Rightarrow> (Inl (EncodeFailed e), written, lc, d)
                 | Inr _ \<Rightarrow>
                     let (_, lc, d) = detach_session ops (lc\<lparr>lc_state := Detaching\<rparr>) d
                     in (Inr (), written, lc\<lparr>lc_state := Closed\<rparr>, d))"

section \<open>Every packet of a client is answered\<close>

definition device_ok :: "usbip_device \<Rightarrow> bool" where
  "device_ok dev \<longleftrightarrow> list_all (\<lambda>report. length report = 8) (ud_reports dev)"

lemma length_hid_report_encode [simp]: "length (hid_report_encode r) = 8"
  by (simp add: hid_report_encode_def)

lemma interrupt_reports_events:
  "interrupt_reports (mock_hid_keyboard_events keys) =
     concat (map (\<lambda>key. [hid_report_encode (hid_report_key_press key), hid_report_encode hid_report_empty]) keys)"
  unfolding mock_hid_keyboard_events_def interrupt_reports_def
  by (induction keys) (simp_all add: hid_keyboard_input_event_def frame_new_def)

lemma interrupt_reports_ok:
  "list_all (\<lambda>report. length report = 8)
     (interrupt_reports (cr_events (fst (handle_control_request f ds keys regs))))"
  using cr_events_cases [of f ds keys regs]
  by (auto simp: interrupt_reports_events list_all_iff) (simp add: interrupt_reports_def)

lemma ret_submit_ok_for_simps [simp]:
  "rs_header (usbip_ret_submit_ok_for p buffer) =
     \<lparr>command = RetSubmit, seqnum = seqnum (cs_header p), devid = 0, hdr_direction = Out, hdr_endpoint = 0\<rparr>"
  "rs_status (usbip_ret_submit_ok_for p buffer) = 0"
  "rs_transfer_buffer (usbip_ret_submit_ok_for p buffer) = buffer"
  "rs_actual_length (usbip_ret_submit_ok_for p buffer) = of_nat (length buffer)"
  by (simp_all add: usbip_ret_submit_ok_for_def)

definition answer_to :: "usbip_cmd_submit \<Rightarrow> usbip_ret_submit \<Rightarrow> bool" where
  "answer_to p r \<longleftrightarrow> wf_ret_submit r \<and> seqnum (rs_header r) = seqnum (cs_header p) \<and>
     (rs_status r = 0 \<or> rs_transfer_buffer r = [])"

lemma answer_to_ok_for: "length buffer \<le> 65535 \<Longrightarrow> answer_to p (usbip_ret_submit_ok_for p buffer)"
  by (simp add: answer_to_def wf_ret_submit_def unat_of_nat_u32)

lemma answer_to_failed: "answer_to p (failed_submit_response p st)"
  by (simp add: answer_to_def failed_submit_response_def wf_ret_submit_def)

lemma control_response_data_length:
  assumes "length data \<le> 65535"
  shows "(case control_transfer_decode (fr_payload (control_response f st data)) of
     Inr transfer \<Rightarrow> length (ct_data transfer) | Inl _ \<Rightarrow> 0) \<le> 65535"
proof (cases "control_transfer_decode (fr_payload f)")
  case (Inl e)
  then have "fr_payload (control_response f st data) = data"
    by (simp add: control_response_def frame_new_def)
  then show ?thesis
    using assms by (auto simp: control_transfer_decode_def usb_control_setup_decode_def)
next
  case (Inr c)
  then show ?thesis
    using assms by (simp add: control_response_def frame_new_def control_transfer_new_def)
qed

lemma handle_submit_ok:
  assumes dev: "device_ok dev" and r: "handle_submit p ds keys dev = (r, dev')"
  shows "answer_to p r \<and> device_ok dev'"
proof -
  consider (control) "hdr_endpoint (cs_header p) = 0"
    | (interrupt) "hdr_endpoint (cs_header p) = 0x81"
    | (other) "hdr_endpoint (cs_header p) \<noteq> 0" "hdr_endpoint (cs_header p) \<noteq> 0x81"
    by blast
  then show ?thesis
  proof cases
    case control
    then have r': "handle_control_submit p ds keys dev = (r, dev')"
      using r by (simp add: handle_submit_def)
    show ?thesis
    proof (cases "usb_control_setup_decode (cs_setup p)")
      case (Inl e)
      then show ?thesis using r' dev by (auto simp: handle_control_submit_def answer_to_failed)
    next
      case (Inr su)
      define f where "f = frame_new (ucast (seqnum (cs_header p))) Request
          (setup_transfer_direction su) Control 0 0
          (control_transfer_encode (control_transfer_new su (cs_transfer_buffer p)))"
      obtain reply regs where h: "handle_control_request f (Some ds) keys (ud_registers dev) = (reply, regs)"
        by fastforce
      obtain st data where resp: "cr_response reply = control_response f st data" "length data \<le> 65535"
        using handle_control_request_ok [of f "ud_registers dev" "Some ds" keys]
        by (auto simp: reply_ok_def h)
      define payload where "payload = (case control_transfer_decode (fr_payload (cr_response reply)) of
          Inr transfer \<Rightarrow> ct_data transfer | Inl _ \<Rightarrow> [])"
      have "length payload \<le> 65535"
        using control_response_data_length [OF resp(2), of f st]
        by (auto simp: payload_def resp split: sum.splits)
      moreover have "list_all (\<lambda>report. length report = 8) (interrupt_reports (cr_events reply))"
        using interrupt_reports_ok [of f "Some ds" keys "ud_registers dev"] by (simp add: h)
      ultimately show ?thesis
        using r' dev
        by (auto simp: handle_control_submit_def Inr f_def [symmetric] h payload_def [symmetric]
            answer_to_def wf_ret_submit_def unat_of_nat_u32 device_ok_def Let_def split: if_splits)
    qed
  next
    case interrupt
    then show ?thesis
      using r dev by (auto simp: handle_submit_def answer_to_ok_for device_ok_def split: list.splits)
  next
    case other
    then show ?thesis using r dev by (auto simp: handle_submit_def answer_to_failed)
  qed
qed

section \<open>The loop is a fold over the packets of the stream\<close>

definition usbip_framed :: "bytes \<Rightarrow> bool" where
  "usbip_framed packet \<longleftrightarrow> 48 \<le> length packet \<and>
     (case usbip_header_decode (slice packet 0 20) of
        Inl _ \<Rightarrow> False
      | Inr basic \<Rightarrow> length packet = 48 +
          (if command basic = CmdSubmit \<and> submit_is_out packet
           then submit_transfer_buffer_len packet else 0))"

fun usbip_run ::
  "usb_descriptor_set \<Rightarrow> bytes \<Rightarrow> bytes list \<Rightarrow> usbip_device \<Rightarrow>
   (protocol_error + unit) \<times> bytes list \<times> usbip_device" where
  "usbip_run descriptors keycodes [] dev = (Inr (), [], dev)"
| "usbip_run descriptors keycodes (packet # packets) dev =
     (case usbip_packet_step descriptors keycodes packet dev of
        (Inl e, dev') \<Rightarrow> (Inl e, [], dev')
      | (Inr None, dev') \<Rightarrow> usbip_run descriptors keycodes packets dev'
      | (Inr (Some out), dev') \<Rightarrow>
          (let (r, written, dev'') = usbip_run descriptors keycodes packets dev'
           in (r, out # written, dev'')))"

lemma read_u32_be_take: "off + 4 \<le> n \<Longrightarrow> read_u32_be (take n bs) off = read_u32_be bs off"
  by (simp add: read_u32_be_def slice_def drop_take)

lemma slice_take: "b \<le> n \<Longrightarrow> slice (take n bs) a b = slice bs a b"
  by (simp add: slice_def drop_take)

lemma read_usbip_packet_framed:
  assumes "usbip_framed packet"
  shows "read_usbip_packet \<lparr>st_bytes = packet @ rest, st_end = e\<rparr> =
    (Inr (Some packet), \<lparr>st_bytes = rest, st_end = e\<rparr>)"
proof -
  obtain basic where b: "usbip_header_decode (slice packet 0 20) = Inr basic" and
    len: "48 \<le> length packet" "length packet = 48 +
      (if command basic = CmdSubmit \<and> submit_is_out packet then submit_transfer_buffer_len packet else 0)"
    using assms by (auto simp: usbip_framed_def split: sum.splits)
  let ?h = "take 48 packet"
  have h: "usbip_header_decode (slice ?h 0 20) = Inr basic" "submit_is_out ?h = submit_is_out packet"
    "submit_transfer_buffer_len ?h = submit_transfer_buffer_len packet"
    using b by (simp_all add: slice_take submit_is_out_def submit_transfer_buffer_len_def read_u32_be_take)
  have 1: "read_exact 48 \<lparr>st_bytes = packet @ rest, st_end = e\<rparr> =
      (Inr ?h, \<lparr>st_bytes = drop 48 packet @ rest, st_end = e\<rparr>)"
    using len(1) by (simp add: read_exact_def)
  let ?n = "if command basic = CmdSubmit \<and> submit_is_out packet then submit_transfer_buffer_len packet else 0"
  have 2: "read_exact ?n \<lparr>st_bytes = drop 48 packet @ rest, st_end = e\<rparr> =
      (Inr (drop 48 packet), \<lparr>st_bytes = rest, st_end = e\<rparr>)"
    using len(2) by (simp add: read_exact_def)
  show ?thesis
  proof (cases "?n = 0")
    case True
    then have "?h = packet" "drop 48 packet = []" using len(2) by simp_all
    then show ?thesis using True 1 b by (simp add: read_usbip_packet_def Let_def)
  next
    case False
    then have c: "command basic = CmdSubmit" "submit_is_out packet" "submit_transfer_buffer_len packet > 0"
      by (simp_all split: if_splits)
    then show ?thesis using 1 2 h by (simp add: read_usbip_packet_def Let_def)
  qed
qed

lemma usbip_loop_run:
  assumes "list_all usbip_framed packets" and "length rest < 48"
  shows "usbip_loop ds keys \<lparr>st_bytes = concat packets @ rest, st_end = e\<rparr> [] dev =
    usbip_run ds keys packets dev"
  using assms(1)
proof (induction packets arbitrary: dev)
  case Nil
  then show ?case
    using assms(2) by (subst usbip_loop.simps)
      (simp add: read_usbip_packet_def read_exact_def split: stream_end.split)
next
  case (Cons packet packets)
  then show ?case
    using read_usbip_packet_framed [of packet "concat packets @ rest" e]
    by (subst usbip_loop.simps) (simp split: prod.split sum.split option.split)
qed

text \<open>What a USB/IP client sends is framed.\<close>

definition client_packet :: "bytes \<Rightarrow> bool" where
  "client_packet packet \<longleftrightarrow>
     (case usbip_cmd_submit_decode packet of
        Inr _ \<Rightarrow> True
      | Inl _ \<Rightarrow> (case usbip_cmd_unlink_decode packet of Inr _ \<Rightarrow> True | Inl _ \<Rightarrow> False))"

lemma client_packet_unlink:
  assumes "wf_cmd_unlink u"
  shows "client_packet (usbip_cmd_unlink_encode u)"
proof -
  have "usbip_cmd_unlink_decode (usbip_cmd_unlink_encode u) = Inr u"
    using cmd_unlink.round_trip [OF assms] by simp
  then show ?thesis
    by (cases "usbip_cmd_submit_decode (usbip_cmd_unlink_encode u)") (simp_all only: client_packet_def sum.case)
qed

lemma client_packet_cases:
  assumes "client_packet packet"
  obtains (submit) p where "usbip_cmd_submit_decode packet = Inr p"
      "usbip_header_decode (slice packet 0 20) = Inr (cs_header p)" "command (cs_header p) = CmdSubmit"
      "length packet = 48 + (if hdr_direction (cs_header p) = Out then submit_transfer_buffer_len packet else 0)"
  | (unlink) u where "usbip_cmd_unlink_decode packet = Inr u"
      "usbip_header_decode (slice packet 0 20) = Inr (cu_header u)" "command (cu_header u) = CmdUnlink"
      "length packet = 48"
proof (cases "usbip_cmd_submit_decode packet")
  case (Inr p)
  then show thesis
    by (intro submit [of p]) (auto simp: usbip_cmd_submit_decode_def Let_def and_then_Inr_iff
        submit_transfer_buffer_len_def split: if_splits)
next
  case (Inl e)
  then obtain u where "usbip_cmd_unlink_decode packet = Inr u"
    using assms by (auto simp: client_packet_def split: sum.splits)
  then show thesis
    by (intro unlink [of u]) (auto simp: usbip_cmd_unlink_decode_def and_then_Inr_iff split: if_splits)
qed

lemma submit_is_out_header:
  assumes "usbip_header_decode (slice packet 0 20) = Inr h" "48 \<le> length packet"
  shows "submit_is_out packet \<longleftrightarrow> hdr_direction h = Out"
proof -
  have "usbip_direction_try_from (read_u32_be (slice packet 0 20) 12) = Inr (hdr_direction h)"
    using assms by (auto simp: usbip_header_decode_def and_then_Inr_iff split: if_splits)
  then have "read_u32_be packet 12 = usbip_direction_code (hdr_direction h)"
    by (simp add: usbip_directions.try_from_Inr_iff read_u32_be_take slice_def)
  then show ?thesis
    by (cases "hdr_direction h") (simp_all add: submit_is_out_def)
qed

lemma client_packet_framed: "client_packet packet \<Longrightarrow> usbip_framed packet"
  by (erule client_packet_cases)
    (auto simp: usbip_framed_def submit_is_out_header)

definition answered :: "bytes \<Rightarrow> bytes \<Rightarrow> bool" where
  "answered packet out \<longleftrightarrow>
     (case usbip_header_decode (slice packet 0 20) of
        Inl _ \<Rightarrow> False
      | Inr h \<Rightarrow>
          (case command h of
             CmdSubmit \<Rightarrow>
               (case usbip_ret_submit_decode out of
                  Inr r \<Rightarrow> seqnum (rs_header r) = seqnum h | Inl _ \<Rightarrow> False)
           | CmdUnlink \<Rightarrow>
               (case usbip_ret_unlink_decode out of
                  Inr r \<Rightarrow> seqnum (ru_header r) = seqnum h \<and> ru_status r = 0 | Inl _ \<Rightarrow> False)
           | _ \<Rightarrow> False))"

lemma encode_answer:
  assumes "answer_to p r"
  obtains out where "usbip_ret_submit_encode r = Inr out" "usbip_ret_submit_decode out = Inr r"
  using ret_submit.enc_dec [of r] assms by (auto simp: answer_to_def)

lemma usbip_packet_step_answers:
  assumes "client_packet packet" and dev: "device_ok dev"
  shows "\<exists>out dev'. usbip_packet_step ds keys packet dev = (Inr (Some out), dev') \<and> device_ok dev' \<and>
    answered packet out"
  using assms(1)
proof (cases rule: client_packet_cases)
  case (submit p)
  obtain r dev' where h: "handle_submit p ds keys dev = (r, dev')" by fastforce
  have a: "answer_to p r" "device_ok dev'" using handle_submit_ok [OF dev h] by simp_all
  obtain out where "usbip_ret_submit_encode r = Inr out" "usbip_ret_submit_decode out = Inr r"
    by (rule encode_answer [OF a(1)])
  then show ?thesis
    using submit h a by (simp add: usbip_packet_step_def answered_def answer_to_def)
next
  case (unlink u)
  have "usbip_ret_unlink_decode (usbip_ret_unlink_encode (usbip_ret_unlink_new (seqnum (cu_header u)) 0)) =
      Inr (usbip_ret_unlink_new (seqnum (cu_header u)) 0)"
    using ret_unlink.round_trip by (simp add: wf_ret_unlink_def usbip_ret_unlink_new_def)
  then show ?thesis
    using unlink dev by (simp add: usbip_packet_step_def answered_def usbip_ret_unlink_new_def)
qed

lemma usbip_packet_step_ok:
  assumes "device_ok dev" and "usbip_packet_step ds keys packet dev = (r, dev')"
  shows "(\<exists>out. r = Inr out) \<and> device_ok dev'"
proof (cases "\<exists>p h. usbip_header_decode (slice packet 0 20) = Inr h \<and> command h = CmdSubmit \<and>
    usbip_cmd_submit_decode packet = Inr p")
  case True
  then obtain p h where d: "usbip_header_decode (slice packet 0 20) = Inr h" "command h = CmdSubmit"
    "usbip_cmd_submit_decode packet = Inr p" by blast
  obtain a dev1 where h: "handle_submit p ds keys dev = (a, dev1)" by fastforce
  have a: "answer_to p a" "device_ok dev1" using handle_submit_ok [OF assms(1) h] by simp_all
  obtain out where "usbip_ret_submit_encode a = Inr out"
    by (rule encode_answer [OF a(1)])
  then show ?thesis
    using assms(2) a by (auto simp: usbip_packet_step_def d h)
next
  case False
  then show ?thesis
    using assms by (auto simp: usbip_packet_step_def split: sum.splits usbip_command.splits)
qed

lemma usbip_run_answers:
  assumes "list_all client_packet packets" and "device_ok dev"
  shows "\<exists>written dev'. usbip_run ds keys packets dev = (Inr (), written, dev') \<and>
    list_all2 answered packets written"
  using assms
proof (induction packets arbitrary: dev)
  case (Cons packet packets)
  obtain out dev1 where "usbip_packet_step ds keys packet dev = (Inr (Some out), dev1)"
    "device_ok dev1" "answered packet out"
    using usbip_packet_step_answers [of packet dev ds keys] Cons.prems by auto
  moreover obtain written dev2 where "usbip_run ds keys packets dev1 = (Inr (), written, dev2)"
    "list_all2 answered packets written"
    using Cons.IH [OF _ \<open>device_ok dev1\<close>] Cons.prems by auto
  ultimately show ?case by simp
qed simp

lemma usbip_loop_ok:
  "device_ok dev \<Longrightarrow> fst (usbip_loop ds keys st oks dev) = Inr ()"
proof (induction ds keys st oks dev rule: usbip_loop.induct)
  case (1 ds keys st oks dev)
  show ?case
  proof (cases "read_usbip_packet st")
    case (Pair r st')
    show ?thesis
    proof (cases "\<exists>packet. r = Inr (Some packet)")
      case False
      then show ?thesis
        by (subst usbip_loop.simps) (auto simp: Pair split: sum.split option.split)
    next
      case True
      then obtain packet where r: "read_usbip_packet st = (Inr (Some packet), st')"
        using Pair by blast
      obtain x dev' where s: "usbip_packet_step ds keys packet dev = (x, dev')" by fastforce
      then obtain out where x: "x = Inr out" and ok: "device_ok dev'"
        using usbip_packet_step_ok [OF 1(3) s] by blast
      show ?thesis
      proof (cases out)
        case None
        then show ?thesis
          using 1(1) [OF r [symmetric] refl refl s [symmetric] x None ok] s x r
          by (subst usbip_loop.simps) simp
      next
        case (Some o')
        then show ?thesis
          using 1(2) [OF r [symmetric] refl refl s [symmetric] x Some _ ok] s x r
          by (subst usbip_loop.simps) (auto simp: case_prod_beta Let_def)
      qed
    qed
  qed
qed

section \<open>Properties\<close>

lemma device_ok_new [simp]: "device_ok \<lparr>ud_registers = regs, ud_reports = []\<rparr>"
  by (simp add: device_ok_def)

lemma detach_cleanup_closed:
  "(\<lambda>(_, lc, d). (Inr (), w, lc\<lparr>lc_state := Closed\<rparr>, d)) x = (Inr (), w, lc', d') \<Longrightarrow> lc_state lc' = Closed"
  by (auto split: prod.splits)

text \<open>
  C17: the USB/IP session reads the stream packet by packet and answers each: when the peer
  sends submits and unlinks one after the other, cut off anywhere in a last header, and the
  writes succeed, the session writes one answer per packet in their order, \<open>RET_SUBMIT\<close> for
  a submit and \<open>RET_UNLINK\<close> for an unlink, each with the sequence number of its packet, and
  ends closed; only a refused attach keeps it from starting.
\<close>

theorem usbip_session_answers:
  assumes "list_all client_packet packets" and "length rest < 48"
  shows "case run_single_usbip_client ops dev keys \<lparr>st_bytes = concat packets @ rest, st_end = e\<rparr> [] d of
      (Inl AttachFailed, written, lc, d') \<Rightarrow> written = [] \<and> lc_state lc = Connected
    | (Inl (EncodeFailed _), _) \<Rightarrow> False
    | (Inr _, written, lc, d') \<Rightarrow> list_all2 answered packets written \<and> lc_state lc = Closed"
proof -
  let ?dev = "\<lparr>ud_registers = \<lparr>reg_address = 0, reg_configuration = 0\<rparr>, ud_reports = []\<rparr>"
  obtain status lc d1 where a: "attach_session ops dev
      \<lparr>lc_attached_by_control_plane = False, lc_state = Connected\<rparr> d = (status, lc, d1)"
    by (metis prod_cases3)
  obtain written dev' where w: "usbip_run (descriptor_set_for_attach dev) keys packets ?dev =
      (Inr (), written, dev')" "list_all2 answered packets written"
    using usbip_run_answers [OF assms(1) device_ok_new] by blast
  have "list_all usbip_framed packets"
    using assms(1) by (auto simp: list_all_iff client_packet_framed)
  then have "usbip_loop (descriptor_set_for_attach dev) keys
      \<lparr>st_bytes = concat packets @ rest, st_end = e\<rparr> [] ?dev = (Inr (), written, dev')"
    by (simp add: usbip_loop_run [OF _ assms(2)] w)
  moreover have "status = 0 \<or> status = -1 \<and> lc_state lc = Connected"
    using a by (cases rule: attach_session_cases) simp_all
  moreover obtain x lc2 d2 where "detach_session ops (lc\<lparr>lc_state := Detaching\<rparr>) d1 = (x, lc2, d2)"
    by (metis prod_cases3)
  ultimately show ?thesis
    using w(2) by (elim disjE conjE) (simp_all add: run_single_usbip_client_def a Let_def)
qed

theorem usbip_session_answers_witness:
  "case run_single_usbip_client mock_ops None [4]
      \<lparr>st_bytes = concat [usbip_cmd_unlink_encode (usbip_cmd_unlink_new 8 0x10002 3)] @ [0, 0],
       st_end = StreamEof\<rparr> [] \<lparr>md_tx = ring_empty, md_rx = ring_empty\<rparr> of
     (Inl AttachFailed, written, lc, d') \<Rightarrow> written = [] \<and> lc_state lc = Connected
   | (Inl (EncodeFailed _), _) \<Rightarrow> False
   | (Inr _, written, lc, d') \<Rightarrow>
       list_all2 answered [usbip_cmd_unlink_encode (usbip_cmd_unlink_new 8 0x10002 3)] written \<and>
       lc_state lc = Closed"
proof (rule usbip_session_answers)
  have "client_packet (usbip_cmd_unlink_encode (usbip_cmd_unlink_new 8 0x10002 3))"
    by (rule client_packet_unlink) (simp add: wf_cmd_unlink_def usbip_cmd_unlink_new_def)
  then show "list_all client_packet [usbip_cmd_unlink_encode (usbip_cmd_unlink_new 8 0x10002 3)]"
    by simp
qed simp


text \<open>Submits handled one after the other, without the stream around them.\<close>

fun submit_run ::
  "usb_descriptor_set \<Rightarrow> bytes \<Rightarrow> usbip_cmd_submit list \<Rightarrow> usbip_device \<Rightarrow>
   usbip_ret_submit list \<times> usbip_device" where
  "submit_run descriptors keycodes [] dev = ([], dev)"
| "submit_run descriptors keycodes (p # ps) dev =
     (let (r, dev') = handle_submit p descriptors keycodes dev;
          (rs, dev'') = submit_run descriptors keycodes ps dev'
      in (r # rs, dev''))"

lemma submit_run_interrupts:
  assumes "list_all (\<lambda>p. hdr_endpoint (cs_header p) = 0x81) ps"
  shows "map rs_transfer_buffer (fst (submit_run ds keys ps dev)) =
    take (length ps) (ud_reports dev @ replicate (length ps) [])"
  using assms
proof (induction ps arbitrary: dev)
  case (Cons p ps)
  then show ?case
  proof (cases "ud_reports dev")
    case (Cons report reports)
    have "map rs_transfer_buffer (fst (submit_run ds keys ps (dev\<lparr>ud_reports := reports\<rparr>))) =
        take (length ps) (reports @ replicate (length ps) [])"
      using Cons.IH [of "dev\<lparr>ud_reports := reports\<rparr>"] Cons.prems by simp
    moreover have "take (length ps) (reports @ [] # replicate (length ps) []) =
        take (length ps) (reports @ replicate (length ps) [])"
      by (cases "length ps \<le> length reports")
        (simp_all add: take_Cons' min_def replicate_append_same [symmetric] flip: replicate_Suc)
    ultimately show ?thesis
      using Cons Cons.prems by (simp add: handle_submit_def case_prod_beta Let_def)
  qed (simp add: handle_submit_def case_prod_beta Let_def)
qed simp

text \<open>The reports a keyboard with the given keys has to deliver: press and release.\<close>

definition keyboard_reports :: "bytes \<Rightarrow> bytes list" where
  "keyboard_reports keys =
     concat (map (\<lambda>key. [[0, 0, key, 0, 0, 0, 0, 0], [0, 0, 0, 0, 0, 0, 0, 0]]) keys)"

lemma interrupt_reports_keyboard:
  "interrupt_reports (mock_hid_keyboard_events keys) = keyboard_reports keys"
  by (simp add: interrupt_reports_events keyboard_reports_def hid_report_encode_def
      hid_report_key_press_def hid_report_empty_def numeral_eq_Suc)

lemma supported_configuration:
  "list_ex (\<lambda>c. cfg_configuration_value (conf_descriptor c) = 1)
     (ds_configurations (mock_hid_keyboard vendor_id product_id))"
  by (simp add: mock_hid_keyboard_def mock_hid_configuration_def)

lemma handle_control_set_configuration:
  assumes "fr_payload f = control_transfer_encode (control_transfer_new (setup_set_configuration 1) data)"
  shows "handle_control_request f (Some (mock_hid_keyboard vendor_id product_id)) keys regs =
    (\<lparr>cr_response = control_response f 0 [], cr_events = mock_hid_keyboard_events keys\<rparr>,
     regs\<lparr>reg_configuration := 1\<rparr>)"
  using supported_configuration [of vendor_id product_id]
  by (simp add: handle_control_request_def assms control_transfer_new_def handle_set_configuration_def
      status_reply_def control_reply_response_def Let_def)

lemma handle_submit_set_configuration:
  assumes "hdr_endpoint (cs_header p) = 0"
    and "cs_setup p = usb_control_setup_encode (setup_set_configuration 1)"
  shows "handle_submit p (mock_hid_keyboard vendor_id product_id) keys dev =
    (usbip_ret_submit_ok_for p [],
     \<lparr>ud_registers = (ud_registers dev)\<lparr>reg_configuration := 1\<rparr>,
      ud_reports = ud_reports dev @ keyboard_reports keys\<rparr>)"
proof -
  let ?f = "frame_new (ucast (seqnum (cs_header p))) Request HostToDevice Control 0 0
      (control_transfer_encode (control_transfer_new (setup_set_configuration 1) (cs_transfer_buffer p)))"
  have pay: "fr_payload ?f =
      control_transfer_encode (control_transfer_new (setup_set_configuration 1) (cs_transfer_buffer p))"
    by (simp add: frame_new_def)
  have "fr_payload (control_response ?f 0 []) =
      control_transfer_encode (control_transfer_new (setup_set_configuration 1) [])"
    by (simp add: control_response_def frame_new_def control_transfer_new_def)
  then show ?thesis
    using assms
    by (simp add: handle_submit_def handle_control_submit_def handle_control_set_configuration [OF pay]
        interrupt_reports_keyboard Let_def)
      (simp add: usbip_ret_submit_ok_for_def control_transfer_new_def)
qed

text \<open>
  C29: the keyboard is heard: after \<open>SET_CONFIGURATION(1)\<close> has been submitted to a device
  with no reports waiting, the submits to the interrupt endpoint return the press and the
  release of every configured key, in order and each report whole (whatever the buffer
  length of the submit), and once all have been read they return empty transfers.
\<close>

theorem keyboard_reports_delivered:
  assumes "hdr_endpoint (cs_header p) = 0"
    and "cs_setup p = usb_control_setup_encode (setup_set_configuration 1)"
    and "list_all (\<lambda>q. hdr_endpoint (cs_header q) = 0x81) ps"
  shows "map rs_transfer_buffer (fst (submit_run (mock_hid_keyboard vendor_id product_id) keys (p # ps)
      \<lparr>ud_registers = regs, ud_reports = []\<rparr>)) =
    [] # take (length ps) (keyboard_reports keys @ replicate (length ps) [])"
  using submit_run_interrupts [OF assms(3), of "mock_hid_keyboard vendor_id product_id" keys
      "\<lparr>ud_registers = regs\<lparr>reg_configuration := 1\<rparr>, ud_reports = keyboard_reports keys\<rparr>"]
  by (simp add: handle_submit_set_configuration [OF assms(1,2)] case_prod_beta)

theorem keyboard_reports_delivered_witness:
  "map rs_transfer_buffer (fst (submit_run (mock_hid_keyboard 0x1209 1) [4]
      [usbip_cmd_submit_new 1 2 Out 0 [] (usb_control_setup_encode (setup_set_configuration 1)),
       usbip_cmd_submit_new 2 2 In 0x81 [] (replicate 8 0),
       usbip_cmd_submit_new 3 2 In 0x81 [] (replicate 8 0),
       usbip_cmd_submit_new 4 2 In 0x81 [] (replicate 8 0)]
      \<lparr>ud_registers = \<lparr>reg_address = 0, reg_configuration = 0\<rparr>, ud_reports = []\<rparr>)) =
    [[], [0, 0, 4, 0, 0, 0, 0, 0], [0, 0, 0, 0, 0, 0, 0, 0], []]"
  using keyboard_reports_delivered [of "usbip_cmd_submit_new 1 2 Out 0 []
        (usb_control_setup_encode (setup_set_configuration 1))"
      "[usbip_cmd_submit_new 2 2 In 0x81 [] (replicate 8 0),
        usbip_cmd_submit_new 3 2 In 0x81 [] (replicate 8 0),
        usbip_cmd_submit_new 4 2 In 0x81 [] (replicate 8 0)]" "0x1209" 1 "[4]"
      "\<lparr>reg_address = 0, reg_configuration = 0\<rparr>"]
  by (simp add: keyboard_reports_def usbip_cmd_submit_new_def)

end
