(* ===== verification/Text_Format.thy ===== *)
theory Text_Format imports Prelude begin

text \<open>
  The string functions of Rust's standard library that the program's parsers and messages
  use, on ASCII strings: letter case, white space, splitting, and reading and printing
  integers in a radix. \<open>show_radix\<close> and \<open>parse_unsigned\<close> are inverse to each other.
\<close>

section \<open>Characters and splitting\<close>

definition to_ascii_lowercase :: "string \<Rightarrow> string" where
  "to_ascii_lowercase = map (\<lambda>c.
     if 65 \<le> (of_char c :: nat) \<and> (of_char c :: nat) \<le> 90 then char_of ((of_char c :: nat) + 32) else c)"

definition is_whitespace :: "char \<Rightarrow> bool" where
  "is_whitespace c \<longleftrightarrow> (let n = (of_char c :: nat) in (9 \<le> n \<and> n \<le> 13) \<or> n = 32)"

fun split_pred :: "(char \<Rightarrow> bool) \<Rightarrow> string \<Rightarrow> string list" where
  "split_pred p [] = [[]]"
| "split_pred p (c # cs) =
     (if p c then [] # split_pred p cs
      else (case split_pred p cs of w # ws \<Rightarrow> (c # w) # ws | [] \<Rightarrow> [[c]]))"

definition split_on :: "char \<Rightarrow> string \<Rightarrow> string list" where
  "split_on c = split_pred (\<lambda>x. x = c)"

definition split_whitespace :: "string \<Rightarrow> string list" where
  "split_whitespace s = filter (\<lambda>w. w \<noteq> []) (split_pred is_whitespace s)"

definition trim :: "string \<Rightarrow> string" where
  "trim s = rev (dropWhile is_whitespace (rev (dropWhile is_whitespace s)))"

definition strip_cr :: "string \<Rightarrow> string" where
  "strip_cr s = (if s \<noteq> [] \<and> last s = CHR 0x0D then butlast s else s)"

text \<open>\<open>str::lines\<close>: the end of the last line is optional.\<close>

definition lines_of :: "string \<Rightarrow> string list" where
  "lines_of s =
     (let parts = split_pred (\<lambda>c. c = CHR 0x0A) s
      in map strip_cr (butlast parts) @ (if last parts = [] then [] else [last parts]))"

fun strip_prefix :: "string \<Rightarrow> string \<Rightarrow> string option" where
  "strip_prefix [] s = Some s"
| "strip_prefix (p # ps) (c # cs) = (if p = c then strip_prefix ps cs else None)"
| "strip_prefix (p # ps) [] = None"

lemma strip_prefix_append [simp]: "strip_prefix p (p @ s) = Some s"
  by (induction p) simp_all

lemma strip_prefix_Some: "strip_prefix p s = Some r \<longleftrightarrow> s = p @ r"
  by (induction p s rule: strip_prefix.induct) auto

text \<open>\<open>str::trim_start_matches\<close> removes the pattern as often as it occurs.\<close>

function trim_start_matches :: "string \<Rightarrow> string \<Rightarrow> string" where
  "trim_start_matches p s =
     (if p = [] then s
      else case strip_prefix p s of None \<Rightarrow> s | Some rest \<Rightarrow> trim_start_matches p rest)"
  by pat_completeness auto
termination
  by (relation "measure (\<lambda>(_, s). length s)") (auto simp: strip_prefix_Some)

declare trim_start_matches.simps [simp del]

lemma split_pred_ne [simp]: "split_pred p s \<noteq> []"
  by (cases s) (auto split: list.splits)

lemma split_pred_append:
  "split_pred p (xs @ c # ys) = split_pred p xs @ split_pred p ys" if "p c"
proof (induction xs)
  case Nil
  then show ?case using that by simp
next
  case (Cons x xs)
  then show ?case
    by (cases "split_pred p xs") simp_all
qed

lemma split_pred_none: "\<forall>c \<in> set s. \<not> p c \<Longrightarrow> split_pred p s = [s]"
  by (induction s) auto

section \<open>Integers\<close>

text \<open>\<open>core::num::IntErrorKind\<close>, with the texts of \<open>ParseIntError\<close>.\<close>

datatype int_error = EmptyInt | InvalidDigit | PosOverflow | NegOverflow

definition int_error_display :: "int_error \<Rightarrow> string" where
  "int_error_display e =
     (case e of
        EmptyInt \<Rightarrow> ''cannot parse integer from empty string''
      | InvalidDigit \<Rightarrow> ''invalid digit found in string''
      | PosOverflow \<Rightarrow> ''number too large to fit in target type''
      | NegOverflow \<Rightarrow> ''number too small to fit in target type'')"

definition to_digit :: "nat \<Rightarrow> char \<Rightarrow> nat option" where
  "to_digit radix c =
     (let n = (of_char c :: nat);
          d = (if 48 \<le> n \<and> n \<le> 57 then n - 48
               else if 97 \<le> n \<and> n \<le> 122 then n - 87
               else if 65 \<le> n \<and> n \<le> 90 then n - 55 else radix)
      in if d < radix then Some d else None)"

fun parse_digits :: "nat \<Rightarrow> nat \<Rightarrow> nat \<Rightarrow> string \<Rightarrow> int_error + nat" where
  "parse_digits radix hi acc [] = Inr acc"
| "parse_digits radix hi acc (c # cs) =
     (case to_digit radix c of
        None \<Rightarrow> Inl InvalidDigit
      | Some d \<Rightarrow>
          if acc * radix + d > hi then Inl PosOverflow
          else parse_digits radix hi (acc * radix + d) cs)"

text \<open>\<open>from_str_radix\<close> of an unsigned type with the given maximum.\<close>

definition parse_unsigned :: "nat \<Rightarrow> nat \<Rightarrow> string \<Rightarrow> int_error + nat" where
  "parse_unsigned radix hi s =
     (case s of
        [] \<Rightarrow> Inl EmptyInt
      | c # cs \<Rightarrow>
          if cs = [] \<and> (c = CHR ''+'' \<or> c = CHR ''-'') then Inl InvalidDigit
          else if c = CHR ''+'' then parse_digits radix hi 0 cs
          else parse_digits radix hi 0 s)"

text \<open>\<open>from_str_radix\<close> of a signed type with the given extremes.\<close>

definition parse_signed :: "nat \<Rightarrow> nat \<Rightarrow> nat \<Rightarrow> string \<Rightarrow> int_error + int" where
  "parse_signed radix lo hi s =
     (case s of
        [] \<Rightarrow> Inl EmptyInt
      | c # cs \<Rightarrow>
          if cs = [] \<and> (c = CHR ''+'' \<or> c = CHR ''-'') then Inl InvalidDigit
          else if c = CHR ''-''
          then (case parse_digits radix lo 0 cs of
                  Inr n \<Rightarrow> Inr (- int n)
                | Inl PosOverflow \<Rightarrow> Inl NegOverflow
                | Inl e \<Rightarrow> Inl e)
          else map_sum id int (parse_unsigned radix hi s))"

definition digit_char :: "nat \<Rightarrow> char" where
  "digit_char d = char_of (if d < 10 then 48 + d else 87 + d)"

fun show_radix :: "nat \<Rightarrow> nat \<Rightarrow> string" where
  "show_radix radix n =
     (if radix < 2 \<or> n < radix then [digit_char n]
      else show_radix radix (n div radix) @ [digit_char (n mod radix)])"

declare show_radix.simps [simp del]

abbreviation dec :: "nat \<Rightarrow> string" where "dec n \<equiv> show_radix 10 n"

text \<open>The format \<open>{:0width x}\<close>.\<close>

definition pad_zero :: "nat \<Rightarrow> string \<Rightarrow> string" where
  "pad_zero width s = replicate (width - length s) (CHR ''0'') @ s"

lemma to_digit_digit_char [simp]: "d < radix \<Longrightarrow> radix \<le> 36 \<Longrightarrow> to_digit radix (digit_char d) = Some d"
  by (auto simp: to_digit_def digit_char_def Let_def)

lemma to_digit_zero [simp]: "0 < radix \<Longrightarrow> to_digit radix (CHR ''0'') = Some 0"
  by (simp add: to_digit_def)

lemma parse_digits_append:
  "parse_digits radix hi acc (xs @ ys) =
     (case parse_digits radix hi acc xs of Inl e \<Rightarrow> Inl e | Inr n \<Rightarrow> parse_digits radix hi n ys)"
  by (induction xs arbitrary: acc) (simp_all split: option.split)

lemma parse_digits_zeros: "0 < radix \<Longrightarrow> parse_digits radix hi 0 (replicate k (CHR ''0'') @ s) =
    parse_digits radix hi 0 s"
  by (induction k) simp_all

lemma parse_digits_show:
  "2 \<le> radix \<Longrightarrow> radix \<le> 36 \<Longrightarrow> n \<le> hi \<Longrightarrow> parse_digits radix hi 0 (show_radix radix n) = Inr n"
proof (induction radix n rule: show_radix.induct)
  case (1 radix n)
  show ?case
  proof (cases "n < radix")
    case True
    then show ?thesis using "1.prems" by (simp add: show_radix.simps)
  next
    case False
    then have "parse_digits radix hi 0 (show_radix radix (n div radix)) = Inr (n div radix)"
      using 1 by (meson div_le_dividend le_trans not_less)
    moreover have "n div radix * radix + n mod radix = n" by (simp add: mult.commute)
    moreover have "n mod radix < radix" using "1.prems"(1) by simp
    ultimately show ?thesis
      using False "1.prems" by (subst show_radix.simps) (simp add: parse_digits_append)
  qed
qed

lemma digit_char_sign [simp]: "d < 36 \<Longrightarrow> digit_char d \<noteq> CHR ''+''" "d < 36 \<Longrightarrow> digit_char d \<noteq> CHR ''-''"
proof -
  have "(of_char (digit_char d) :: nat) = (if d < 10 then 48 + d else 87 + d)" if "d < 36"
    using that by (simp add: digit_char_def)
  then show "d < 36 \<Longrightarrow> digit_char d \<noteq> CHR ''+''" "d < 36 \<Longrightarrow> digit_char d \<noteq> CHR ''-''"
    by (auto split: if_splits)
qed

lemma show_radix_set: "2 \<le> radix \<Longrightarrow> c \<in> set (show_radix radix n) \<Longrightarrow> \<exists>d < radix. c = digit_char d"
proof (induction radix n rule: show_radix.induct)
  case (1 radix n)
  show ?case
  proof (cases "n < radix")
    case True
    then show ?thesis using "1.prems" by (auto simp: show_radix.simps)
  next
    case False
    then have "c \<in> set (show_radix radix (n div radix)) \<or> c = digit_char (n mod radix)"
      using "1.prems" by (subst (asm) show_radix.simps) auto
    moreover have "\<exists>d < radix. digit_char (n mod radix) = digit_char d"
      using "1.prems"(1) by (intro exI [of _ "n mod radix"]) simp
    ultimately show ?thesis using 1 False by auto
  qed
qed

lemma show_radix_ne [simp]: "show_radix radix n \<noteq> []"
  by (subst show_radix.simps) simp

lemma padded_first:
  assumes "2 \<le> radix" "radix \<le> 36"
  obtains c cs where "replicate k (CHR ''0'') @ show_radix radix n = c # cs" "c \<noteq> CHR ''+''" "c \<noteq> CHR ''-''"
proof -
  let ?s = "replicate k (CHR ''0'') @ show_radix radix n"
  obtain c cs where s: "?s = c # cs" by (cases ?s) auto
  have "c \<in> set ?s" by (simp add: s)
  then consider "c = CHR ''0''" | d where "d < radix" "c = digit_char d"
    using show_radix_set [OF assms(1), of c n] by (auto split: if_splits)
  then have "c \<noteq> CHR ''+''" "c \<noteq> CHR ''-''"
    using assms(2) by (cases; auto)+
  then show thesis using s by (rule that [rotated])
qed

lemma parse_unsigned_padded:
  assumes "2 \<le> radix" "radix \<le> 36" "n \<le> hi"
  shows "parse_unsigned radix hi (replicate k (CHR ''0'') @ show_radix radix n) = Inr n"
proof -
  let ?s = "replicate k (CHR ''0'') @ show_radix radix n"
  obtain c cs where s: "?s = c # cs" "c \<noteq> CHR ''+''" "c \<noteq> CHR ''-''"
    by (rule padded_first [OF assms(1,2)])
  then have "parse_unsigned radix hi ?s = parse_digits radix hi 0 ?s"
    unfolding s(1) by (simp add: parse_unsigned_def del: parse_digits.simps)
  then show ?thesis
    using parse_digits_zeros [of radix hi k "show_radix radix n"] parse_digits_show [OF assms] assms(1)
    by simp
qed

lemma parse_signed_padded:
  assumes "2 \<le> radix" "radix \<le> 36" "n \<le> hi"
  shows "parse_signed radix lo hi (replicate k (CHR ''0'') @ show_radix radix n) = Inr (int n)"
proof -
  let ?s = "replicate k (CHR ''0'') @ show_radix radix n"
  obtain c cs where s: "?s = c # cs" "c \<noteq> CHR ''+''" "c \<noteq> CHR ''-''"
    by (rule padded_first [OF assms(1,2)])
  then have "parse_signed radix lo hi ?s = map_sum id int (parse_unsigned radix hi ?s)"
    unfolding s(1) by (simp add: parse_signed_def)
  then show ?thesis by (simp add: parse_unsigned_padded [OF assms])
qed

lemma parse_unsigned_show [simp]:
  "2 \<le> radix \<Longrightarrow> radix \<le> 36 \<Longrightarrow> n \<le> hi \<Longrightarrow> parse_unsigned radix hi (show_radix radix n) = Inr n"
  using parse_unsigned_padded [of radix n hi 0] by simp

definition show_int :: "int \<Rightarrow> string" where
  "show_int i = (if i < 0 then ''-'' @ dec (nat (- i)) else dec (nat i))"

lemma parse_signed_show_int:
  assumes "- int lo \<le> i" and "i \<le> int hi"
  shows "parse_signed 10 lo hi (show_int i) = Inr i"
proof (cases "i < 0")
  case True
  then have "parse_digits 10 lo 0 (dec (nat (- i))) = Inr (nat (- i))"
    using assms(1) by (intro parse_digits_show) simp_all
  then show ?thesis
    using True by (simp add: parse_signed_def show_int_def)
next
  case False
  then have "parse_signed 10 lo hi (dec (nat i)) = Inr (int (nat i))"
    using parse_signed_padded [of 10 "nat i" hi lo 0] assms(2) by simp
  then show ?thesis using False by (simp add: show_int_def)
qed

section \<open>Words and lines\<close>

definition is_word :: "string \<Rightarrow> bool" where
  "is_word w \<longleftrightarrow> w \<noteq> [] \<and> list_all (\<lambda>c. \<not> is_whitespace c) w"

lemma whitespace_space [simp]: "is_whitespace (CHR '' '')"
  by (simp add: is_whitespace_def)

lemma split_whitespace_word: "is_word w \<Longrightarrow> split_whitespace w = [w]"
  by (simp add: split_whitespace_def is_word_def list_all_iff split_pred_none)

lemma split_whitespace_cons: "is_word w \<Longrightarrow> split_whitespace (w @ CHR '' '' # rest) = w # split_whitespace rest"
  by (simp add: split_whitespace_def is_word_def list_all_iff split_pred_none split_pred_append)

lemma digit_char_not_space: "d < 36 \<Longrightarrow> \<not> is_whitespace (digit_char d)"
  by (simp add: is_whitespace_def digit_char_def)

lemma is_word_number: "2 \<le> radix \<Longrightarrow> radix \<le> 36 \<Longrightarrow> is_word (pad_zero k (show_radix radix n))"
  using show_radix_set [of radix _ n] digit_char_not_space
  by (fastforce simp: is_word_def pad_zero_def list_all_iff is_whitespace_def)

lemma trim_words:
  assumes "is_word u" and "is_word w" and "s = u @ t @ w"
  shows "trim s = s"
proof -
  obtain c u' where u: "u = c # u'" "\<not> is_whitespace c" using assms(1) by (cases u) (auto simp: is_word_def)
  have ne: "w \<noteq> []" and ws: "\<forall>c \<in> set w. \<not> is_whitespace c"
    using assms(2) by (simp_all add: is_word_def list_all_iff)
  from ne have "w = butlast w @ [last w]" by simp
  then have w: "rev w = last w # rev (butlast w)"
    by (metis rev_eq_Cons_iff rev_rev_ident)
  have w': "\<not> is_whitespace (last w)" using ws last_in_set [OF ne] by blast
  have "dropWhile is_whitespace s = s" by (simp add: assms(3) u)
  moreover have "dropWhile is_whitespace (rev s) = rev s" by (simp add: assms(3) w w')
  ultimately show ?thesis by (simp add: trim_def)
qed

lemma lines_of_terminated:
  assumes "list_all (\<lambda>l. CHR 0x0A \<notin> set l \<and> (l = [] \<or> last l \<noteq> CHR 0x0D)) ls"
  shows "lines_of (concat (map (\<lambda>l. l @ [CHR 0x0A]) ls)) = ls"
proof -
  have "split_pred (\<lambda>c. c = CHR 0x0A) (concat (map (\<lambda>l. l @ [CHR 0x0A]) ls)) = ls @ [[]]"
    using assms
  proof (induction ls)
    case (Cons l ls)
    then have "split_pred (\<lambda>c. c = CHR 0x0A) l = [l]" by (intro split_pred_none) auto
    then show ?case
      using Cons by (simp add: split_pred_append [of "\<lambda>c. c = CHR 0x0A" "CHR 0x0A" l, simplified])
  qed simp
  moreover have "map strip_cr ls = ls"
    using assms by (induction ls) (auto simp: strip_cr_def)
  ultimately show ?thesis by (simp add: lines_of_def)
qed

end
