(* ===== verification/Error_Texts.thy ===== *)
theory Error_Texts imports Driver_Backend Text_Format begin

text \<open>
  The texts of the error types, \<open>fmt::Display\<close> of \<open>ProtocolError\<close>, \<open>MappedRingError\<close>,
  \<open>AbiError\<close> and \<open>DriverError\<close>, which errors carry where one is wrapped in another.
\<close>

definition protocol_error_display :: "protocol_error \<Rightarrow> string" where
  "protocol_error_display e =
     (case e of
        TruncatedHeader got want \<Rightarrow>
          ''truncated header: got '' @ dec got @ '' bytes, expected '' @ dec want
      | InvalidMagic \<Rightarrow> ''invalid magic''
      | UnsupportedVersion version \<Rightarrow> ''unsupported version '' @ dec (unat version)
      | InvalidFrameType value \<Rightarrow> ''invalid frame type '' @ dec (unat value)
      | InvalidDirection value \<Rightarrow> ''invalid direction '' @ dec (unat value)
      | InvalidTransferType value \<Rightarrow> ''invalid transfer type '' @ dec (unat value)
      | InvalidTransferStatus value \<Rightarrow> ''invalid transfer status '' @ show_int (sint value)
      | InvalidPayloadLength got want \<Rightarrow>
          ''invalid payload length: got '' @ dec got @ '', expected '' @ dec want
      | InvalidDescriptorSet message \<Rightarrow> ''invalid descriptor set: '' @ message
      | InvalidControlTransfer message \<Rightarrow> ''invalid control transfer: '' @ message
      | InvalidBulkPayload message \<Rightarrow> ''invalid bulk payload: '' @ message
      | InvalidUsbIpPacket message \<Rightarrow> ''invalid USB/IP packet: '' @ message
      | InvalidHidReport message \<Rightarrow> ''invalid HID report: '' @ message)"

definition mapped_ring_error_display :: "mapped_ring_error \<Rightarrow> string" where
  "mapped_ring_error_display e =
     (case e of
        NullBase \<Rightarrow> ''ring base pointer is null''
      | MisalignedBase \<Rightarrow> ''ring base pointer is not 8-byte aligned''
      | InvalidSize got want \<Rightarrow>
          ''invalid ring size '' @ dec got @ '', expected at least '' @ dec want
      | Full requested available \<Rightarrow>
          ''ring is full: requested '' @ dec requested @ '' bytes, available '' @ dec available
      | FrameTooLarge got hi \<Rightarrow> ''frame too large: '' @ dec got @ '' bytes, max '' @ dec hi)"

text \<open>The text of an \<open>io::Error\<close> comes from the operating system.\<close>

definition driver_error_display :: "(u32 \<Rightarrow> string) \<Rightarrow> driver_error \<Rightarrow> string" where
  "driver_error_display os_message e =
     (case e of
        InitFailed status \<Rightarrow> ''driver initialization failed: '' @ show_int (sint status)
      | RxRingFull len \<Rightarrow> ''RX ring is full; dropped '' @ dec len @ '' byte frame''
      | MalformedTxFrame err \<Rightarrow> ''malformed TX frame from driver: '' @ protocol_error_display err
      | MappedRing message \<Rightarrow> ''mapped ring error: '' @ message
      | UnsupportedBackend message \<Rightarrow> ''unsupported driver backend: '' @ message
      | WindowsIo operation source \<Rightarrow>
          ''Windows I/O failed during '' @ operation @ '': '' @ os_message source
      | Abi message \<Rightarrow> ''driver ABI error: '' @ message)"

end
