(* ===== verification/Client_Vhci.thy ===== *)
theory Client_Vhci imports Text_Format begin

text \<open>
  The client's virtual host controller, \<open>client/src/vhci.rs\<close>: probing the kernel module
  through sysfs, reading its status table, choosing a port and writing the attach line, and
  the adapter the session injects transfers into. The file system is a parameter: which
  paths exist and what their files hold.
\<close>

section \<open>Data\<close>

record vhci_fs =
  fs_exists :: "string \<Rightarrow> bool"
  fs_read_to_string :: "string \<Rightarrow> string option"

datatype vhci_backend_kind = MockBackend | LinuxBackend

datatype linux_usb_speed = LowSpeed | FullSpeed | HighSpeed | WirelessSpeed | SuperSpeed | SuperPlusSpeed

definition linux_usb_speed_code :: "linux_usb_speed \<Rightarrow> u32" where
  "linux_usb_speed_code s =
     (case s of LowSpeed \<Rightarrow> 1 | FullSpeed \<Rightarrow> 2 | HighSpeed \<Rightarrow> 3 | WirelessSpeed \<Rightarrow> 4 | SuperSpeed \<Rightarrow> 5
      | SuperPlusSpeed \<Rightarrow> 6)"

record linux_vhci_port =
  vp_hub :: string
  vp_port :: u16
  vp_status :: string
  vp_speed :: u32
  vp_device_id :: u32
  vp_socket_fd :: int
  vp_local_busid :: string

record linux_vhci_status =
  vs_module_loaded :: bool
  vs_status_path :: "string option"
  vs_attach_path :: "string option"
  vs_ports :: "linux_vhci_port list"

record linux_vhci_attach_request =
  va_port :: u16
  va_socket_fd :: i32
  va_device_id :: u32
  va_speed :: linux_usb_speed

datatype vhci_backend = VhciMock | VhciLinux linux_vhci_status

section \<open>Ports\<close>

definition port_is_free :: "linux_vhci_port \<Rightarrow> bool" where
  "port_is_free p \<longleftrightarrow> vp_device_id p = 0 \<and> vp_socket_fd p = 0 \<and> vp_local_busid p = ''0-0''"

definition default_attach_speed :: "linux_vhci_port \<Rightarrow> linux_usb_speed" where
  "default_attach_speed p = (if vp_hub p = ''ss'' then SuperSpeed else HighSpeed)"

definition is_ready :: "linux_vhci_status \<Rightarrow> bool" where
  "is_ready s \<longleftrightarrow> vs_module_loaded s \<and> vs_status_path s \<noteq> None \<and> vs_attach_path s \<noteq> None"

definition free_ports :: "linux_vhci_status \<Rightarrow> linux_vhci_port list" where
  "free_ports s = filter port_is_free (vs_ports s)"

definition first_free_port :: "linux_vhci_status \<Rightarrow> linux_vhci_port option" where
  "first_free_port s = find port_is_free (vs_ports s)"

definition to_sysfs_line :: "linux_vhci_attach_request \<Rightarrow> string" where
  "to_sysfs_line r =
     dec (unat (va_port r)) @ '' '' @ show_int (sint (va_socket_fd r)) @ '' '' @
     dec (unat (va_device_id r)) @ '' '' @ dec (unat (linux_usb_speed_code (va_speed r)))"

section \<open>The status table\<close>

definition parse_vhci_status_decimal :: "string \<Rightarrow> u32 option" where
  "parse_vhci_status_decimal s =
     (case parse_unsigned 10 4294967295 s of Inr n \<Rightarrow> Some (of_nat n) | Inl _ \<Rightarrow> None)"

definition parse_vhci_status_hex :: "string \<Rightarrow> u32 option" where
  "parse_vhci_status_hex s =
     (case parse_unsigned 16 4294967295 s of Inr n \<Rightarrow> Some (of_nat n) | Inl _ \<Rightarrow> None)"

definition parse_vhci_status_i64 :: "string \<Rightarrow> int option" where
  "parse_vhci_status_i64 s =
     (case parse_signed 10 9223372036854775808 9223372036854775807 s of
        Inr i \<Rightarrow> Some i
      | Inl _ \<Rightarrow>
          (case parse_signed 16 9223372036854775808 9223372036854775807 s of
             Inr i \<Rightarrow> Some i | Inl _ \<Rightarrow> None))"

fun next_part :: "string list \<Rightarrow> (string \<times> string list) option" where
  "next_part [] = None"
| "next_part (w # ws) = Some (w, ws)"

definition parse_vhci_status_line :: "string \<Rightarrow> linux_vhci_port option" where
  "parse_vhci_status_line line =
     (let trimmed = trim line
      in if trimmed = [] \<or> strip_prefix ''hub '' trimmed \<noteq> None then None
         else Option.bind (next_part (split_whitespace trimmed)) (\<lambda>(hub, parts).
              Option.bind (next_part parts) (\<lambda>(port, parts).
              Option.bind (parse_vhci_status_decimal port) (\<lambda>port.
              Option.bind (next_part parts) (\<lambda>(status, parts).
              Option.bind (next_part parts) (\<lambda>(speed, parts).
              Option.bind (parse_vhci_status_decimal speed) (\<lambda>speed.
              Option.bind (next_part parts) (\<lambda>(device_id, parts).
              Option.bind (parse_vhci_status_hex device_id) (\<lambda>device_id.
              Option.bind (next_part parts) (\<lambda>(socket_fd, parts).
              Option.bind (parse_vhci_status_i64 socket_fd) (\<lambda>socket_fd.
                Some \<lparr>vp_hub = hub, vp_port = ucast port, vp_status = status, vp_speed = speed,
                      vp_device_id = device_id, vp_socket_fd = socket_fd,
                      vp_local_busid = (case parts of w # _ \<Rightarrow> w | [] \<Rightarrow> [])\<rparr>)))))))))))"

definition parse_vhci_status :: "string \<Rightarrow> linux_vhci_port list" where
  "parse_vhci_status status = List.map_filter parse_vhci_status_line (lines_of status)"

section \<open>Probing\<close>

text \<open>\<open>Path::parent\<close>, on paths without doubled or trailing separators.\<close>

definition path_parent :: "string \<Rightarrow> string option" where
  "path_parent p =
     (if p = [] \<or> p = ''/'' then None
      else Some (case dropWhile (\<lambda>c. c \<noteq> CHR ''/'') (rev p) of
                   [] \<Rightarrow> [] | _ # r \<Rightarrow> if r = [] then ''/'' else rev r))"

definition path_join :: "string \<Rightarrow> string \<Rightarrow> string" where
  "path_join p q = (if p = [] \<or> last p = CHR ''/'' then p @ q else p @ ''/'' @ q)"

definition probe_paths :: "vhci_fs \<Rightarrow> string \<Rightarrow> string list \<Rightarrow> linux_vhci_status" where
  "probe_paths fs module_path status_paths =
     (let status_path = find (fs_exists fs) status_paths;
          attach_path = (case Option.bind status_path path_parent of
                           None \<Rightarrow> None
                         | Some parent \<Rightarrow>
                             let p = path_join parent ''attach'' in if fs_exists fs p then Some p else None);
          ports = (case Option.bind status_path (fs_read_to_string fs) of
                     None \<Rightarrow> [] | Some status \<Rightarrow> parse_vhci_status status)
      in \<lparr>vs_module_loaded = fs_exists fs module_path, vs_status_path = status_path,
          vs_attach_path = attach_path, vs_ports = ports\<rparr>)"

definition probe_default :: "vhci_fs \<Rightarrow> linux_vhci_status" where
  "probe_default fs =
     probe_paths fs ''/sys/module/vhci_hcd''
       [''/sys/devices/platform/vhci_hcd/status'', ''/sys/devices/platform/vhci_hcd.0/status'']"

definition linux_vhci_not_ready_message :: "linux_vhci_status \<Rightarrow> string" where
  "linux_vhci_not_ready_message s =
     ''Linux vhci-hcd backend is not ready: '' @
     (if vs_module_loaded s then ''vhci_hcd module loaded'' else ''vhci_hcd module not loaded'') @ '', '' @
     (if vs_status_path s \<noteq> None then ''found vhci status path''
      else ''missing /sys/devices/platform/vhci_hcd*/status'') @ '', '' @
     (if vs_attach_path s \<noteq> None then ''found vhci attach path''
      else ''missing /sys/devices/platform/vhci_hcd*/attach'') @
     ''. Try `sudo modprobe vhci_hcd`, then rerun with WHY_USB_VHCI_BACKEND=linux.''"

section \<open>The adapter\<close>

definition vhci_adapter_new :: "vhci_fs \<Rightarrow> vhci_backend_kind \<Rightarrow> string + vhci_backend" where
  "vhci_adapter_new fs kind =
     (case kind of
        MockBackend \<Rightarrow> Inr VhciMock
      | LinuxBackend \<Rightarrow>
          let status = probe_default fs
          in if \<not> is_ready status then Inl (linux_vhci_not_ready_message status)
             else Inr (VhciLinux status))"

text \<open>
  \<open>inject_urb\<close> sends to a channel of 100 messages and waits while it is full. The one
  receiver is polled by the task that waits, so a full channel is never emptied: \<open>None\<close>.
\<close>

definition VHCI_CHANNEL_CAPACITY :: nat where "VHCI_CHANNEL_CAPACITY = 100"

definition inject_urb :: "vhci_backend \<Rightarrow> bytes \<Rightarrow> bytes list \<Rightarrow> ((string + unit) \<times> bytes list) option" where
  "inject_urb backend data channel =
     (case backend of
        VhciMock \<Rightarrow>
          if length channel < VHCI_CHANNEL_CAPACITY then Some (Inr (), channel @ [data]) else None
      | VhciLinux status \<Rightarrow>
          Some (Inl ''Linux vhci-hcd URB injection is not wired yet; usbip/vhci attach plumbing is the next implementation step'',
                channel))"

definition prepare_linux_attach_dry_run ::
  "vhci_backend \<Rightarrow> i32 \<Rightarrow> u32 \<Rightarrow> linux_vhci_attach_request option" where
  "prepare_linux_attach_dry_run backend socket_fd device_id =
     (case backend of
        VhciMock \<Rightarrow> None
      | VhciLinux status \<Rightarrow>
          (case first_free_port status of
             None \<Rightarrow> None
           | Some port \<Rightarrow>
               Some \<lparr>va_port = vp_port port, va_socket_fd = socket_fd, va_device_id = device_id,
                     va_speed = default_attach_speed port\<rparr>))"

section \<open>The table as the kernel prints it\<close>

text \<open>
  The kernel's format of a line of the table, \<open>%s %04u %03u %03u %08x %06u %s\<close> (with the
  status column kept as text), and of the table, with its heading.
\<close>

definition vhci_status_line :: "linux_vhci_port \<Rightarrow> string" where
  "vhci_status_line p =
     vp_hub p @ CHR '' '' # pad_zero 4 (dec (unat (vp_port p))) @ CHR '' '' # vp_status p @ CHR '' '' #
     pad_zero 3 (dec (unat (vp_speed p))) @ CHR '' '' #
     pad_zero 8 (show_radix 16 (unat (vp_device_id p))) @ CHR '' '' #
     pad_zero 6 (dec (nat (vp_socket_fd p))) @ CHR '' '' # vp_local_busid p"

definition vhci_status_table :: "linux_vhci_port list \<Rightarrow> string" where
  "vhci_status_table ports =
     concat (map (\<lambda>l. l @ [CHR 0x0A])
       (''hub port sta spd dev sockfd local_busid'' # map vhci_status_line ports))"

definition wf_vhci_port :: "linux_vhci_port \<Rightarrow> bool" where
  "wf_vhci_port p \<longleftrightarrow> is_word (vp_hub p) \<and> vp_hub p \<noteq> ''hub'' \<and> is_word (vp_status p) \<and>
     is_word (vp_local_busid p) \<and> 0 \<le> vp_socket_fd p \<and> vp_socket_fd p \<le> 9223372036854775807"

lemma word_no_space: "is_word w \<Longrightarrow> CHR '' '' \<notin> set w"
  by (auto simp: is_word_def list_all_iff)

lemma hub_prefix:
  assumes "is_word hub" "hub \<noteq> ''hub''"
  shows "strip_prefix ''hub '' (hub @ CHR '' '' # rest) = None"
proof (rule ccontr)
  assume "strip_prefix ''hub '' (hub @ CHR '' '' # rest) \<noteq> None"
  then obtain r where "hub @ CHR '' '' # rest = ''hub '' @ r"
    by (auto simp: strip_prefix_Some)
  then have "takeWhile (\<lambda>c. c \<noteq> CHR '' '') (hub @ CHR '' '' # rest) = takeWhile (\<lambda>c. c \<noteq> CHR '' '') (''hub '' @ r)"
    by simp
  moreover have "takeWhile (\<lambda>c. c \<noteq> CHR '' '') (hub @ CHR '' '' # rest) = hub"
    using word_no_space [OF assms(1)] by (subst takeWhile_append2) auto
  ultimately show False using assms(2) by simp
qed

lemma parse_decimal_padded: "parse_vhci_status_decimal (pad_zero k (dec (unat (w :: u32)))) = Some w"
  using parse_unsigned_padded [of 10 "unat w" 4294967295 "k - length (dec (unat w))"]
    unat_less_2p32 [of w]
  by (simp add: parse_vhci_status_decimal_def pad_zero_def)

lemma parse_hex_padded: "parse_vhci_status_hex (pad_zero k (show_radix 16 (unat (w :: u32)))) = Some w"
  using parse_unsigned_padded [of 16 "unat w" 4294967295 "k - length (show_radix 16 (unat w))"]
    unat_less_2p32 [of w]
  by (simp add: parse_vhci_status_hex_def pad_zero_def)

lemma port_width: "(ucast (ucast (w :: u16) :: u32) :: u16) = w"
  by (rule bit_word_eqI) (simp add: bit_ucast_iff)

lemma parse_port_padded:
  "parse_vhci_status_decimal (pad_zero k (dec (unat (w :: u16)))) = Some (ucast w)"
  using parse_unsigned_padded [of 10 "unat w" 4294967295 "k - length (dec (unat w))"]
    unat_less_65536 [of w]
  by (simp add: parse_vhci_status_decimal_def pad_zero_def)

lemma parse_i64_padded:
  "0 \<le> i \<Longrightarrow> i \<le> 9223372036854775807 \<Longrightarrow> parse_vhci_status_i64 (pad_zero k (dec (nat i))) = Some i"
  using parse_signed_padded [of 10 "nat i" 9223372036854775807 9223372036854775808
      "k - length (dec (nat i))"]
  by (simp add: parse_vhci_status_i64_def pad_zero_def)

lemma parse_vhci_status_line_print:
  assumes "wf_vhci_port p"
  shows "parse_vhci_status_line (vhci_status_line p) = Some p"
proof -
  have trim: "trim (vhci_status_line p) = vhci_status_line p"
    using assms by (intro trim_words [where u = "vp_hub p" and w = "vp_local_busid p"])
      (simp_all add: wf_vhci_port_def vhci_status_line_def)
  have ne: "vhci_status_line p \<noteq> []" by (simp add: vhci_status_line_def)
  have pre: "strip_prefix ''hub '' (vhci_status_line p) = None"
    unfolding vhci_status_line_def using assms by (intro hub_prefix) (simp_all add: wf_vhci_port_def)
  have split: "split_whitespace (vhci_status_line p) =
      [vp_hub p, pad_zero 4 (dec (unat (vp_port p))), vp_status p, pad_zero 3 (dec (unat (vp_speed p))),
       pad_zero 8 (show_radix 16 (unat (vp_device_id p))), pad_zero 6 (dec (nat (vp_socket_fd p))),
       vp_local_busid p]"
    using assms by (simp add: vhci_status_line_def wf_vhci_port_def split_whitespace_cons
        split_whitespace_word is_word_number)
  show ?thesis
    using assms ne
    by (simp add: parse_vhci_status_line_def trim pre split parse_decimal_padded parse_hex_padded
        parse_port_padded parse_i64_padded wf_vhci_port_def port_width Let_def)
qed

lemma line_no_newline:
  assumes "wf_vhci_port p"
  shows "CHR 0x0A \<notin> set (vhci_status_line p) \<and> last (vhci_status_line p) \<noteq> CHR 0x0D"
proof -
  have w: "is_word w \<Longrightarrow> CHR 0x0A \<notin> set w \<and> CHR 0x0D \<notin> set w" for w
    by (auto simp: is_word_def list_all_iff is_whitespace_def Let_def)
  have words: "is_word (vp_hub p)" "is_word (vp_status p)" "is_word (vp_local_busid p)"
    using assms by (simp_all add: wf_vhci_port_def)
  have "last (vhci_status_line p) = last (vp_local_busid p)"
    using words(3) by (simp add: vhci_status_line_def is_word_def)
  moreover have "last (vp_local_busid p) \<in> set (vp_local_busid p)"
    using words(3) by (simp add: is_word_def)
  moreover have "CHR 0x0A \<notin> set (vhci_status_line p)"
    using w [OF words(1)] w [OF words(2)] w [OF words(3)] w [OF is_word_number]
    by (simp add: vhci_status_line_def)
  ultimately show ?thesis using w [OF words(3)] by metis
qed

lemma parse_vhci_status_table:
  assumes "list_all wf_vhci_port ports"
  shows "parse_vhci_status (vhci_status_table ports) = ports"
proof -
  have head: "parse_vhci_status_line ''hub port sta spd dev sockfd local_busid'' = None"
    by (simp add: parse_vhci_status_line_def trim_def is_whitespace_def Let_def)
  have "lines_of (vhci_status_table ports) =
      ''hub port sta spd dev sockfd local_busid'' # map vhci_status_line ports"
    unfolding vhci_status_table_def
    using assms line_no_newline by (intro lines_of_terminated) (auto simp: list_all_iff)
  moreover have "List.map_filter parse_vhci_status_line (map vhci_status_line ports) = ports"
    using assms by (induction ports) (simp_all add: parse_vhci_status_line_print map_filter_simps)
  ultimately show ?thesis
    by (simp add: parse_vhci_status_def head map_filter_simps)
qed



end
