(* ===== verification/Client_Session.thy ===== *)
theory Client_Session imports Client_Vhci Daemon_Session begin

text \<open>
  The client's session, \<open>client/src/session.rs\<close>: the attach handshake and the enumeration of
  the mock device over an abstract connection, the task that makes the mock transfers, the
  treatment of one network frame, and the loop that selects among the connection, the task
  and the host controller. \<open>None\<close> is a panic or a wait that never ends.
\<close>

section \<open>The connection\<close>

text \<open>
  The length-delimited stream is library code over a socket, so it is a parameter: what
  \<open>send\<close> and \<open>next\<close> do to a state of the peer \<open>'p\<close>. \<open>send\<close> tells whether the message was
  written.
\<close>

datatype net_read = NetReceived bytes | NetFailed | NetClosed

record 'p net_ops =
  net_send :: "bytes \<Rightarrow> 'p \<Rightarrow> bool \<times> 'p"
  net_next :: "'p \<Rightarrow> net_read \<times> 'p"

datatype client_error =
    ServerDisconnected string | SendFailed | ReadFailed | ProtocolFailed protocol_error
  | LifecycleStatus i32 | ControlStatus usb_standard_request i32 | ReportMismatch

datatype client_session_state = ClientConnecting | ClientConnected | ClientAttached |
  ClientDetaching | ClientClosed

section \<open>The handshake\<close>

partial_function (option) wait_for_lifecycle_response ::
  "'p net_ops \<Rightarrow> frame_type \<Rightarrow> 'p \<Rightarrow> ((client_error + usb_descriptor_set option) \<times> 'p) option"
  where [code]:
  "wait_for_lifecycle_response net expected_frame_type p =
     (case net_next net p of
        (NetClosed, p') \<Rightarrow>
          Some (Inl (ServerDisconnected ''server disconnected during lifecycle handshake''), p')
      | (NetFailed, p') \<Rightarrow> Some (Inl ReadFailed, p')
      | (NetReceived bs, p') \<Rightarrow>
          (case frame_decode bs of
             Inl e \<Rightarrow> Some (Inl (ProtocolFailed e), p')
           | Inr f \<Rightarrow>
               if fr_frame_type f \<noteq> expected_frame_type
               then wait_for_lifecycle_response net expected_frame_type p'
               else if fr_status f \<noteq> 0 then Some (Inl (LifecycleStatus (fr_status f)), p')
               else if fr_frame_type f = AttachResponse \<and> fr_payload f \<noteq> []
               then (case descriptor_set_decode (fr_payload f) of
                       Inl e \<Rightarrow> Some (Inl (ProtocolFailed e), p')
                     | Inr ds \<Rightarrow> Some (Inr (Some ds), p'))
               else Some (Inr None, p')))"

text \<open>The loop of \<open>send_control_request\<close>.\<close>

partial_function (option) wait_for_control_response ::
  "'p net_ops \<Rightarrow> u64 \<Rightarrow> usb_standard_request \<Rightarrow> 'p \<Rightarrow>
   ((client_error + usb_control_transfer) \<times> 'p) option"
  where [code]:
  "wait_for_control_response net request_id standard_request p =
     (case net_next net p of
        (NetClosed, p') \<Rightarrow>
          Some (Inl (ServerDisconnected ''server disconnected during control transfer''), p')
      | (NetFailed, p') \<Rightarrow> Some (Inl ReadFailed, p')
      | (NetReceived bs, p') \<Rightarrow>
          (case frame_decode bs of
             Inl e \<Rightarrow> Some (Inl (ProtocolFailed e), p')
           | Inr response \<Rightarrow>
               if fr_request_id response \<noteq> request_id \<or> fr_frame_type response \<noteq> Response
               then wait_for_control_response net request_id standard_request p'
               else if fr_status response \<noteq> 0
               then Some (Inl (ControlStatus standard_request (fr_status response)), p')
               else (case control_transfer_decode (fr_payload response) of
                       Inl e \<Rightarrow> Some (Inl (ProtocolFailed e), p')
                     | Inr control \<Rightarrow> Some (Inr control, p'))))"

text \<open>
  \<open>*next_request_id += 1\<close>, which panics at the end of the 64 bits: \<open>None\<close>.
\<close>

definition next_id :: "u64 \<Rightarrow> u64 option" where
  "next_id n = (if n = - 1 then None else Some (n + 1))"

definition send_control_request ::
  "'p net_ops \<Rightarrow> u64 \<Rightarrow> usb_control_setup \<Rightarrow> 'p \<Rightarrow>
   ((client_error + usb_control_transfer) \<times> u64 \<times> 'p) option" where
  "send_control_request net next_request_id su p =
     (let request_id = next_request_id
      in Option.bind (next_id next_request_id) (\<lambda>next_request_id.
         case setup_standard_request su of
           Inl e \<Rightarrow> Some (Inl (ProtocolFailed e), next_request_id, p)
         | Inr standard_request \<Rightarrow>
             (case (if standard_request = GetDescriptor
                    then map_sum id (\<lambda>t. Some t) (setup_descriptor_type su) else Inr None) of
                Inl e \<Rightarrow> Some (Inl (ProtocolFailed e), next_request_id, p)
              | Inr descriptor_type \<Rightarrow>
                  Option.bind (frame_encode (control_request request_id su)) (\<lambda>bs.
                    case net_send net bs p of
                      (False, p') \<Rightarrow> Some (Inl SendFailed, next_request_id, p')
                    | (True, p') \<Rightarrow>
                        map_option (\<lambda>(r, p''). (r, next_request_id, p''))
                          (wait_for_control_response net request_id standard_request p')))))"

text \<open>
  The operator \<open>?\<close> after a control request: an error leaves the enumeration, with the
  connection as it is.
\<close>

definition control_then ::
  "((client_error + 'a) \<times> u64 \<times> 'p) option \<Rightarrow>
   ('a \<Rightarrow> u64 \<Rightarrow> 'p \<Rightarrow> ((client_error + 'b) \<times> u64 \<times> 'p) option) \<Rightarrow>
   ((client_error + 'b) \<times> u64 \<times> 'p) option" where
  "control_then r k =
     Option.bind r (\<lambda>(res, next_request_id, p).
       case res of Inl e \<Rightarrow> Some (Inl e, next_request_id, p) | Inr x \<Rightarrow> k x next_request_id p)"

definition expected_report :: "usb_descriptor_set option \<Rightarrow> protocol_error + bytes option" where
  "expected_report descriptors =
     (case descriptors of
        None \<Rightarrow> Inr None
      | Some ds \<Rightarrow> map_sum id (\<lambda>bs. Some bs) (report_descriptor_bytes ds 0 0 0))"

definition run_mock_enumeration ::
  "'p net_ops \<Rightarrow> u64 \<Rightarrow> usb_descriptor_set option \<Rightarrow> 'p \<Rightarrow>
   ((client_error + unit) \<times> u64 \<times> 'p) option" where
  "run_mock_enumeration net next_request_id descriptors p =
     control_then (send_control_request net next_request_id (setup_get_descriptor Device 0 18) p)
       (\<lambda>_ n p.
     control_then (send_control_request net n (setup_get_descriptor Configuration 0 255) p)
       (\<lambda>_ n p.
     case expected_report descriptors of
       Inl e \<Rightarrow> Some (Inl (ProtocolFailed e), n, p)
     | Inr expected_report_descriptor \<Rightarrow>
         let report_descriptor_len =
               (case expected_report_descriptor of Some d \<Rightarrow> of_nat (length d) | None \<Rightarrow> 255)
         in control_then (send_control_request net n
                (setup_get_interface_descriptor Report 0 0 report_descriptor_len) p)
              (\<lambda>report_descriptor n p.
            if (case expected_report_descriptor of
                  Some d \<Rightarrow> ct_data report_descriptor \<noteq> d | None \<Rightarrow> False)
            then Some (Inl ReportMismatch, n, p)
            else
              control_then (send_control_request net n (setup_set_address 1) p) (\<lambda>_ n p.
              control_then (send_control_request net n (setup_set_configuration 1) p) (\<lambda>_ n p.
                Some (Inr (), n, p))))))"

text \<open>
  The first half of \<open>run_client_session\<close>, from the connected socket to the state \<open>Attached\<close>;
  its result is the first free request identifier. (The planned Linux attach is only logged.)
\<close>

definition client_attach :: "'p net_ops \<Rightarrow> 'p \<Rightarrow> ((client_error + u64) \<times> 'p) option" where
  "client_attach net p =
     Option.bind (frame_encode (attach_request 1)) (\<lambda>bs.
       case net_send net bs p of
         (False, p') \<Rightarrow> Some (Inl SendFailed, p')
       | (True, p') \<Rightarrow>
           Option.bind (wait_for_lifecycle_response net AttachResponse p') (\<lambda>(res, p'').
             case res of
               Inl e \<Rightarrow> Some (Inl e, p'')
             | Inr attach_descriptors \<Rightarrow>
                 Option.bind (run_mock_enumeration net 2 attach_descriptors p'')
                   (\<lambda>(res, next_request_id, p).
                   case res of
                     Inl e \<Rightarrow> Some (Inl e, p)
                   | Inr _ \<Rightarrow> Some (Inr next_request_id, p))))"

section \<open>The mock transfers\<close>

text \<open>
  The task makes a frame per interval and sends it to a channel of 100 frames. It is about
  to make the next frame, waits for room with a frame in hand, or has ended (on the limit
  or by a panic).
\<close>

datatype task_state = TaskReady | TaskSending frame | TaskEnded

record mock_usb_task =
  mt_request_id :: u64
  mt_sent_frames :: u64
  mt_state :: task_state

definition CLIENT_CHANNEL_CAPACITY :: nat where "CLIENT_CHANNEL_CAPACITY = 100"

definition mock_urb_text :: bytes where
  "mock_urb_text = map (of_nat \<circ> of_char) ''Mock URB from Linux Client''"

definition mock_task_frame :: "nat option \<Rightarrow> u64 \<Rightarrow> frame option" where
  "mock_task_frame mock_bulk_payload_len request_id =
     (case mock_bulk_payload_len of
        Some payload_len \<Rightarrow> mock_bulk_request request_id payload_len
      | None \<Rightarrow> Some (mock_request request_id mock_urb_text))"

definition mock_task_turn ::
  "u64 option \<Rightarrow> nat option \<Rightarrow> mock_usb_task \<Rightarrow> frame list \<Rightarrow> mock_usb_task \<times> frame list" where
  "mock_task_turn mock_frame_limit mock_bulk_payload_len t channel =
     (case mt_state t of
        TaskEnded \<Rightarrow> (t, channel)
      | TaskSending f \<Rightarrow>
          if length channel < CLIENT_CHANNEL_CAPACITY
          then (t\<lparr>mt_state := TaskReady\<rparr>, channel @ [f]) else (t, channel)
      | TaskReady \<Rightarrow>
          if (case mock_frame_limit of Some limit \<Rightarrow> mt_sent_frames t \<ge> limit | None \<Rightarrow> False)
          then (t\<lparr>mt_state := TaskEnded\<rparr>, channel)
          else (case mock_task_frame mock_bulk_payload_len (mt_request_id t) of
                  None \<Rightarrow> (t\<lparr>mt_state := TaskEnded\<rparr>, channel)
                | Some f \<Rightarrow>
                    (case (next_id (mt_request_id t), next_id (mt_sent_frames t)) of
                       (Some request_id, Some sent_frames) \<Rightarrow>
                         (\<lparr>mt_request_id = request_id, mt_sent_frames = sent_frames,
                           mt_state = TaskSending f\<rparr>, channel)
                     | _ \<Rightarrow> (t\<lparr>mt_state := TaskEnded\<rparr>, channel))))"

section \<open>One network frame\<close>

datatype network_frame_action = NoAction | DataResponse | DetachAccepted

type_synonym pending_payloads = "u64 \<rightharpoonup> mock_bulk_payload"

text \<open>
  The pending payloads, and the channel of the host controller that \<open>inject_urb\<close> writes to.
  The comparison with the expected payload is only logged.
\<close>

definition handle_network_frame ::
  "vhci_backend \<Rightarrow> pending_payloads \<Rightarrow> bytes list \<Rightarrow> bytes \<Rightarrow>
   (network_frame_action \<times> pending_payloads \<times> bytes list) option" where
  "handle_network_frame vhci_adapter pending_bulk_payloads vhci bs =
     (case frame_decode bs of
        Inl _ \<Rightarrow> Some (NoAction, pending_bulk_payloads, vhci)
      | Inr f \<Rightarrow>
          (case fr_frame_type f of
             Response \<Rightarrow>
               (let pending' = pending_bulk_payloads(fr_request_id f := None)
                in if fr_status f \<noteq> 0 then Some (DataResponse, pending', vhci)
                   else Option.bind (inject_urb vhci_adapter (fr_payload f) vhci) (\<lambda>(r, vhci').
                     case r of
                       Inl _ \<Rightarrow> Some (NoAction, pending', vhci')
                     | Inr _ \<Rightarrow> Some (DataResponse, pending', vhci')))
           | DetachResponse \<Rightarrow>
               Some (if fr_status f \<noteq> 0 then NoAction else DetachAccepted,
                     pending_bulk_payloads, vhci)
           | CancelResponse \<Rightarrow> Some (DataResponse, pending_bulk_payloads, vhci)
           | _ \<Rightarrow> Some (NoAction, pending_bulk_payloads, vhci)))"

section \<open>The loop\<close>

record client_config =
  cc_vhci_adapter :: vhci_backend
  cc_mock_frame_limit :: "u64 option"
  cc_mock_bulk_payload_len :: "nat option"

record client =
  cl_task :: mock_usb_task
  cl_channel :: "frame list"
  cl_vhci :: "bytes list"
  cl_data_responses :: u64
  cl_detach_sent :: bool
  cl_pending :: pending_payloads
  cl_state :: client_session_state

text \<open>
  \<open>detach_request_id\<close>, computed before the loop: the sum panics when it does not fit 64 bits.
\<close>

definition client_detach_id :: "client_config \<Rightarrow> u64 \<Rightarrow> u64 option" where
  "client_detach_id cfg next_request_id =
     (case cc_mock_frame_limit cfg of
        Some limit \<Rightarrow>
          if unat next_request_id + unat limit < 2 ^ 64 then Some (next_request_id + limit) else None
      | None \<Rightarrow> Some (- 1))"

definition client_start :: "u64 \<Rightarrow> client" where
  "client_start next_request_id =
     \<lparr>cl_task = \<lparr>mt_request_id = next_request_id, mt_sent_frames = 0, mt_state = TaskReady\<rparr>,
      cl_channel = [], cl_vhci = [], cl_data_responses = 0, cl_detach_sent = False,
      cl_pending = Map.empty, cl_state = ClientAttached\<rparr>"

datatype client_event = NetRead net_read | TaskFrame | VhciUrb | TaskTurn

definition on_data_response ::
  "client_config \<Rightarrow> u64 \<Rightarrow> bool \<Rightarrow> client \<Rightarrow> (bytes list \<times> loop_flow \<times> client) option" where
  "on_data_response cfg detach_request_id ok c =
     Option.bind (next_id (cl_data_responses c)) (\<lambda>data_responses.
       let c1 = c\<lparr>cl_data_responses := data_responses\<rparr>
       in if \<not> cl_detach_sent c1 \<and> cc_mock_frame_limit cfg = Some data_responses
          then Option.bind (frame_encode (detach_request detach_request_id)) (\<lambda>bs.
                 Some (if ok then ([bs], Continue, c1\<lparr>cl_detach_sent := True\<rparr>)
                       else ([], Break, c1)))
          else Some ([], Continue, c1))"

definition on_task_frame ::
  "bool \<Rightarrow> client \<Rightarrow> (bytes list \<times> loop_flow \<times> client) option" where
  "on_task_frame ok c =
     (case cl_channel c of
        [] \<Rightarrow> Some ([], Continue, c)
      | f # channel \<Rightarrow>
          let c1 = c\<lparr>cl_channel := channel\<rparr>;
              c2 = (case mock_bulk_decode (fr_payload f) of
                      Inr payload \<Rightarrow> c1\<lparr>cl_pending := (cl_pending c1)(fr_request_id f \<mapsto> payload)\<rparr>
                    | Inl _ \<Rightarrow> c1)
          in Option.bind (frame_encode f) (\<lambda>bs.
               Some (if ok then ([bs], Continue, c2) else ([], Break, c2))))"

text \<open>
  One event of \<open>select!\<close>, or a turn of the task; \<open>ok\<close> is the outcome of the write, if it
  writes. It gives the messages written, whether the loop goes on, and the new state.
\<close>

definition client_step ::
  "client_config \<Rightarrow> u64 \<Rightarrow> client_event \<Rightarrow> bool \<Rightarrow> client \<Rightarrow>
   (bytes list \<times> loop_flow \<times> client) option" where
  "client_step cfg detach_request_id event ok c =
     (case event of
        NetRead (NetReceived bs) \<Rightarrow>
          Option.bind (handle_network_frame (cc_vhci_adapter cfg) (cl_pending c) (cl_vhci c) bs)
            (\<lambda>(action, pending, vhci).
               let c1 = c\<lparr>cl_pending := pending, cl_vhci := vhci\<rparr>
               in case action of
                    DataResponse \<Rightarrow> on_data_response cfg detach_request_id ok c1
                  | DetachAccepted \<Rightarrow> Some ([], Break, c1)
                  | NoAction \<Rightarrow> Some ([], Continue, c1))
      | NetRead NetFailed \<Rightarrow> Some ([], Break, c)
      | NetRead NetClosed \<Rightarrow> Some ([], Break, c)
      | TaskFrame \<Rightarrow> on_task_frame ok c
      | VhciUrb \<Rightarrow> Some ([], Continue, c\<lparr>cl_vhci := tl (cl_vhci c)\<rparr>)
      | TaskTurn \<Rightarrow>
          (let (task, channel) = mock_task_turn (cc_mock_frame_limit cfg)
                 (cc_mock_bulk_payload_len cfg) (cl_task c) (cl_channel c)
           in Some ([], Continue, c\<lparr>cl_task := task, cl_channel := channel\<rparr>)))"

text \<open>The loop, and what follows it: the task is aborted and the session closed.\<close>

definition client_close :: "client \<Rightarrow> client" where
  "client_close c =
     c\<lparr>cl_task := (cl_task c)\<lparr>mt_state := TaskEnded\<rparr>, cl_state := ClientClosed\<rparr>"

fun client_run ::
  "client_config \<Rightarrow> u64 \<Rightarrow> (client_event \<times> bool) list \<Rightarrow> client \<Rightarrow>
   (bytes list \<times> loop_flow \<times> client) option" where
  "client_run cfg detach_request_id [] c = Some ([], Continue, c)"
| "client_run cfg detach_request_id ((event, ok) # events) c =
     Option.bind (client_step cfg detach_request_id event ok c) (\<lambda>(sent, fl, c').
       case fl of
         Break \<Rightarrow> Some (sent, Break, client_close c')
       | Continue \<Rightarrow>
           Option.bind (client_run cfg detach_request_id events c') (\<lambda>(sent', fl', c'').
             Some (sent @ sent', fl', c'')))"

end
