(* ===== verification/Client_Run.thy ===== *)
theory Client_Run imports Client_Session begin

text \<open>
  What holds of every run of the client's loop, whatever the network delivers and in which
  order the events come: which messages are sent, in which order and under which
  identifiers, when the detach is asked for, and the one state in which the loop blocks.
\<close>

section \<open>The requests the task makes\<close>

abbreviation wire_bytes :: "frame \<Rightarrow> bytes" where
  "wire_bytes f \<equiv> frame_layout f [0, 0, 0]"

lemma frame_encode_wire: "frame_encode f = Some b \<longleftrightarrow> wf_frame f \<and> b = wire_bytes f"
  by (auto simp: frame_encode_layout)

text \<open>The request number \<open>i\<close> of a session whose first free identifier is \<open>n\<close>.\<close>

definition task_request :: "nat option \<Rightarrow> u64 \<Rightarrow> nat \<Rightarrow> frame" where
  "task_request len n i =
     mock_request (n + of_nat i)
       (case len of None \<Rightarrow> mock_urb_text
        | Some l \<Rightarrow> the (mock_bulk_encode (mock_bulk_synthetic (n + of_nat i) l)))"

definition task_requests :: "nat option \<Rightarrow> u64 \<Rightarrow> nat \<Rightarrow> frame list" where
  "task_requests len n k = map (task_request len n) [0..<k]"

lemma task_requests_Suc: "task_requests len n (Suc k) = task_requests len n k @ [task_request len n k]"
  by (simp add: task_requests_def)

lemma mock_task_frame_Some:
  "mock_task_frame len (n + of_nat i) = Some f \<Longrightarrow> f = task_request len n i"
  by (auto simp: mock_task_frame_def task_request_def mock_bulk_request_def split: option.splits)

lemma fr_request_id_task_request [simp]: "fr_request_id (task_request len n i) = n + of_nat i"
  by (simp add: task_request_def mock_request_def frame_new_def)

lemma next_id_Some [simp]: "next_id n = Some m \<longleftrightarrow> n \<noteq> - 1 \<and> m = n + 1"
  by (auto simp: next_id_def)

lemma unat_next: "(n :: u64) \<noteq> - 1 \<Longrightarrow> unat (n + 1) = Suc (unat n)"
  using unatSuc [of n] by (simp add: add.commute eq_neg_iff_add_eq_0)

section \<open>The frames on their way\<close>

definition in_hand_of :: "mock_usb_task \<Rightarrow> frame list" where
  "in_hand_of t = (case mt_state t of TaskSending f \<Rightarrow> [f] | _ \<Rightarrow> [])"

definition task_ok :: "client_config \<Rightarrow> u64 \<Rightarrow> mock_usb_task \<Rightarrow> bool" where
  "task_ok cfg n t \<longleftrightarrow>
     mt_request_id t = n + mt_sent_frames t \<and> unat n + unat (mt_sent_frames t) < 2 ^ 64 \<and>
     (\<forall>limit. cc_mock_frame_limit cfg = Some limit \<longrightarrow> mt_sent_frames t \<le> limit)"

lemma mock_task_turn_ok:
  assumes ok: "task_ok cfg n t"
    and flow: "reqs @ channel @ in_hand_of t =
      task_requests (cc_mock_bulk_payload_len cfg) n (unat (mt_sent_frames t))"
    and turn: "mock_task_turn (cc_mock_frame_limit cfg) (cc_mock_bulk_payload_len cfg) t channel = (t', channel')"
  shows "task_ok cfg n t' \<and> reqs @ channel' @ in_hand_of t' =
      task_requests (cc_mock_bulk_payload_len cfg) n (unat (mt_sent_frames t'))"
proof (cases "mt_state t")
  case TaskReady
  show ?thesis
  proof (cases "t' = t\<lparr>mt_state := TaskEnded\<rparr> \<and> channel' = channel")
    case True
    then show ?thesis using ok flow TaskReady by (simp add: task_ok_def in_hand_of_def)
  next
    case False
    let ?n = "mt_sent_frames t"
    obtain f where f: "mock_task_frame (cc_mock_bulk_payload_len cfg) (mt_request_id t) = Some f"
      and under: "\<forall>limit. cc_mock_frame_limit cfg = Some limit \<longrightarrow> ?n < limit"
      and ids: "mt_request_id t \<noteq> - 1" "?n \<noteq> - 1"
      and t': "t' = \<lparr>mt_request_id = mt_request_id t + 1, mt_sent_frames = ?n + 1, mt_state = TaskSending f\<rparr>"
      and channel': "channel' = channel"
      using turn TaskReady False
      by (auto simp: mock_task_turn_def not_le split: if_splits option.splits)
    have req: "mt_request_id t = n + of_nat (unat ?n)" and fits: "unat n + unat ?n < 2 ^ 64"
      using ok by (simp_all add: task_ok_def)
    have suc: "unat (?n + 1) = Suc (unat ?n)" using ids(2) by (rule unat_next)
    have "unat (mt_request_id t) \<noteq> unat (- 1 :: u64)" using ids(1) by (simp flip: word_unat_eq_iff)
    then have "unat n + unat ?n \<noteq> 2 ^ 64 - 1"
      using fits by (simp add: req unat_add_lem [THEN iffD1] unsigned_minus_1_eq_mask mask_eq_exp_minus_1)
    then have "unat n + Suc (unat ?n) < 2 ^ 64" using fits by simp
    moreover have "?n + 1 \<le> limit" if "cc_mock_frame_limit cfg = Some limit" for limit
      using under that by (simp add: inc_le)
    ultimately have "task_ok cfg n t'"
      using req by (simp add: task_ok_def t' suc add.assoc)
    moreover have "f = task_request (cc_mock_bulk_payload_len cfg) n (unat ?n)"
      using f by (intro mock_task_frame_Some) (simp add: req)
    ultimately show ?thesis
      using flow TaskReady
      by (simp add: t' channel' suc task_requests_Suc in_hand_of_def flip: append_assoc)
  qed
next
  case (TaskSending f)
  then show ?thesis
    using ok flow turn by (auto simp: mock_task_turn_def task_ok_def in_hand_of_def split: if_splits)
next
  case TaskEnded
  then show ?thesis using ok flow turn by (simp add: mock_task_turn_def)
qed

section \<open>What has been sent\<close>

text \<open>
  The requests sent, those in the channel and the one in the task's hand are the requests
  made so far; the detach request, if it was sent, stands between two of them.
\<close>

definition limit_reached :: "client_config \<Rightarrow> u64 \<Rightarrow> bool" where
  "limit_reached cfg responses =
     (case cc_mock_frame_limit cfg of
        None \<Rightarrow> False | Some limit \<Rightarrow> 0 < limit \<and> limit \<le> responses)"

definition sent_flow ::
  "client_config \<Rightarrow> u64 \<Rightarrow> u64 \<Rightarrow> bytes list \<Rightarrow> client \<Rightarrow> frame list \<Rightarrow> frame list \<Rightarrow> bool" where
  "sent_flow cfg n d sent c reqs reqs' \<longleftrightarrow> task_ok cfg n (cl_task c) \<and>
     reqs @ reqs' @ cl_channel c @ in_hand_of (cl_task c) =
       task_requests (cc_mock_bulk_payload_len cfg) n (unat (mt_sent_frames (cl_task c))) \<and>
     (if cl_detach_sent c
      then sent = map wire_bytes reqs @ wire_bytes (detach_request d) # map wire_bytes reqs' \<and>
        limit_reached cfg (cl_data_responses c)
      else reqs' = [] \<and> sent = map wire_bytes reqs)"

definition sent_ok :: "client_config \<Rightarrow> u64 \<Rightarrow> u64 \<Rightarrow> bytes list \<Rightarrow> client \<Rightarrow> bool" where
  "sent_ok cfg n d sent c \<longleftrightarrow> (\<exists>reqs reqs'. sent_flow cfg n d sent c reqs reqs')"

lemma sent_okI: "sent_flow cfg n d sent c reqs reqs' \<Longrightarrow> sent_ok cfg n d sent c"
  by (auto simp: sent_ok_def)

lemma sent_ok_start: "sent_ok cfg n d [] (client_start n)"
  by (rule sent_okI [of _ _ _ _ _ "[]" "[]"])
    (simp add: sent_flow_def task_ok_def client_start_def task_requests_def in_hand_of_def)

lemma sent_flow_update [simp]:
  "sent_flow cfg n d sent (c\<lparr>cl_vhci := v\<rparr>) reqs reqs' \<longleftrightarrow> sent_flow cfg n d sent c reqs reqs'"
  "sent_flow cfg n d sent (c\<lparr>cl_pending := p\<rparr>) reqs reqs' \<longleftrightarrow> sent_flow cfg n d sent c reqs reqs'"
  "sent_flow cfg n d sent (c\<lparr>cl_vhci := v, cl_pending := p\<rparr>) reqs reqs' \<longleftrightarrow>
     sent_flow cfg n d sent c reqs reqs'"
  by (simp_all add: sent_flow_def)

lemma sent_ok_update [simp]:
  "sent_ok cfg n d sent (c\<lparr>cl_vhci := v\<rparr>) \<longleftrightarrow> sent_ok cfg n d sent c"
  "sent_ok cfg n d sent (c\<lparr>cl_pending := p\<rparr>) \<longleftrightarrow> sent_ok cfg n d sent c"
  "sent_ok cfg n d sent (c\<lparr>cl_vhci := v, cl_pending := p\<rparr>) \<longleftrightarrow> sent_ok cfg n d sent c"
  by (simp_all add: sent_ok_def)

lemma on_data_response_ok:
  assumes ok: "sent_ok cfg n d sent c" and step: "on_data_response cfg d written c = Some (out, fl, c')"
  shows "sent_ok cfg n d (sent @ out) c'"
proof -
  let ?c1 = "c\<lparr>cl_data_responses := cl_data_responses c + 1\<rparr>"
  obtain reqs reqs' where flow: "sent_flow cfg n d sent c reqs reqs'"
    using ok by (auto simp: sent_ok_def)
  have r: "cl_data_responses c \<noteq> - 1"
    using step by (auto simp: on_data_response_def bind_eq_Some_conv)
  have grows: "limit \<le> cl_data_responses c \<Longrightarrow> limit \<le> cl_data_responses c + 1" for limit
    using unat_next [OF r] by (simp add: word_le_nat_alt)
  have pos: "0 < cl_data_responses c + 1"
    using unat_next [OF r] by (simp add: word_less_nat_alt)
  have same: "sent_flow cfg n d sent ?c1 reqs reqs'"
    using flow grows by (auto simp: sent_flow_def limit_reached_def split: option.splits)
  show ?thesis
  proof (cases "\<not> cl_detach_sent c \<and> cc_mock_frame_limit cfg = Some (cl_data_responses c + 1) \<and> written")
    case True
    then have "out = [wire_bytes (detach_request d)]" "c' = ?c1\<lparr>cl_detach_sent := True\<rparr>"
      using step by (auto simp: on_data_response_def frame_encode_wire bind_eq_Some_conv Let_def)
    then have "sent_flow cfg n d (sent @ out) c' reqs []"
      using True pos flow by (auto simp: sent_flow_def limit_reached_def)
    then show ?thesis by (rule sent_okI)
  next
    case False
    then have "out = []" "c' = ?c1"
      using step by (auto simp: on_data_response_def bind_eq_Some_conv Let_def split: if_splits)
    then show ?thesis using sent_okI [OF same] by simp
  qed
qed

lemma on_task_frame_ok:
  assumes ok: "sent_ok cfg n d sent c" and step: "on_task_frame written c = Some (out, fl, c')"
  shows "\<exists>c''. sent_ok cfg n d (sent @ out) c'' \<and> cl_data_responses c'' = cl_data_responses c' \<and>
    (fl = Continue \<longrightarrow> c'' = c')"
proof (cases "cl_channel c")
  case Nil
  then show ?thesis using ok step by (auto simp: on_task_frame_def)
next
  case (Cons f channel)
  obtain p where c': "c' = c\<lparr>cl_channel := channel, cl_pending := p\<rparr>"
    and out: "out = (if written then [wire_bytes f] else [])" "fl = (if written then Continue else Break)"
    using step Cons
    by (cases c; cases "mock_bulk_decode (fr_payload f)"; cases written)
      (auto simp: on_task_frame_def frame_encode_wire bind_eq_Some_conv Let_def)
  show ?thesis
  proof (cases written)
    case False
    then show ?thesis using ok out c' by (intro exI [of _ c]) simp
  next
    case True
    obtain reqs reqs' where flow: "sent_flow cfg n d sent c reqs reqs'"
      using ok by (auto simp: sent_ok_def)
    then have "if cl_detach_sent c then sent_flow cfg n d (sent @ out) c' reqs (reqs' @ [f])
        else sent_flow cfg n d (sent @ out) c' (reqs @ [f]) []"
      using True out c' Cons by (auto simp: sent_flow_def)
    then have "sent_ok cfg n d (sent @ out) c'"
      using sent_okI by (metis (full_types))
    then show ?thesis by blast
  qed
qed

lemma client_step_ok:
  assumes ok: "sent_ok cfg n d sent c" and step: "client_step cfg d event written c = Some (out, fl, c')"
  shows "\<exists>c''. sent_ok cfg n d (sent @ out) c'' \<and> cl_data_responses c'' = cl_data_responses c' \<and>
    (fl = Continue \<longrightarrow> c'' = c')"
proof -
  consider (frame) bs where "event = NetRead (NetReceived bs)"
    | (closed) "event = NetRead NetFailed \<or> event = NetRead NetClosed"
    | (task_frame) "event = TaskFrame" | (urb) "event = VhciUrb" | (turn) "event = TaskTurn"
    by (cases event; cases "case event of NetRead r \<Rightarrow> r | _ \<Rightarrow> NetFailed") auto
  then show ?thesis
  proof cases
    case frame
    then obtain action pending vhci
      where action: "handle_network_frame (cc_vhci_adapter cfg) (cl_pending c) (cl_vhci c) bs =
          Some (action, pending, vhci)"
      using step by (auto simp: client_step_def bind_eq_Some_conv)
    have c1: "sent_ok cfg n d sent (c\<lparr>cl_pending := pending, cl_vhci := vhci\<rparr>)"
      using ok by simp
    show ?thesis
    proof (cases action)
      case DataResponse
      then have "on_data_response cfg d written (c\<lparr>cl_pending := pending, cl_vhci := vhci\<rparr>) =
          Some (out, fl, c')"
        using step frame action by (simp add: client_step_def)
      from on_data_response_ok [OF c1 this] show ?thesis by blast
    qed (use step frame action c1 in \<open>auto simp: client_step_def\<close>)
  next
    case closed
    then show ?thesis using ok step by (auto simp: client_step_def)
  next
    case task_frame
    then show ?thesis using on_task_frame_ok [OF ok] step by (simp add: client_step_def)
  next
    case urb
    then show ?thesis using ok step by (auto simp: client_step_def)
  next
    case turn
    obtain task channel where t: "mock_task_turn (cc_mock_frame_limit cfg)
        (cc_mock_bulk_payload_len cfg) (cl_task c) (cl_channel c) = (task, channel)"
      by fastforce
    obtain reqs reqs' where flow: "sent_flow cfg n d sent c reqs reqs'"
      using ok by (auto simp: sent_ok_def)
    then have "sent_flow cfg n d sent (c\<lparr>cl_task := task, cl_channel := channel\<rparr>) reqs reqs'"
      using mock_task_turn_ok [OF _ _ t, of n "reqs @ reqs'"] by (simp add: sent_flow_def)
    then show ?thesis
      using sent_okI step turn t by (auto simp: client_step_def)
  qed
qed

lemma client_run_ok:
  assumes "sent_ok cfg n d sent c" and "client_run cfg d events c = Some (out, fl, c')"
  shows "\<exists>c''. sent_ok cfg n d (sent @ out) c'' \<and> cl_data_responses c'' = cl_data_responses c'"
  using assms
proof (induction events arbitrary: sent c out)
  case (Cons e events)
  obtain event written where e: "e = (event, written)" by fastforce
  obtain out1 fl1 c1 where step: "client_step cfg d event written c = Some (out1, fl1, c1)"
    using Cons.prems(2) by (auto simp: e bind_eq_Some_conv)
  note ok1 = client_step_ok [OF Cons.prems(1) step]
  show ?case
  proof (cases fl1)
    case Break
    then have "out = out1" "c' = client_close c1"
      using Cons.prems(2) step by (simp_all add: e)
    then show ?thesis using ok1 by (auto simp: client_close_def)
  next
    case Continue
    then obtain out2 where "client_run cfg d events c1 = Some (out2, fl, c')" "out = out1 @ out2"
      using Cons.prems(2) step by (auto simp: e bind_eq_Some_conv)
    then show ?thesis using Cons.IH [of "sent @ out1" c1 out2] ok1 Continue by auto
  qed
qed auto

text \<open>The identifiers of the requests differ from each other and from that of the detach request.\<close>

lemma identifiers_distinct:
  assumes d: "client_detach_id cfg n = Some d" and fits: "unat n + m < 2 ^ 64" and "k \<le> m"
    and limit: "\<And>limit. cc_mock_frame_limit cfg = Some limit \<Longrightarrow> m \<le> unat limit"
  shows "distinct (d # map (\<lambda>i. n + of_nat i) [0..<k])"
proof -
  have id: "unat (n + of_nat i) = unat n + i" if "i < k" for i
  proof -
    have "unat (of_nat i :: u64) = i" using that \<open>k \<le> m\<close> fits by (simp add: unsigned_of_nat take_bit_nat_eq_self)
    then show ?thesis using that \<open>k \<le> m\<close> fits by (subst unat_add_lem [THEN iffD1]) simp_all
  qed
  have other: "unat d \<noteq> unat n + i" if "i < k" for i
  proof (cases "cc_mock_frame_limit cfg")
    case None
    then have "d = - 1" using d by (simp add: client_detach_id_def)
    then have "unat d = 2 ^ 64 - 1" by (simp add: unsigned_minus_1_eq_mask mask_eq_exp_minus_1)
    then show ?thesis using fits that \<open>k \<le> m\<close> by simp
  next
    case (Some l)
    then have "unat d = unat n + unat l"
      using d by (auto simp: client_detach_id_def unat_add_lem [THEN iffD1] split: if_splits)
    then show ?thesis using that \<open>k \<le> m\<close> limit [OF Some] by simp
  qed
  have "i = j" if "i < k" "j < k" "n + of_nat i = n + of_nat j" for i j
    using trans [OF sym [OF id [OF that(1)]] trans [OF arg_cong [OF that(3), of unat] id [OF that(2)]]]
    by (simp only: add_left_cancel)
  then have "inj_on (\<lambda>i. n + of_nat i) {0..<k}"
    by (intro inj_onI) auto
  moreover have "d \<noteq> n + of_nat i" if "i < k" for i
    using id [OF that] other [OF that] by metis
  ultimately show ?thesis
    by (simp add: distinct_map image_iff)
qed

text \<open>
  C16: The client sends what it should and nothing else. Whatever the network delivers and
  however the events are interleaved, the messages sent in the loop are the task's requests
  in order, each once, under consecutive identifiers from the first free one and at most as
  many as the limit; the detach request is sent at most once, not before the client has
  counted as many data responses as the limit (so never for the limit 0); and no two
  messages carry the same identifier.
\<close>

theorem client_sends_once:
  assumes "client_detach_id cfg n = Some d"
    and "client_run cfg d events (client_start n) = Some (sent, fl, c)"
  shows "\<exists>reqs reqs' k. reqs @ reqs' = task_requests (cc_mock_bulk_payload_len cfg) n k \<and>
    (\<forall>limit. cc_mock_frame_limit cfg = Some limit \<longrightarrow> k \<le> unat limit) \<and>
    distinct (d # map fr_request_id (reqs @ reqs')) \<and>
    (reqs' = [] \<and> sent = map wire_bytes reqs \<or>
     limit_reached cfg (cl_data_responses c) \<and>
     sent = map wire_bytes reqs @ wire_bytes (detach_request d) # map wire_bytes reqs')"
proof -
  obtain c'' reqs reqs' where flow: "sent_flow cfg n d sent c'' reqs reqs'"
    and responses: "cl_data_responses c'' = cl_data_responses c"
    using client_run_ok [OF sent_ok_start assms(2)] by (auto simp: sent_ok_def)
  define m where "m = unat (mt_sent_frames (cl_task c''))"
  define k where "k = length (reqs @ reqs')"
  have made: "(reqs @ reqs') @ cl_channel c'' @ in_hand_of (cl_task c'') =
      task_requests (cc_mock_bulk_payload_len cfg) n m"
    using flow by (simp add: sent_flow_def m_def)
  then have "reqs @ reqs' = take k (task_requests (cc_mock_bulk_payload_len cfg) n m)"
    by (metis append_eq_conv_conj k_def)
  moreover have "k \<le> m"
    using arg_cong [OF made, of length] by (simp add: k_def task_requests_def)
  ultimately have reqs: "reqs @ reqs' = task_requests (cc_mock_bulk_payload_len cfg) n k"
    by (simp add: task_requests_def take_map)
  have limit: "m \<le> unat limit" if "cc_mock_frame_limit cfg = Some limit" for limit
    using flow that by (simp add: sent_flow_def task_ok_def m_def word_le_nat_alt)
  have fits: "unat n + m < 2 ^ 64"
    using flow by (simp add: sent_flow_def task_ok_def m_def)
  have "distinct (d # map (\<lambda>i. n + of_nat i) [0..<k])"
    by (rule identifiers_distinct [OF assms(1) fits \<open>k \<le> m\<close> limit])
  then have "distinct (d # map fr_request_id (reqs @ reqs'))"
    by (simp add: reqs task_requests_def o_def)
  moreover have "\<forall>limit. cc_mock_frame_limit cfg = Some limit \<longrightarrow> k \<le> unat limit"
    using limit \<open>k \<le> m\<close> order_trans by blast
  moreover have "reqs' = [] \<and> sent = map wire_bytes reqs \<or>
     limit_reached cfg (cl_data_responses c) \<and>
     sent = map wire_bytes reqs @ wire_bytes (detach_request d) # map wire_bytes reqs'"
    using flow responses by (auto simp: sent_flow_def split: if_splits)
  ultimately show ?thesis using reqs by blast
qed

text \<open>
  One transfer with a limit of one: the task's turn, its frame in the channel, the frame to
  the network, the response, and the answer to the detach request.
\<close>

definition one_transfer :: "(client_event \<times> bool) list" where
  "one_transfer =
     [(TaskTurn, True), (TaskTurn, True), (TaskFrame, True),
      (NetRead (NetReceived (wire_bytes (mock_response (mock_request 7 mock_urb_text) [1, 2]))), True),
      (VhciUrb, True),
      (NetRead (NetReceived (wire_bytes (detach_response (detach_request 8) 0))), True)]"

lemma handle_network_frame_wire:
  "wf_frame f \<Longrightarrow> handle_network_frame backend pp vhci (wire_bytes f) =
     (case fr_frame_type f of
        Response \<Rightarrow>
          (let pending' = pp(fr_request_id f := None)
           in if fr_status f \<noteq> 0 then Some (DataResponse, pending', vhci)
              else Option.bind (inject_urb backend (fr_payload f) vhci) (\<lambda>(r, vhci').
                case r of
                  Inl _ \<Rightarrow> Some (NoAction, pending', vhci')
                | Inr _ \<Rightarrow> Some (DataResponse, pending', vhci')))
      | DetachResponse \<Rightarrow>
          Some (if fr_status f \<noteq> 0 then NoAction else DetachAccepted, pp, vhci)
      | CancelResponse \<Rightarrow> Some (DataResponse, pp, vhci)
      | _ \<Rightarrow> Some (NoAction, pp, vhci))"
  by (simp add: handle_network_frame_def frame_decode_layout)

lemma one_transfer_run:
  "\<exists>c. client_run \<lparr>cc_vhci_adapter = VhciMock, cc_mock_frame_limit = Some 1, cc_mock_bulk_payload_len = None\<rparr>
      8 one_transfer (client_start 7) =
    Some ([wire_bytes (mock_request 7 mock_urb_text), wire_bytes (detach_request 8)], Break, c) \<and>
    cl_data_responses c = 1"
  by (simp add: one_transfer_def client_step_def client_start_def mock_task_turn_def mock_task_frame_def
      CLIENT_CHANNEL_CAPACITY_def on_task_frame_def on_data_response_def handle_network_frame_wire
      inject_urb_def VHCI_CHANNEL_CAPACITY_def frame_encode_layout wf_frame_def mock_request_def
      mock_response_def detach_request_def detach_response_def frame_new_def mock_urb_text_def
      mock_bulk_decode_def next_id_def client_close_def Let_def)

theorem client_sends_once_witness:
  "\<exists>reqs reqs' k. reqs @ reqs' = task_requests None 7 k \<and> k \<le> 1 \<and>
    distinct (8 # map fr_request_id (reqs @ reqs')) \<and>
    (reqs' = [] \<and> [wire_bytes (mock_request 7 mock_urb_text), wire_bytes (detach_request 8)] =
        map wire_bytes reqs \<or>
     [wire_bytes (mock_request 7 mock_urb_text), wire_bytes (detach_request 8)] =
        map wire_bytes reqs @ wire_bytes (detach_request 8) # map wire_bytes reqs')"
proof -
  let ?cfg = "\<lparr>cc_vhci_adapter = VhciMock, cc_mock_frame_limit = Some 1, cc_mock_bulk_payload_len = None\<rparr>"
  obtain c where run: "client_run ?cfg 8 one_transfer (client_start 7) =
      Some ([wire_bytes (mock_request 7 mock_urb_text), wire_bytes (detach_request 8)], Break, c)"
    and c: "cl_data_responses c = 1"
    using one_transfer_run by blast
  have "client_detach_id ?cfg 7 = Some 8" by (simp add: client_detach_id_def)
  from client_sends_once [OF this run] show ?thesis
    by (simp add: limit_reached_def c)
qed

section \<open>When the loop blocks\<close>

text \<open>
  C28: The loop never panics and never hangs, with one exception that is stated exactly: a
  step does not complete if and only if it handles a successful response while the mock host
  controller's channel holds its 100 messages; then \<open>inject_urb\<close> waits for room that only
  the loop itself could make. (The frames of the channel must fit the wire format and the
  counter of responses must not be at the end of its 64 bits.)
\<close>

theorem client_blocks_iff:
  assumes "cl_data_responses c \<noteq> - 1" and "list_all wf_frame (cl_channel c)"
  shows "client_step cfg d event written c = None \<longleftrightarrow>
    cc_vhci_adapter cfg = VhciMock \<and> length (cl_vhci c) \<ge> 100 \<and>
    (\<exists>bs f. event = NetRead (NetReceived bs) \<and> frame_decode bs = Inr f \<and>
       fr_frame_type f = Response \<and> fr_status f = 0)"
proof -
  have task: "on_task_frame written c \<noteq> None"
    using assms(2)
    by (cases "cl_channel c") (simp_all add: on_task_frame_def frame_encode_layout Let_def)
  have response: "on_data_response cfg d written (c\<lparr>cl_pending := p, cl_vhci := v\<rparr>) \<noteq> None" for p v
    using assms(1)
    by (simp add: on_data_response_def next_id_def frame_encode_layout wf_frame_def detach_request_def
        frame_new_def Let_def)
  have frame: "client_step cfg d (NetRead (NetReceived bs)) written c = None \<longleftrightarrow>
      handle_network_frame (cc_vhci_adapter cfg) (cl_pending c) (cl_vhci c) bs = None" for bs
    using response
    by (cases "handle_network_frame (cc_vhci_adapter cfg) (cl_pending c) (cl_vhci c) bs")
      (auto simp: client_step_def Let_def split: network_frame_action.splits)
  have handle: "handle_network_frame (cc_vhci_adapter cfg) (cl_pending c) (cl_vhci c) bs = None \<longleftrightarrow>
      cc_vhci_adapter cfg = VhciMock \<and> length (cl_vhci c) \<ge> 100 \<and>
      (\<exists>f. frame_decode bs = Inr f \<and> fr_frame_type f = Response \<and> fr_status f = 0)" for bs
    by (cases "frame_decode bs"; cases "cc_vhci_adapter cfg")
      (auto simp: handle_network_frame_def inject_urb_def VHCI_CHANNEL_CAPACITY_def Let_def
        split: frame_type.splits)
  show ?thesis
  proof (cases event)
    case (NetRead r)
    then show ?thesis using frame handle by (cases r) (simp_all add: client_step_def)
  qed (use task in \<open>simp_all add: client_step_def Let_def split_beta\<close>)
qed

lemma client_blocked_run:
  assumes f: "wf_frame f" "fr_frame_type f = Response" "fr_status f = 0"
    and cfg: "cc_vhci_adapter cfg = VhciMock" "cc_mock_frame_limit cfg = None"
    and k: "length (cl_vhci c) + k = 101" "unat (cl_data_responses c) + k = 101"
  shows "client_run cfg d (replicate k (NetRead (NetReceived (wire_bytes f)), True)) c = None \<or>
    length (cl_vhci c) > 100"
  using k
proof (induction k arbitrary: c)
  case (Suc k)
  have r: "cl_data_responses c \<noteq> - 1"
    using Suc.prems(2) by (auto simp: unsigned_minus_1_eq_mask mask_eq_exp_minus_1)
  let ?c = "c\<lparr>cl_pending := (cl_pending c)(fr_request_id f := None),
      cl_vhci := cl_vhci c @ [fr_payload f], cl_data_responses := cl_data_responses c + 1\<rparr>"
  have step: "client_step cfg d (NetRead (NetReceived (wire_bytes f))) True c =
      (if length (cl_vhci c) < 100 then Some ([], Continue, ?c) else None)"
    using f cfg r
    by (simp add: client_step_def handle_network_frame_wire inject_urb_def VHCI_CHANNEL_CAPACITY_def
        on_data_response_def next_id_def Let_def)
  have "client_run cfg d (replicate k (NetRead (NetReceived (wire_bytes f)), True)) ?c = None"
    if "length (cl_vhci c) < 100"
    using Suc.IH [of ?c] Suc.prems that unat_next [OF r] by simp
  then show ?case by (simp add: step)
qed simp

text \<open>A run from the start that blocks: 101 responses before the loop turns to the channel.\<close>

lemma client_can_block:
  "client_run \<lparr>cc_vhci_adapter = VhciMock, cc_mock_frame_limit = None, cc_mock_bulk_payload_len = None\<rparr>
     d (replicate 101 (NetRead (NetReceived (wire_bytes (mock_response f []))), True)) (client_start n) = None"
proof -
  have "wf_frame (mock_response f [])" by (simp add: wf_frame_def mock_response_def frame_new_def)
  then show ?thesis
    using client_blocked_run [of "mock_response f []"
        "\<lparr>cc_vhci_adapter = VhciMock, cc_mock_frame_limit = None, cc_mock_bulk_payload_len = None\<rparr>"
        "client_start n" 101 d]
    by (simp add: mock_response_def frame_new_def client_start_def)
qed

theorem client_blocks_iff_witness:
  "client_step \<lparr>cc_vhci_adapter = VhciMock, cc_mock_frame_limit = None, cc_mock_bulk_payload_len = None\<rparr>
      8 (NetRead (NetReceived (wire_bytes (mock_response (mock_request 7 []) []))) ) True
      ((client_start 7)\<lparr>cl_vhci := replicate 100 []\<rparr>) = None \<and>
   client_step \<lparr>cc_vhci_adapter = VhciMock, cc_mock_frame_limit = None, cc_mock_bulk_payload_len = None\<rparr>
      8 VhciUrb True ((client_start 7)\<lparr>cl_vhci := replicate 100 []\<rparr>) \<noteq> None"
proof -
  let ?c = "(client_start 7)\<lparr>cl_vhci := replicate 100 []\<rparr>"
  have "cl_data_responses ?c \<noteq> - 1" "list_all wf_frame (cl_channel ?c)" "length (cl_vhci ?c) = 100"
    by (simp_all add: client_start_def)
  moreover have "frame_decode (wire_bytes (mock_response (mock_request 7 []) [])) =
      Inr (mock_response (mock_request 7 []) [])"
    by (simp add: frame_decode_layout wf_frame_def mock_response_def frame_new_def)
  ultimately show ?thesis
    using client_blocks_iff [of ?c] by (simp add: mock_response_def frame_new_def)
qed

end
