(* ===== verification/Client_Daemon.thy ===== *)
theory Client_Daemon imports Client_Run Session_Run Usbip_Session begin

text \<open>
  The two programs together: the client's handshake run against the daemon's session over a
  connection that carries messages unchanged and in order.
\<close>

section \<open>The daemon as the peer of a connection\<close>

text \<open>
  A message sent to the daemon is one event of its loop, and what the loop writes is waiting
  to be read. A wait for a message when none is there counts as the end of the stream, so a
  client that succeeds never waits for an answer that does not come.
\<close>

record 'd daemon_peer =
  dp_session :: "'d session"
  dp_inbox :: "bytes list"

definition daemon_net ::
  "('d, 'm) driver_ops_scheme \<Rightarrow> session_config \<Rightarrow> 'd daemon_peer net_ops" where
  "daemon_net ops cfg =
     \<lparr>net_send = (\<lambda>bs p.
        case session_step ops cfg (NetMessage bs) [] (dp_session p) of
          Some (sent, Continue, s) \<Rightarrow> (True, \<lparr>dp_session = s, dp_inbox = dp_inbox p @ sent\<rparr>)
        | _ \<Rightarrow> (False, p)),
      net_next = (\<lambda>p.
        case dp_inbox p of
          [] \<Rightarrow> (NetClosed, p)
        | bs # inbox \<Rightarrow> (NetReceived bs, p\<lparr>dp_inbox := inbox\<rparr>))\<rparr>"

lemma daemon_next [simp]:
  "net_next (daemon_net ops cfg) \<lparr>dp_session = s, dp_inbox = bs # inbox\<rparr> =
     (NetReceived bs, \<lparr>dp_session = s, dp_inbox = inbox\<rparr>)"
  by (simp add: daemon_net_def)

lemma frame_decode_wire [simp]: "wf_frame f \<Longrightarrow> frame_decode (wire_bytes f) = Inr f"
  by (simp add: frame_decode_layout)

lemma wf_requests [simp]: "wf_frame (control_request n su)" "wf_frame (attach_request n)"
  by (simp_all add: wf_frame_def control_request_def attach_request_def frame_new_def
      control_transfer_encode_def control_transfer_setup_only_def control_transfer_new_def)

section \<open>One control request\<close>

lemma control_response_data [simp]:
  "control_transfer_decode (fr_payload (control_response (control_request n su) st data)) =
     Inr \<lparr>ct_setup = su, ct_data = data\<rparr>"
  by (simp add: control_response_def control_request_def frame_new_def control_transfer_setup_only_def
      control_transfer_new_def Let_def)

lemma control_request_fields [simp]:
  "fr_frame_type (control_request n su) = Request" "fr_transfer_type (control_request n su) = Control"
  "fr_endpoint (control_request n su) = 0" "fr_request_id (control_request n su) = n"
  by (simp_all add: control_request_def frame_new_def)

text \<open>
  A request the daemon accepts: the client gets the data, the registers are updated, and the
  events wait behind the answer.
\<close>

lemma control_round:
  assumes attached: "lc_state (ss_lifecycle s) = Attached"
    and handled: "handle_control_request (control_request n su) (ss_descriptors s)
      (sc_mock_hid_keycodes cfg) (ss_registers s) = (reply, regs)"
    and reply: "cr_response reply = control_response (control_request n su) 0 data"
    and fits: "length data \<le> 65535"
    and std: "setup_standard_request su = Inr r" "r = GetDescriptor \<longrightarrow> setup_descriptor_type su = Inr t"
    and n: "n \<noteq> - 1"
  shows "send_control_request (daemon_net ops cfg) n su \<lparr>dp_session = s, dp_inbox = []\<rparr> =
    Some (Inr \<lparr>ct_setup = su, ct_data = data\<rparr>, n + 1,
      \<lparr>dp_session = s\<lparr>ss_registers := regs\<rparr>, dp_inbox = map wire_bytes (cr_events reply)\<rparr>)"
proof -
  have events: "list_all wf_frame (cr_events reply)"
    using wf_control_reply(2) [of "control_request n su" "ss_descriptors s" "sc_mock_hid_keycodes cfg"
        "ss_registers s"] handled by simp
  have step: "session_step ops cfg (NetMessage (wire_bytes (control_request n su))) [] s =
      Some (wire_bytes (control_response (control_request n su) 0 data) # map wire_bytes (cr_events reply),
        Continue, s\<lparr>ss_registers := regs\<rparr>)"
    using handled reply fits events attached
    by (simp add: session_step_def on_network_frame_def on_request_control write_outgoing_def
        encode_all_Some frame_encode_layout Let_def)
  have send: "net_send (daemon_net ops cfg) (wire_bytes (control_request n su)) \<lparr>dp_session = s, dp_inbox = []\<rparr> =
      (True, \<lparr>dp_session = s\<lparr>ss_registers := regs\<rparr>,
        dp_inbox = wire_bytes (control_response (control_request n su) 0 data) #
          map wire_bytes (cr_events reply)\<rparr>)"
    by (simp add: daemon_net_def step)
  show ?thesis
    using std n fits
    by (simp add: send_control_request_def next_id_def frame_encode_layout send
        wait_for_control_response.simps split: if_splits)
qed

section \<open>The device that is enumerated\<close>

lemma keyboard_device_descriptor:
  "\<exists>b. device_descriptor_bytes (mock_hid_keyboard v p) = Inr b"
  by (simp add: device_descriptor_bytes_def mock_hid_keyboard_def)

lemma keyboard_configuration_descriptor:
  "\<exists>b. configuration_descriptor_bytes (mock_hid_keyboard v p) 0 = Inr b"
proof -
  have "wf_configuration mock_hid_configuration"
    using mock_hid_keyboard_wf [of 0 0] by (simp add: wf_descriptor_set_def mock_hid_keyboard_def)
  then show ?thesis
    by (simp add: configuration_descriptor_bytes_def nth_configuration_def mock_hid_keyboard_def
        configuration_to_usb_bytes_wf)
qed

lemma keyboard_report_descriptor [simp]:
  "report_descriptor_bytes (mock_hid_keyboard v p) 0 0 0 = Inr hid_keyboard_report_descriptor"
  by (simp add: report_descriptor_bytes_def nth_configuration_def mock_hid_keyboard_def
      mock_hid_configuration_def mock_hid_interface_def)

lemma length_keyboard_report [simp]: "length hid_keyboard_report_descriptor = 63"
  by (simp add: hid_keyboard_report_descriptor_def)

text \<open>What the daemon answers to the requests of the enumeration.\<close>

lemma handle_control_descriptor:
  assumes "setup_standard_request su = Inr GetDescriptor" "setup_descriptor_type su = Inr t"
    and "requested_descriptor ds su t = Some (Inr bs)"
  shows "handle_control_request (control_request n su) (Some ds) keys regs =
    (status_reply (control_request n su) Ok (take (unat (setup_length su)) bs), regs)"
  using assms
  by (simp add: handle_control_request_def control_request_def frame_new_def handle_get_descriptor_def
      control_transfer_setup_only_def control_transfer_new_def)

lemma handle_control_address:
  "handle_control_request (control_request n (setup_set_address 1)) ds keys regs =
    (status_reply (control_request n (setup_set_address 1)) Ok [], regs\<lparr>reg_address := 1\<rparr>)"
  by (simp add: handle_control_request_def control_request_def frame_new_def handle_set_address_def
      control_transfer_setup_only_def control_transfer_new_def Let_def)

lemma handle_control_configuration:
  "handle_control_request (control_request n (setup_set_configuration 1))
     (Some (mock_hid_keyboard v p)) keys regs =
    (\<lparr>cr_response = control_response (control_request n (setup_set_configuration 1)) 0 [],
      cr_events = mock_hid_keyboard_events keys\<rparr>, regs\<lparr>reg_configuration := 1\<rparr>)"
  by (rule handle_control_set_configuration)
    (simp add: control_request_def frame_new_def control_transfer_setup_only_def)

text \<open>The five requests, with the identifiers 2 to 6.\<close>

lemma enumeration_succeeds:
  assumes attached: "lc_state (ss_lifecycle s) = Attached"
    and ds: "ss_descriptors s = Some (mock_hid_keyboard v p)"
  shows "run_mock_enumeration (daemon_net ops cfg) 2 (Some (mock_hid_keyboard v p))
      \<lparr>dp_session = s, dp_inbox = []\<rparr> =
    Some (Inr (), 7,
      \<lparr>dp_session = s\<lparr>ss_registers := \<lparr>reg_address = 1, reg_configuration = 1\<rparr>\<rparr>,
       dp_inbox = map wire_bytes (mock_hid_keyboard_events (sc_mock_hid_keycodes cfg))\<rparr>)"
proof -
  let ?net = "daemon_net ops cfg"
  let ?ready = "\<lambda>s. lc_state (ss_lifecycle s) = Attached \<and> ss_descriptors s = Some (mock_hid_keyboard v p)"
  obtain dev where dev: "device_descriptor_bytes (mock_hid_keyboard v p) = Inr dev"
    using keyboard_device_descriptor by blast
  obtain conf where conf: "configuration_descriptor_bytes (mock_hid_keyboard v p) 0 = Inr conf"
    using keyboard_configuration_descriptor by blast
  have get: "send_control_request ?net n su \<lparr>dp_session = s, dp_inbox = []\<rparr> =
      Some (Inr \<lparr>ct_setup = su, ct_data = take (unat (setup_length su)) bs\<rparr>, n + 1,
        \<lparr>dp_session = s, dp_inbox = []\<rparr>)"
    if "?ready s" "setup_standard_request su = Inr GetDescriptor" "setup_descriptor_type su = Inr t"
      "requested_descriptor (mock_hid_keyboard v p) su t = Some (Inr bs)" "n \<noteq> - 1" for n su t bs s
    using control_round [where s = s and n = n and su = su and cfg = cfg
        and ops = ops and data = "take (unat (setup_length su)) bs" and r = GetDescriptor and t = t]
      handle_control_descriptor [OF that(2-4)] that
    by (simp del: length_take)
  have addr: "send_control_request ?net n (setup_set_address 1) \<lparr>dp_session = s, dp_inbox = []\<rparr> =
      Some (Inr \<lparr>ct_setup = setup_set_address 1, ct_data = []\<rparr>, n + 1,
        \<lparr>dp_session = s\<lparr>ss_registers := (ss_registers s)\<lparr>reg_address := 1\<rparr>\<rparr>, dp_inbox = []\<rparr>)"
    if "?ready s" "n \<noteq> - 1" for n s
    using control_round [where s = s and n = n and cfg = cfg
        and su = "setup_set_address 1" and ops = ops and data = "[]" and r = SetAddress]
      handle_control_address that
    by simp
  have config: "send_control_request ?net n (setup_set_configuration 1) \<lparr>dp_session = s, dp_inbox = []\<rparr> =
      Some (Inr \<lparr>ct_setup = setup_set_configuration 1, ct_data = []\<rparr>, n + 1,
        \<lparr>dp_session = s\<lparr>ss_registers := (ss_registers s)\<lparr>reg_configuration := 1\<rparr>\<rparr>,
         dp_inbox = map wire_bytes (mock_hid_keyboard_events (sc_mock_hid_keycodes cfg))\<rparr>)"
    if "?ready s" "n \<noteq> - 1" for n s
    using control_round [where s = s and n = n and cfg = cfg
        and su = "setup_set_configuration 1" and ops = ops and data = "[]" and r = SetConfiguration]
      handle_control_configuration that
    by simp
  have device: "send_control_request ?net 2 (setup_get_descriptor Device 0 18) \<lparr>dp_session = s, dp_inbox = []\<rparr> =
      Some (Inr \<lparr>ct_setup = setup_get_descriptor Device 0 18, ct_data = take 18 dev\<rparr>, 3,
        \<lparr>dp_session = s, dp_inbox = []\<rparr>)"
    using get [of s "setup_get_descriptor Device 0 18" Device dev 2] attached ds
    by (simp add: requested_descriptor_def dev)
  have configuration: "send_control_request ?net 3 (setup_get_descriptor Configuration 0 255)
        \<lparr>dp_session = s, dp_inbox = []\<rparr> =
      Some (Inr \<lparr>ct_setup = setup_get_descriptor Configuration 0 255, ct_data = take 255 conf\<rparr>, 4,
        \<lparr>dp_session = s, dp_inbox = []\<rparr>)"
    using get [of s "setup_get_descriptor Configuration 0 255" Configuration conf 3] attached ds
    by (simp add: requested_descriptor_def conf)
  have report: "send_control_request ?net 4 (setup_get_interface_descriptor Report 0 0 63)
        \<lparr>dp_session = s, dp_inbox = []\<rparr> =
      Some (Inr \<lparr>ct_setup = setup_get_interface_descriptor Report 0 0 63,
          ct_data = hid_keyboard_report_descriptor\<rparr>, 5, \<lparr>dp_session = s, dp_inbox = []\<rparr>)"
    using get [of s "setup_get_interface_descriptor Report 0 0 63" Report hid_keyboard_report_descriptor 4]
      attached ds
    by (simp add: requested_descriptor_def)
  show ?thesis
    using attached ds
    by (cases "ss_registers s") (simp add: run_mock_enumeration_def control_then_def device configuration
        report addr config expected_report_def)
qed

section \<open>The handshake\<close>

lemma attach_answer_payload: "fr_payload (attach_answer f dev) \<noteq> []"
proof
  assume "fr_payload (attach_answer f dev) = []"
  then have "descriptor_set_decode [] = Inr (descriptor_set_for_attach dev)"
    using attach_answer_simps(5) [of f dev] by simp
  then show False by (simp add: descriptor_set_decode_def)
qed

lemma attach_send:
  assumes "attach_session ops (sc_attach_device cfg) (ss_lifecycle s) (ss_driver s) = (status, lc, d)"
    and "status = 0 \<or> status = - 1"
  shows "net_send (daemon_net ops cfg) (wire_bytes (attach_request n)) \<lparr>dp_session = s, dp_inbox = []\<rparr> =
    (True,
     if status = 0
     then \<lparr>dp_session = s\<lparr>ss_lifecycle := lc, ss_driver := d,
             ss_descriptors := Some (descriptor_set_for_attach (sc_attach_device cfg))\<rparr>,
           dp_inbox = [wire_bytes (attach_answer (attach_request n) (sc_attach_device cfg))]\<rparr>
     else \<lparr>dp_session = s\<lparr>ss_lifecycle := lc, ss_driver := d\<rparr>,
           dp_inbox = [wire_bytes (attach_response (attach_request n) (- 1))]\<rparr>)"
proof -
  have type: "fr_frame_type (attach_request n) = AttachRequest"
    by (simp add: attach_request_def frame_new_def)
  show ?thesis
    using assms(2)
  proof
    assume "status = 0"
    then show ?thesis
      using on_attach_request_Ok [of ops cfg s lc d "attach_request n"] assms(1) type
      by (simp add: daemon_net_def session_step_def on_network_frame_def write_outgoing_def
          frame_encode_layout)
  next
    assume "status = - 1"
    then show ?thesis
      using on_attach_request_refused [of ops cfg s lc d "attach_request n"] assms(1) type
      by (simp add: daemon_net_def session_step_def on_network_frame_def write_outgoing_def
          frame_encode_layout)
  qed
qed

lemma client_attach_daemon:
  "client_attach (daemon_net ops cfg) \<lparr>dp_session = session_start d, dp_inbox = []\<rparr> =
   Some (case attach_session ops (sc_attach_device cfg)
            \<lparr>lc_attached_by_control_plane = False, lc_state = Connected\<rparr> d of
          (status, lc, d') \<Rightarrow>
            if status = 0
            then (Inr 7, \<lparr>dp_session = (session_start d)\<lparr>ss_lifecycle := lc, ss_driver := d',
                     ss_descriptors := Some (descriptor_set_for_attach (sc_attach_device cfg)),
                     ss_registers := \<lparr>reg_address = 1, reg_configuration = 1\<rparr>\<rparr>,
                   dp_inbox = map wire_bytes (mock_hid_keyboard_events (sc_mock_hid_keycodes cfg))\<rparr>)
            else (Inl (LifecycleStatus status),
                  \<lparr>dp_session = (session_start d)\<lparr>ss_lifecycle := lc, ss_driver := d'\<rparr>,
                   dp_inbox = []\<rparr>))"
proof -
  let ?dev = "sc_attach_device cfg"
  obtain status lc d' where a: "attach_session ops ?dev
      (ss_lifecycle (session_start d)) (ss_driver (session_start d)) = (status, lc, d')"
    by (metis prod_cases3)
  have start: "ss_lifecycle (session_start d) = \<lparr>lc_attached_by_control_plane = False, lc_state = Connected\<rparr>"
    "ss_driver (session_start d) = d"
    by (simp_all add: session_start_def)
  note a' = a [unfolded start]
  have status: "status = 0 \<and> lc_state lc = Attached \<or> status = - 1"
    using a by (cases rule: attach_session_cases) (simp_all add: session_start_def)
  obtain v p where ds: "descriptor_set_for_attach ?dev = mock_hid_keyboard v p"
    by (cases ?dev) (auto simp: descriptor_set_for_attach_def)
  show ?thesis
  proof (cases "status = 0")
    case True
    let ?s = "(session_start d)\<lparr>ss_lifecycle := lc, ss_driver := d', ss_descriptors := Some (mock_hid_keyboard v p)\<rparr>"
    have "lc_state (ss_lifecycle ?s) = Attached" "ss_descriptors ?s = Some (mock_hid_keyboard v p)"
      using status True by simp_all
    from enumeration_succeeds [OF this, of ops cfg] show ?thesis
      by (simp add: client_attach_def frame_encode_layout attach_send [OF a] a' True ds
          wait_for_lifecycle_response.simps attach_answer_payload)
  next
    case False
    then have "status = - 1" using status by blast
    moreover have "fr_frame_type (attach_response f st) = AttachResponse" "fr_status (attach_response f st) = st" for f st
      by (simp_all add: attach_response_def frame_new_def)
    ultimately show ?thesis
      by (simp add: client_attach_def frame_encode_layout attach_send [OF a] a'
          wait_for_lifecycle_response.simps)
  qed
qed

text \<open>
  C27: the two programs agree on the handshake. A client that connects to a daemon with a
  fresh session, over a connection that delivers messages unchanged, attaches exactly when
  the daemon's driver accepts the device: it then reads back the very descriptors the daemon
  announced, enumerates the device without ever waiting for an answer that does not come,
  and reaches the state \<open>Attached\<close> with 7 as its first free identifier, while the daemon's
  device has address 1 and configuration 1 and only the keyboard events are on their way.
  Otherwise the client gives up with the daemon's status.
\<close>

theorem client_attaches_to_daemon:
  "client_attach (daemon_net ops cfg) \<lparr>dp_session = session_start d, dp_inbox = []\<rparr> =
   Some (case attach_session ops (sc_attach_device cfg)
            \<lparr>lc_attached_by_control_plane = False, lc_state = Connected\<rparr> d of
          (status, lc, d') \<Rightarrow>
            if status = 0
            then (Inr 7, \<lparr>dp_session = (session_start d)\<lparr>ss_lifecycle := lc, ss_driver := d',
                     ss_descriptors := Some (descriptor_set_for_attach (sc_attach_device cfg)),
                     ss_registers := \<lparr>reg_address = 1, reg_configuration = 1\<rparr>\<rparr>,
                   dp_inbox = map wire_bytes (mock_hid_keyboard_events (sc_mock_hid_keycodes cfg))\<rparr>)
            else (Inl (LifecycleStatus status),
                  \<lparr>dp_session = (session_start d)\<lparr>ss_lifecycle := lc, ss_driver := d'\<rparr>,
                   dp_inbox = []\<rparr>))"
  by (rule client_attach_daemon)

end
