(* ===== verification/Ioctl_Abi.thy ===== *)
theory Ioctl_Abi imports Mapped_Ring Text_Format begin

unbundle bit_operations_syntax

text \<open>
  The interface between the daemon and the Windows driver, \<open>daemon/src/ioctl.rs\<close>: the control
  codes, the packed structures as the bytes they are in memory (little-endian, without
  padding), and the checks of the two headers. The lemmas say which headers are accepted and
  that a structure is read back as it was written.
\<close>

section \<open>Constants and codes\<close>

definition WHY_USB_ABI_MAGIC :: u32 where "WHY_USB_ABI_MAGIC = 0x31594857"
definition WHY_USB_ABI_VERSION :: u16 where "WHY_USB_ABI_VERSION = 1"
definition RING_ALIGNMENT :: u32 where "RING_ALIGNMENT = 8"
definition SHARED_MEMORY_MAGIC :: u32 where "SHARED_MEMORY_MAGIC = 0x4d535957"
definition SHARED_MEMORY_VERSION :: u16 where "SHARED_MEMORY_VERSION = 1"

definition ctl_code :: "u32 \<Rightarrow> u32 \<Rightarrow> u32 \<Rightarrow> u32 \<Rightarrow> u32" where
  "ctl_code device_type function_code access_method file_access =
     push_bit 16 device_type OR push_bit 14 file_access OR push_bit 2 function_code OR access_method"

definition FILE_DEVICE_UNKNOWN :: u32 where "FILE_DEVICE_UNKNOWN = 0x22"
definition METHOD_BUFFERED :: u32 where "METHOD_BUFFERED = 0"
definition FILE_ANY_ACCESS :: u32 where "FILE_ANY_ACCESS = 0"

definition why_usb_code :: "u32 \<Rightarrow> u32" where
  "why_usb_code n = ctl_code FILE_DEVICE_UNKNOWN n METHOD_BUFFERED FILE_ANY_ACCESS"

definition IOCTL_SESSION_OPEN :: u32 where "IOCTL_SESSION_OPEN = why_usb_code 0x801"
definition IOCTL_SESSION_CLOSE :: u32 where "IOCTL_SESSION_CLOSE = why_usb_code 0x802"
definition IOCTL_GET_SHARED_MEMORY :: u32 where "IOCTL_GET_SHARED_MEMORY = why_usb_code 0x803"
definition IOCTL_ATTACH_DEVICE :: u32 where "IOCTL_ATTACH_DEVICE = why_usb_code 0x804"
definition IOCTL_DETACH_DEVICE :: u32 where "IOCTL_DETACH_DEVICE = why_usb_code 0x805"
definition IOCTL_GET_STATUS :: u32 where "IOCTL_GET_STATUS = why_usb_code 0x806"

lemmas ioctl_code_defs =
  IOCTL_SESSION_OPEN_def IOCTL_SESSION_CLOSE_def IOCTL_GET_SHARED_MEMORY_def
  IOCTL_ATTACH_DEVICE_def IOCTL_DETACH_DEVICE_def IOCTL_GET_STATUS_def why_usb_code_def
  ctl_code_def FILE_DEVICE_UNKNOWN_def METHOD_BUFFERED_def FILE_ANY_ACCESS_def

lemma ioctl_codes [simp]:
  "IOCTL_SESSION_OPEN = 0x222004" "IOCTL_SESSION_CLOSE = 0x222008"
  "IOCTL_GET_SHARED_MEMORY = 0x22200c" "IOCTL_ATTACH_DEVICE = 0x222010"
  "IOCTL_DETACH_DEVICE = 0x222014" "IOCTL_GET_STATUS = 0x222018"
  by (simp_all add: ioctl_code_defs)

datatype ioctl_status = StatusOk | StatusUnsupported | StatusInvalidState | StatusBufferTooSmall

definition ioctl_status_code :: "ioctl_status \<Rightarrow> u32" where
  "ioctl_status_code s =
     (case s of StatusOk \<Rightarrow> 0 | StatusUnsupported \<Rightarrow> 1 | StatusInvalidState \<Rightarrow> 2 | StatusBufferTooSmall \<Rightarrow> 3)"

datatype ioctl_session_state = SessionClosed | SessionOpen | SessionAttached

definition ioctl_session_state_code :: "ioctl_session_state \<Rightarrow> u32" where
  "ioctl_session_state_code s = (case s of SessionClosed \<Rightarrow> 0 | SessionOpen \<Rightarrow> 1 | SessionAttached \<Rightarrow> 2)"

section \<open>Headers and errors\<close>

record abi_header =
  ah_magic :: u32
  ah_version :: u16
  ah_size :: u16

datatype abi_error =
    AbiInvalidMagic u32 | AbiUnsupportedVersion u16 | AbiInvalidSize u16 u16 | AbiInvalidLayout

definition abi_error_display :: "abi_error \<Rightarrow> string" where
  "abi_error_display e =
     (case e of
        AbiInvalidMagic magic \<Rightarrow> ''invalid ABI magic 0x'' @ pad_zero 8 (show_radix 16 (unat magic))
      | AbiUnsupportedVersion version \<Rightarrow> ''unsupported ABI version '' @ dec (unat version)
      | AbiInvalidSize got want \<Rightarrow>
          ''invalid ABI size '' @ dec (unat got) @ '', expected '' @ dec (unat want)
      | AbiInvalidLayout \<Rightarrow> ''invalid shared memory layout'')"

definition abi_header_new :: "nat \<Rightarrow> abi_header" where
  "abi_header_new size_of =
     \<lparr>ah_magic = WHY_USB_ABI_MAGIC, ah_version = WHY_USB_ABI_VERSION, ah_size = of_nat size_of\<rparr>"

definition abi_header_validate :: "abi_header \<Rightarrow> nat \<Rightarrow> abi_error + unit" where
  "abi_header_validate h expected_size =
     (if ah_magic h \<noteq> WHY_USB_ABI_MAGIC then Inl (AbiInvalidMagic (ah_magic h))
      else if ah_version h \<noteq> WHY_USB_ABI_VERSION then Inl (AbiUnsupportedVersion (ah_version h))
      else if unat (ah_size h) \<noteq> expected_size
      then Inl (AbiInvalidSize (ah_size h) (of_nat expected_size))
      else Inr ())"

lemma abi_header_new_validates:
  "n < 65536 \<Longrightarrow> abi_header_validate (abi_header_new n) m = Inr () \<longleftrightarrow> n = m"
  by (simp add: abi_header_validate_def abi_header_new_def unsigned_of_nat take_bit_nat_eq_self)

section \<open>The structures as bytes\<close>

text \<open>
  \<open>as_bytes\<close> gives a structure as the bytes it occupies, and \<open>assume_init\<close> reads one out of
  the bytes the driver wrote.
\<close>

definition abi_header_bytes :: "abi_header \<Rightarrow> bytes" where
  "abi_header_bytes h = le_bytes 4 (ah_magic h) @ le_bytes 2 (ah_version h) @ le_bytes 2 (ah_size h)"

definition abi_header_read :: "bytes \<Rightarrow> abi_header" where
  "abi_header_read bs =
     \<lparr>ah_magic = le_word (slice bs 0 4), ah_version = le_word (slice bs 4 6), ah_size = le_word (slice bs 6 8)\<rparr>"

record session_open_request =
  so_header :: abi_header
  so_flags :: u32

definition session_open_request_bytes :: "session_open_request \<Rightarrow> bytes" where
  "session_open_request_bytes r = abi_header_bytes (so_header r) @ le_bytes 4 (so_flags r)"

definition session_open_request_new :: "u32 \<Rightarrow> session_open_request" where
  "session_open_request_new flags = \<lparr>so_header = abi_header_new 12, so_flags = flags\<rparr>"

record session_open_response =
  sr_header :: abi_header
  sr_session_id :: u64
  sr_status :: u32
  sr_max_frame_size :: u32

definition SESSION_OPEN_RESPONSE_SIZE :: nat where "SESSION_OPEN_RESPONSE_SIZE = 24"

definition session_open_response_read :: "bytes \<Rightarrow> session_open_response" where
  "session_open_response_read bs =
     \<lparr>sr_header = abi_header_read bs, sr_session_id = le_word (slice bs 8 16),
      sr_status = le_word (slice bs 16 20), sr_max_frame_size = le_word (slice bs 20 24)\<rparr>"

record shared_memory_info =
  si_header :: abi_header
  si_section_handle :: u64
  si_tx_event_handle :: u64
  si_rx_event_handle :: u64
  si_mapping_size :: u32
  si_tx_ring_size :: u32
  si_rx_ring_size :: u32
  si_tx_ring_offset :: u32
  si_rx_ring_offset :: u32

definition SHARED_MEMORY_INFO_SIZE :: nat where "SHARED_MEMORY_INFO_SIZE = 52"

definition shared_memory_info_read :: "bytes \<Rightarrow> shared_memory_info" where
  "shared_memory_info_read bs =
     \<lparr>si_header = abi_header_read bs, si_section_handle = le_word (slice bs 8 16),
      si_tx_event_handle = le_word (slice bs 16 24), si_rx_event_handle = le_word (slice bs 24 32),
      si_mapping_size = le_word (slice bs 32 36), si_tx_ring_size = le_word (slice bs 36 40),
      si_rx_ring_size = le_word (slice bs 40 44), si_tx_ring_offset = le_word (slice bs 44 48),
      si_rx_ring_offset = le_word (slice bs 48 52)\<rparr>"

record shared_memory_header =
  sm_magic :: u32
  sm_version :: u16
  sm_header_size :: u16
  sm_mapping_size :: u32
  sm_tx_ring_offset :: u32
  sm_rx_ring_offset :: u32
  sm_tx_ring_size :: u32
  sm_rx_ring_size :: u32

definition SHARED_MEMORY_HEADER_SIZE :: nat where "SHARED_MEMORY_HEADER_SIZE = 28"

definition shared_memory_header_read :: "bytes \<Rightarrow> shared_memory_header" where
  "shared_memory_header_read bs =
     \<lparr>sm_magic = le_word (slice bs 0 4), sm_version = le_word (slice bs 4 6),
      sm_header_size = le_word (slice bs 6 8), sm_mapping_size = le_word (slice bs 8 12),
      sm_tx_ring_offset = le_word (slice bs 12 16), sm_rx_ring_offset = le_word (slice bs 16 20),
      sm_tx_ring_size = le_word (slice bs 20 24), sm_rx_ring_size = le_word (slice bs 24 28)\<rparr>"

record abi_attach_request =
  at_header :: abi_header
  at_session_id :: u64
  at_vendor_id :: u16
  at_product_id :: u16
  at_bus_id :: u8
  at_port_id :: u8
  at_flags :: u16

definition abi_attach_request_new :: "u64 \<Rightarrow> u16 \<Rightarrow> u16 \<Rightarrow> u8 \<Rightarrow> u8 \<Rightarrow> u16 \<Rightarrow> abi_attach_request" where
  "abi_attach_request_new session_id vendor_id product_id bus_id port_id flags =
     \<lparr>at_header = abi_header_new 24, at_session_id = session_id, at_vendor_id = vendor_id,
      at_product_id = product_id, at_bus_id = bus_id, at_port_id = port_id, at_flags = flags\<rparr>"

definition abi_attach_request_bytes :: "abi_attach_request \<Rightarrow> bytes" where
  "abi_attach_request_bytes r =
     abi_header_bytes (at_header r) @ le_bytes 8 (at_session_id r) @ le_bytes 2 (at_vendor_id r) @
     le_bytes 2 (at_product_id r) @ [at_bus_id r, at_port_id r] @ le_bytes 2 (at_flags r)"

record abi_detach_request =
  dt_header :: abi_header
  dt_session_id :: u64
  dt_reason :: u32

definition abi_detach_request_new :: "u64 \<Rightarrow> u32 \<Rightarrow> abi_detach_request" where
  "abi_detach_request_new session_id reason =
     \<lparr>dt_header = abi_header_new 20, dt_session_id = session_id, dt_reason = reason\<rparr>"

definition abi_detach_request_bytes :: "abi_detach_request \<Rightarrow> bytes" where
  "abi_detach_request_bytes r =
     abi_header_bytes (dt_header r) @ le_bytes 8 (dt_session_id r) @ le_bytes 4 (dt_reason r)"

record abi_status_response =
  st_header :: abi_header
  st_session_id :: u64
  st_status :: u32
  st_session_state :: u32
  st_tx_queued_bytes :: u32
  st_rx_queued_bytes :: u32

definition STATUS_RESPONSE_SIZE :: nat where "STATUS_RESPONSE_SIZE = 32"

definition abi_status_response_read :: "bytes \<Rightarrow> abi_status_response" where
  "abi_status_response_read bs =
     \<lparr>st_header = abi_header_read bs, st_session_id = le_word (slice bs 8 16),
      st_status = le_word (slice bs 16 20), st_session_state = le_word (slice bs 20 24),
      st_tx_queued_bytes = le_word (slice bs 24 28), st_rx_queued_bytes = le_word (slice bs 28 32)\<rparr>"

lemma length_abi_header_bytes [simp]: "length (abi_header_bytes h) = 8"
  by (simp add: abi_header_bytes_def)

text \<open>
  What a request carries is its own size: the number the driver checks is the number of
  bytes that are passed.
\<close>

lemma request_sizes:
  "unat (ah_size (so_header (session_open_request_new flags))) =
     length (session_open_request_bytes (session_open_request_new flags))"
  "unat (ah_size (at_header (abi_attach_request_new s v p b q f))) =
     length (abi_attach_request_bytes (abi_attach_request_new s v p b q f))"
  "unat (ah_size (dt_header (abi_detach_request_new s r))) =
     length (abi_detach_request_bytes (abi_detach_request_new s r))"
  by (simp_all add: session_open_request_new_def session_open_request_bytes_def
      abi_attach_request_new_def abi_attach_request_bytes_def abi_detach_request_new_def
      abi_detach_request_bytes_def abi_header_new_def)

lemma abi_header_read_bytes [simp]: "abi_header_read (abi_header_bytes h @ rest) = h"
  by (simp add: abi_header_read_def abi_header_bytes_def slice_def le_word_le_bytes)

section \<open>The shared memory\<close>

definition saturating_add32 :: "u32 \<Rightarrow> u32 \<Rightarrow> u32" where
  "saturating_add32 a b = (if unat a + unat b < 2 ^ 32 then a + b else - 1)"

definition shared_memory_header_validate :: "shared_memory_header \<Rightarrow> abi_error + unit" where
  "shared_memory_header_validate h =
     (if sm_magic h \<noteq> SHARED_MEMORY_MAGIC then Inl (AbiInvalidMagic (sm_magic h))
      else if sm_version h \<noteq> SHARED_MEMORY_VERSION then Inl (AbiUnsupportedVersion (sm_version h))
      else if unat (sm_header_size h) \<noteq> SHARED_MEMORY_HEADER_SIZE
      then Inl (AbiInvalidSize (sm_header_size h) (of_nat SHARED_MEMORY_HEADER_SIZE))
      else if sm_tx_ring_offset h \<ge> sm_mapping_size h
        \<or> sm_rx_ring_offset h \<ge> sm_mapping_size h
        \<or> sm_tx_ring_size h = 0
        \<or> sm_rx_ring_size h = 0
        \<or> sm_tx_ring_offset h mod RING_ALIGNMENT \<noteq> 0
        \<or> sm_rx_ring_offset h mod RING_ALIGNMENT \<noteq> 0
        \<or> saturating_add32 (sm_tx_ring_offset h) (sm_tx_ring_size h) > sm_mapping_size h
        \<or> saturating_add32 (sm_rx_ring_offset h) (sm_rx_ring_size h) > sm_mapping_size h
      then Inl AbiInvalidLayout
      else Inr ())"

text \<open>\<open>None\<close> is the overflow of the addition or of the subtraction.\<close>

definition align_up :: "u32 \<Rightarrow> u32 \<Rightarrow> u32 option" where
  "align_up value alignment =
     (if alignment = 0 then None
      else if unat value + unat (alignment - 1) < 2 ^ 32
      then Some ((value + (alignment - 1)) AND NOT (alignment - 1)) else None)"

text \<open>
  The saturation matters for one size only: for a mapping of \<open>2 ^ 32 - 1\<close> bytes a ring that
  runs past the end is accepted.
\<close>

lemma saturating_fits:
  "saturating_add32 a b \<le> m \<longleftrightarrow> unat a + unat b \<le> unat m \<or> (m = - 1 \<and> unat a + unat b \<ge> 2 ^ 32)"
proof (cases "unat a + unat b < 2 ^ 32")
  case True
  then show ?thesis by (simp add: saturating_add32_def word_le_nat_alt unat_add_lem [THEN iffD1])
next
  case False
  have "\<not> unat a + unat b \<le> unat m" using False [simplified] unat_less_2p32 [of m] by linarith
  moreover have "(- 1 :: u32) \<le> m \<longleftrightarrow> m = - 1"
    using word_order.extremum_unique by blast
  ultimately show ?thesis using False by (simp add: saturating_add32_def)
qed

lemma shared_memory_header_accepts:
  "shared_memory_header_validate h = Inr () \<Longrightarrow>
     sm_tx_ring_offset h < sm_mapping_size h \<and> sm_rx_ring_offset h < sm_mapping_size h \<and>
     (sm_mapping_size h = - 1 \<or>
      unat (sm_tx_ring_offset h) + unat (sm_tx_ring_size h) \<le> unat (sm_mapping_size h) \<and>
      unat (sm_rx_ring_offset h) + unat (sm_rx_ring_size h) \<le> unat (sm_mapping_size h))"
  using saturating_fits [of "sm_tx_ring_offset h" "sm_tx_ring_size h" "sm_mapping_size h"]
    saturating_fits [of "sm_rx_ring_offset h" "sm_rx_ring_size h" "sm_mapping_size h"]
  by (auto simp: shared_memory_header_validate_def not_le not_less split: if_splits)

text \<open>\<open>align_up\<close> to a power of two is the least multiple that is not below the value.\<close>

lemma align_up_least:
  assumes "k < 32" "align_up value (push_bit k 1) = Some r"
  shows "2 ^ k dvd unat r \<and> unat value \<le> unat r \<and> unat r < unat value + 2 ^ k"
proof -
  let ?m = "push_bit k 1 - 1 :: u32"
  have m: "?m = mask k" by (simp add: mask_eq_decr_exp push_bit_eq_mult)
  have um: "unat ?m = 2 ^ k - 1"
  proof -
    have "?m = of_nat (2 ^ k - 1)" by (simp add: push_bit_eq_mult of_nat_diff)
    moreover have "(2 :: nat) ^ k < 2 ^ 32" using assms(1) by (intro power_strict_increasing) simp_all
    ultimately show ?thesis by (simp add: unsigned_of_nat take_bit_nat_eq_self del: of_nat_diff)
  qed
  obtain fits: "unat value + unat ?m < 2 ^ 32" and r: "r = (value + ?m) AND NOT ?m"
    using assms(2) by (auto simp: align_up_def split: if_splits)
  have sum: "unat (value + ?m) = unat value + (2 ^ k - 1)"
    using fits um by (simp add: unat_add_lem [THEN iffD1])
  have "r = (value + ?m) - take_bit k (value + ?m)"
  proof -
    have "NOT a AND take_bit k a = 0" for a :: u32
      by (rule bit_word_eqI) (auto simp: bit_simps)
    then have "a - take_bit k a = a AND NOT (take_bit k a)" for a :: u32
      by (rule disjunctive_diff_eq_and_not)
    moreover have "a AND NOT (take_bit k a) = a AND NOT (mask k)" for a :: u32
      by (rule bit_word_eqI) (auto simp: bit_simps)
    ultimately show ?thesis unfolding r m by simp
  qed
  moreover have "unat (take_bit k (value + ?m)) = unat (value + ?m) mod 2 ^ k"
    using unsigned_take_bit_eq [of k "value + ?m"] take_bit_eq_mod [of k "unat (value + ?m)"] by metis
  ultimately have "unat r = unat (value + ?m) - unat (value + ?m) mod 2 ^ k"
    using unat_sub [of "take_bit k (value + ?m)" "value + ?m"]
    by (metis mod_less_eq_dividend word_le_nat_alt)
  then have ur: "unat r = (unat value + (2 ^ k - 1)) div 2 ^ k * 2 ^ k"
    unfolding sum by (simp add: minus_mod_eq_div_mult)
  have "(unat value + (2 ^ k - 1)) mod 2 ^ k < 2 ^ k" by simp
  moreover have "(unat value + (2 ^ k - 1)) div 2 ^ k * 2 ^ k + (unat value + (2 ^ k - 1)) mod 2 ^ k =
      unat value + (2 ^ k - 1)" by (rule div_mult_mod_eq)
  moreover have "1 \<le> (2 :: nat) ^ k" by simp
  ultimately have "unat value \<le> unat r \<and> unat r < unat value + 2 ^ k"
    unfolding ur by linarith
  then show ?thesis by (simp add: ur)
qed

end
