(* ===== verification/Windows_Backend.thy ===== *)
theory Windows_Backend imports Ioctl_Abi Error_Texts begin

text \<open>
  The backend for the Windows driver, \<open>daemon/src/windows_driver_backend.rs\<close>: opening the
  device, the control requests, the mapping of the shared memory and the two rings in it.
  The functions of the Windows API are parameters; memory is a map from addresses to bytes,
  so that a ring is a range of it and two rings may overlap.
\<close>

section \<open>The Windows API and the memory\<close>

record 'w machine =
  mc_memory :: "nat \<Rightarrow> u8"
  mc_os :: 'w

text \<open>
  \<open>DeviceIoControl\<close> gives its result, the number of bytes returned and the output buffer.
\<close>

record 'w windows_api =
  win_create_file :: "u16 list \<Rightarrow> u32 \<Rightarrow> u32 \<Rightarrow> u32 \<Rightarrow> u32 \<Rightarrow> 'w machine \<Rightarrow> u64 \<times> 'w machine"
  win_device_io_control :: "u64 \<Rightarrow> u32 \<Rightarrow> bytes \<Rightarrow> nat \<Rightarrow> 'w machine \<Rightarrow> (i32 \<times> u32 \<times> bytes) \<times> 'w machine"
  win_close_handle :: "u64 \<Rightarrow> 'w machine \<Rightarrow> 'w machine"
  win_map_view_of_file :: "u64 \<Rightarrow> u32 \<Rightarrow> nat \<Rightarrow> 'w machine \<Rightarrow> nat \<times> 'w machine"
  win_unmap_view_of_file :: "nat \<Rightarrow> 'w machine \<Rightarrow> 'w machine"
  win_wait_for_single_object :: "u64 \<Rightarrow> u32 \<Rightarrow> 'w machine \<Rightarrow> u32 \<times> 'w machine"
  win_set_event :: "u64 \<Rightarrow> 'w machine \<Rightarrow> i32 \<times> 'w machine"
  win_last_error :: "'w machine \<Rightarrow> u32"

definition GENERIC_READ :: u32 where "GENERIC_READ = 0x80000000"
definition GENERIC_WRITE :: u32 where "GENERIC_WRITE = 0x40000000"
definition FILE_SHARE_READ :: u32 where "FILE_SHARE_READ = 1"
definition FILE_SHARE_WRITE :: u32 where "FILE_SHARE_WRITE = 2"
definition OPEN_EXISTING :: u32 where "OPEN_EXISTING = 3"
definition FILE_ATTRIBUTE_NORMAL :: u32 where "FILE_ATTRIBUTE_NORMAL = 0x80"
definition FILE_MAP_ALL_ACCESS :: u32 where "FILE_MAP_ALL_ACCESS = 0xf001f"
definition INVALID_HANDLE_VALUE :: u64 where "INVALID_HANDLE_VALUE = - 1"
definition WAIT_OBJECT_0 :: u32 where "WAIT_OBJECT_0 = 0"
definition WAIT_TIMEOUT :: u32 where "WAIT_TIMEOUT = 0x102"
definition WAIT_FAILED :: u32 where "WAIT_FAILED = 0xffffffff"

definition last_windows_error :: "'w windows_api \<Rightarrow> string \<Rightarrow> 'w machine \<Rightarrow> driver_error" where
  "last_windows_error api operation m = WindowsIo operation (win_last_error api m)"

definition validate_header :: "abi_header \<Rightarrow> nat \<Rightarrow> driver_error + unit" where
  "validate_header h expected_size =
     map_sum (\<lambda>e. Abi (abi_error_display e)) id (abi_header_validate h expected_size)"

text \<open>The path is ASCII, so its UTF-16 units are its bytes.\<close>

definition wide_null :: "string \<Rightarrow> u16 list" where
  "wide_null s = map (of_nat \<circ> of_char) s @ [0]"

definition non_null_handle :: "u64 \<Rightarrow> u64 option" where
  "non_null_handle v = (if v = 0 then None else Some v)"

text \<open>The timeout in milliseconds.\<close>

definition wait_for_handle ::
  "'w windows_api \<Rightarrow> u64 \<Rightarrow> nat \<Rightarrow> 'w machine \<Rightarrow> (driver_error + bool) \<times> 'w machine" where
  "wait_for_handle api handle timeout m =
     (let timeout_ms = of_nat (min timeout 4294967295);
          (result, m') = win_wait_for_single_object api handle timeout_ms m
      in (if result = WAIT_OBJECT_0 then Inr True
          else if result = WAIT_TIMEOUT then Inr False
          else if result = WAIT_FAILED then Inl (last_windows_error api ''WaitForSingleObject'' m')
          else Inl (Abi (''WaitForSingleObject returned unexpected status 0x'' @
            pad_zero 8 (show_radix 16 (unat result)))), m'))"

section \<open>Device handles and control requests\<close>

definition device_open ::
  "'w windows_api \<Rightarrow> string \<Rightarrow> 'w machine \<Rightarrow> (driver_error + u64) \<times> 'w machine" where
  "device_open api device_path m =
     (let (handle, m') = win_create_file api (wide_null device_path)
            (or GENERIC_READ GENERIC_WRITE) (or FILE_SHARE_READ FILE_SHARE_WRITE)
            OPEN_EXISTING FILE_ATTRIBUTE_NORMAL m
      in if handle = INVALID_HANDLE_VALUE
         then (Inl (last_windows_error api ''CreateFileW'' m'), m')
         else (Inr handle, m'))"

definition device_ioctl ::
  "'w windows_api \<Rightarrow> u64 \<Rightarrow> u32 \<Rightarrow> bytes \<Rightarrow> nat \<Rightarrow> 'w machine \<Rightarrow> (driver_error + bytes) \<times> 'w machine" where
  "device_ioctl api handle code input output_size m =
     (case win_device_io_control api handle code input output_size m of
        ((ok, bytes_returned, output), m') \<Rightarrow>
          if ok = 0 then (Inl (last_windows_error api ''DeviceIoControl'' m'), m')
          else if unat bytes_returned \<noteq> output_size
          then (Inl (Abi (''IOCTL 0x'' @ pad_zero 8 (show_radix 16 (unat code)) @ '' returned '' @
                  dec (unat bytes_returned) @ '' bytes, expected '' @ dec output_size)), m')
          else (Inr output, m'))"

definition device_ioctl_no_input ::
  "'w windows_api \<Rightarrow> u64 \<Rightarrow> u32 \<Rightarrow> nat \<Rightarrow> 'w machine \<Rightarrow> (driver_error + bytes) \<times> 'w machine" where
  "device_ioctl_no_input api handle code output_size m = device_ioctl api handle code [] output_size m"

definition device_ioctl_no_output ::
  "'w windows_api \<Rightarrow> u64 \<Rightarrow> u32 \<Rightarrow> bytes \<Rightarrow> 'w machine \<Rightarrow> (driver_error + unit) \<times> 'w machine" where
  "device_ioctl_no_output api handle code input m =
     (case win_device_io_control api handle code input 0 m of
        ((ok, _, _), m') \<Rightarrow>
          if ok = 0 then (Inl (last_windows_error api ''DeviceIoControl'' m'), m')
          else (Inr (), m'))"

section \<open>Rings in memory\<close>

text \<open>
  A ring at an address: the counters at offsets 0 and 8, the data from offset 16 on.
\<close>

definition load_bytes :: "(nat \<Rightarrow> u8) \<Rightarrow> nat \<Rightarrow> nat \<Rightarrow> bytes" where
  "load_bytes mem a n = map mem [a ..< a + n]"

definition load_ring :: "(nat \<Rightarrow> u8) \<Rightarrow> nat \<Rightarrow> ring" where
  "load_ring mem base =
     \<lparr>ring_head = le_word (load_bytes mem base 8), ring_tail = le_word (load_bytes mem (base + 8) 8),
      ring_data = (\<lambda>i. mem (base + 16 + i))\<rparr>"

definition store_ring :: "nat \<Rightarrow> ring \<Rightarrow> (nat \<Rightarrow> u8) \<Rightarrow> nat \<Rightarrow> u8" where
  "store_ring base r mem =
     (\<lambda>a. if a < base then mem a
          else if a < base + 8 then le_bytes 8 (ring_head r) ! (a - base)
          else if a < base + 16 then le_bytes 8 (ring_tail r) ! (a - (base + 8))
          else if a < base + RING_MAPPING_SIZE then ring_data r (a - (base + 16))
          else mem a)"

definition push_at ::
  "nat \<Rightarrow> bytes \<Rightarrow> (nat \<Rightarrow> u8) \<Rightarrow> ((mapped_ring_error + unit) \<times> (nat \<Rightarrow> u8)) option" where
  "push_at base bs mem =
     map_option (\<lambda>(res, r). (res, store_ring base r mem)) (push_frame bs (load_ring mem base))"

definition pop_at ::
  "nat \<Rightarrow> nat \<Rightarrow> (nat \<Rightarrow> u8) \<Rightarrow> ((mapped_ring_error + bytes option) \<times> (nat \<Rightarrow> u8)) option" where
  "pop_at base max_len mem =
     map_option (\<lambda>(res, r). (res, store_ring base r mem)) (pop_frame max_len (load_ring mem base))"

section \<open>The shared memory\<close>

record shared_memory_mapping =
  mp_section :: u64
  mp_tx_event :: "u64 option"
  mp_rx_event :: "u64 option"
  mp_view :: nat
  mp_mapping_size :: u32
  mp_tx_ring_offset :: u32
  mp_rx_ring_offset :: u32

definition mapping_map ::
  "'w windows_api \<Rightarrow> shared_memory_info \<Rightarrow> 'w machine \<Rightarrow>
   (driver_error + shared_memory_mapping) \<times> 'w machine" where
  "mapping_map api info m =
     (if si_section_handle info = 0 \<or> unat (si_mapping_size info) < SHARED_MEMORY_HEADER_SIZE
      then (Inl (Abi ''driver returned invalid shared memory handle or size''), m)
      else let (view, m1) = win_map_view_of_file api (si_section_handle info) FILE_MAP_ALL_ACCESS
                 (unat (si_mapping_size info)) m
           in if view = 0 then (Inl (last_windows_error api ''MapViewOfFile'' m1), m1)
              else let header = shared_memory_header_read
                         (load_bytes (mc_memory m1) view SHARED_MEMORY_HEADER_SIZE)
                   in (case shared_memory_header_validate header of
                         Inl e \<Rightarrow> (Inl (Abi (abi_error_display e)), win_unmap_view_of_file api view m1)
                       | Inr _ \<Rightarrow>
                           (Inr \<lparr>mp_section = si_section_handle info,
                                 mp_tx_event = non_null_handle (si_tx_event_handle info),
                                 mp_rx_event = non_null_handle (si_rx_event_handle info),
                                 mp_view = view, mp_mapping_size = si_mapping_size info,
                                 mp_tx_ring_offset = si_tx_ring_offset info,
                                 mp_rx_ring_offset = si_rx_ring_offset info\<rparr>, m1)))"

definition mapping_ring ::
  "shared_memory_mapping \<Rightarrow> u32 \<Rightarrow> string \<Rightarrow> driver_error + nat \<times> nat" where
  "mapping_ring sm offset name =
     (if offset \<ge> mp_mapping_size sm
      then Inl (Abi (name @ '' ring offset '' @ dec (unat offset) @ '' is outside mapping''))
      else map_sum (\<lambda>e. MappedRing (mapped_ring_error_display e)) id
             (mapped_ring_new (mp_view sm + unat offset) (unat (mp_mapping_size sm) - unat offset)))"

definition tx_ring :: "shared_memory_mapping \<Rightarrow> driver_error + nat \<times> nat" where
  "tx_ring sm = mapping_ring sm (mp_tx_ring_offset sm) ''TX''"

definition rx_ring :: "shared_memory_mapping \<Rightarrow> driver_error + nat \<times> nat" where
  "rx_ring sm = mapping_ring sm (mp_rx_ring_offset sm) ''RX''"

definition mapping_wait_for_tx_frame ::
  "'w windows_api \<Rightarrow> shared_memory_mapping \<Rightarrow> nat \<Rightarrow> 'w machine \<Rightarrow> (driver_error + bool) \<times> 'w machine" where
  "mapping_wait_for_tx_frame api sm timeout m =
     (case mp_tx_event sm of
        None \<Rightarrow> (Inr False, m)
      | Some tx_event \<Rightarrow> wait_for_handle api tx_event timeout m)"

definition signal_rx_frame ::
  "'w windows_api \<Rightarrow> shared_memory_mapping \<Rightarrow> 'w machine \<Rightarrow> (driver_error + unit) \<times> 'w machine" where
  "signal_rx_frame api sm m =
     (case mp_rx_event sm of
        None \<Rightarrow> (Inr (), m)
      | Some rx_event \<Rightarrow>
          let (ok, m') = win_set_event api rx_event m
          in if ok = 0 then (Inl (last_windows_error api ''SetEvent'' m'), m') else (Inr (), m'))"

text \<open>\<open>drop\<close>: the view is unmapped, then the handles are closed in the order of the fields.\<close>

definition close_option :: "'w windows_api \<Rightarrow> u64 option \<Rightarrow> 'w machine \<Rightarrow> 'w machine" where
  "close_option api h m = (case h of None \<Rightarrow> m | Some handle \<Rightarrow> win_close_handle api handle m)"

definition mapping_drop :: "'w windows_api \<Rightarrow> shared_memory_mapping \<Rightarrow> 'w machine \<Rightarrow> 'w machine" where
  "mapping_drop api sm m =
     close_option api (mp_rx_event sm) (close_option api (mp_tx_event sm)
       (win_close_handle api (mp_section sm) (win_unmap_view_of_file api (mp_view sm) m)))"

section \<open>The backend\<close>

record windows_backend =
  wb_device_path :: string
  wb_handle :: u64
  wb_session_id :: u64
  wb_max_frame_size :: u32
  wb_shared_memory :: "shared_memory_mapping option"

definition windows_drop :: "'w windows_api \<Rightarrow> windows_backend \<Rightarrow> 'w machine \<Rightarrow> 'w machine" where
  "windows_drop api wb m =
     (let (_, m1) = device_ioctl_no_output api (wb_handle wb) IOCTL_SESSION_CLOSE
            (le_bytes 8 (wb_session_id wb)) m;
          m2 = win_close_handle api (wb_handle wb) m1
      in case wb_shared_memory wb of None \<Rightarrow> m2 | Some sm \<Rightarrow> mapping_drop api sm m2)"

definition windows_get_status ::
  "'w windows_api \<Rightarrow> windows_backend \<Rightarrow> 'w machine \<Rightarrow> (driver_error + abi_status_response) \<times> 'w machine" where
  "windows_get_status api wb m =
     (case device_ioctl_no_input api (wb_handle wb) IOCTL_GET_STATUS STATUS_RESPONSE_SIZE m of
        (Inl e, m') \<Rightarrow> (Inl e, m')
      | (Inr output, m') \<Rightarrow>
          let response = abi_status_response_read output
          in (case validate_header (st_header response) STATUS_RESPONSE_SIZE of
                Inl e \<Rightarrow> (Inl e, m') | Inr _ \<Rightarrow> (Inr response, m')))"

text \<open>
  An early return drops what was made so far: the handle, or the whole backend.
\<close>

definition windows_open ::
  "'w windows_api \<Rightarrow> string \<Rightarrow> 'w machine \<Rightarrow> (driver_error + windows_backend) \<times> 'w machine" where
  "windows_open api device_path m =
     (case device_open api device_path m of
        (Inl e, m1) \<Rightarrow> (Inl e, m1)
      | (Inr handle, m1) \<Rightarrow>
          (case device_ioctl api handle IOCTL_SESSION_OPEN
                  (session_open_request_bytes (session_open_request_new 0))
                  SESSION_OPEN_RESPONSE_SIZE m1 of
             (Inl e, m2) \<Rightarrow> (Inl e, win_close_handle api handle m2)
           | (Inr output, m2) \<Rightarrow>
               let response = session_open_response_read output
               in (case validate_header (sr_header response) SESSION_OPEN_RESPONSE_SIZE of
                     Inl e \<Rightarrow> (Inl e, win_close_handle api handle m2)
                   | Inr _ \<Rightarrow>
                       if sr_status response \<noteq> ioctl_status_code StatusOk
                       then (Inl (Abi (''SESSION_OPEN returned status '' @ dec (unat (sr_status response)))),
                             win_close_handle api handle m2)
                       else let backend = \<lparr>wb_device_path = device_path, wb_handle = handle,
                                  wb_session_id = sr_session_id response,
                                  wb_max_frame_size = sr_max_frame_size response,
                                  wb_shared_memory = None\<rparr>
                            in (case windows_get_status api backend m2 of
                                  (Inl e, m3) \<Rightarrow> (Inl e, windows_drop api backend m3)
                                | (Inr status, m3) \<Rightarrow> (Inr backend, m3)))))"

definition windows_map_shared_memory ::
  "'w windows_api \<Rightarrow> windows_backend \<Rightarrow> 'w machine \<Rightarrow>
   (driver_error + unit) \<times> windows_backend \<times> 'w machine" where
  "windows_map_shared_memory api wb m =
     (if wb_shared_memory wb \<noteq> None then (Inr (), wb, m)
      else case device_ioctl_no_input api (wb_handle wb) IOCTL_GET_SHARED_MEMORY SHARED_MEMORY_INFO_SIZE m of
        (Inl e, m1) \<Rightarrow> (Inl e, wb, m1)
      | (Inr output, m1) \<Rightarrow>
          let info = shared_memory_info_read output
          in (case validate_header (si_header info) SHARED_MEMORY_INFO_SIZE of
                Inl e \<Rightarrow> (Inl e, wb, m1)
              | Inr _ \<Rightarrow>
                  (case mapping_map api info m1 of
                     (Inl e, m2) \<Rightarrow> (Inl e, wb, m2)
                   | (Inr mapping, m2) \<Rightarrow> (Inr (), wb\<lparr>wb_shared_memory := Some mapping\<rparr>, m2))))"

definition windows_attach_device ::
  "'w windows_api \<Rightarrow> windows_backend \<Rightarrow> device_attach_request \<Rightarrow> 'w machine \<Rightarrow>
   (driver_error + unit) \<times> 'w machine" where
  "windows_attach_device api wb request m =
     device_ioctl_no_output api (wb_handle wb) IOCTL_ATTACH_DEVICE
       (abi_attach_request_bytes (abi_attach_request_new (wb_session_id wb) (da_vendor_id request)
          (da_product_id request) (da_bus_id request) (da_port_id request) (da_flags request))) m"

definition windows_detach_device ::
  "'w windows_api \<Rightarrow> windows_backend \<Rightarrow> u32 \<Rightarrow> 'w machine \<Rightarrow> (driver_error + unit) \<times> 'w machine" where
  "windows_detach_device api wb reason m =
     device_ioctl_no_output api (wb_handle wb) IOCTL_DETACH_DEVICE
       (abi_detach_request_bytes (abi_detach_request_new (wb_session_id wb) reason)) m"

text \<open>\<open>None\<close> is the panic of a ring operation whose counters do not make sense.\<close>

definition windows_push_rx_bytes ::
  "'w windows_api \<Rightarrow> windows_backend \<Rightarrow> bytes \<Rightarrow> 'w machine \<Rightarrow>
   ((driver_error + unit) \<times> 'w machine) option" where
  "windows_push_rx_bytes api wb bs m =
     (case wb_shared_memory wb of
        None \<Rightarrow> Some (Inl (UnsupportedBackend ''Windows shared memory is not mapped yet''), m)
      | Some sm \<Rightarrow>
          (case rx_ring sm of
             Inl e \<Rightarrow> Some (Inl e, m)
           | Inr (base, _) \<Rightarrow>
               Option.bind (push_at base bs (mc_memory m)) (\<lambda>(res, mem).
                 let m1 = m\<lparr>mc_memory := mem\<rparr>
                 in Some (case res of
                            Inl e \<Rightarrow> (Inl (MappedRing (mapped_ring_error_display e)), m1)
                          | Inr _ \<Rightarrow> signal_rx_frame api sm m1))))"

definition windows_pump_once :: "windows_backend \<Rightarrow> bool" where
  "windows_pump_once wb = False"

definition windows_poll_tx_frame ::
  "windows_backend \<Rightarrow> 'w machine \<Rightarrow> ((driver_error + frame option) \<times> 'w machine) option" where
  "windows_poll_tx_frame wb m =
     (case wb_shared_memory wb of
        None \<Rightarrow> Some (Inr None, m)
      | Some sm \<Rightarrow>
          (case tx_ring sm of
             Inl e \<Rightarrow> Some (Inl e, m)
           | Inr (base, _) \<Rightarrow>
               Option.bind (pop_at base (unat (wb_max_frame_size wb)) (mc_memory m)) (\<lambda>(res, mem).
                 let m1 = m\<lparr>mc_memory := mem\<rparr>
                 in Some (case res of
                            Inl e \<Rightarrow> Inl (MappedRing (mapped_ring_error_display e))
                          | Inr None \<Rightarrow> Inr None
                          | Inr (Some bs) \<Rightarrow>
                              (case frame_decode bs of
                                 Inl e \<Rightarrow> Inl (MalformedTxFrame e) | Inr f \<Rightarrow> Inr (Some f)), m1))))"

definition windows_wait_for_tx_frame ::
  "'w windows_api \<Rightarrow> windows_backend \<Rightarrow> nat \<Rightarrow> 'w machine \<Rightarrow> (driver_error + bool) \<times> 'w machine" where
  "windows_wait_for_tx_frame api wb timeout m =
     (case wb_shared_memory wb of
        None \<Rightarrow> (Inr False, m)
      | Some sm \<Rightarrow> mapping_wait_for_tx_frame api sm timeout m)"

text \<open>\<open>build_windows_backend\<close> of \<open>daemon/src/main.rs\<close>.\<close>

definition build_windows_backend ::
  "'w windows_api \<Rightarrow> string \<Rightarrow> bool \<Rightarrow> 'w machine \<Rightarrow> (driver_error + windows_backend) \<times> 'w machine" where
  "build_windows_backend api device_path map_shared_memory m =
     (case windows_open api device_path m of
        (Inl e, m1) \<Rightarrow> (Inl e, m1)
      | (Inr backend, m1) \<Rightarrow>
          if map_shared_memory
          then (case windows_map_shared_memory api backend m1 of
                  (Inl e, backend', m2) \<Rightarrow> (Inl e, windows_drop api backend' m2)
                | (Inr _, backend', m2) \<Rightarrow> (Inr backend', m2))
          else (Inr backend, m1))"

end
