(* ===== verification/Windows_Memory.thy ===== *)
theory Windows_Memory imports Windows_Backend Ring_Channel begin

text \<open>
  The rings of the Windows backend in the memory they share with the driver: a ring at an
  address is a frame channel, it touches no byte outside its range, and so two rings that
  do not overlap are independent channels, whereas two that do overlap are not.
\<close>

section \<open>Loading and storing a ring\<close>

lemma mapping_size: "RING_MAPPING_SIZE = 16 + RING_BUFFER_SIZE"
  by (simp add: RING_MAPPING_SIZE_def RING_HEADER_SIZE_def)

lemma load_bytes_eqI: "length bs = n \<Longrightarrow> (\<And>i. i < n \<Longrightarrow> mem (a + i) = bs ! i) \<Longrightarrow> load_bytes mem a n = bs"
  by (auto simp: load_bytes_def intro: nth_equalityI)

lemma nth_load_bytes: "i < n \<Longrightarrow> load_bytes mem a n ! i = mem (a + i)"
  by (simp add: load_bytes_def)

lemma length_load_bytes [simp]: "length (load_bytes mem a n) = n"
  by (simp add: load_bytes_def)

lemma load_bytes_cong: "(\<And>i. i < n \<Longrightarrow> mem (a + i) = mem' (a + i)) \<Longrightarrow> load_bytes mem a n = load_bytes mem' a n"
  by (intro load_bytes_eqI) (simp_all add: nth_load_bytes)

lemma load_stored_bytes:
  "load_bytes (store_ring base r mem) base 8 = le_bytes 8 (ring_head r)"
  "load_bytes (store_ring base r mem) (base + 8) 8 = le_bytes 8 (ring_tail r)"
  by (auto intro!: load_bytes_eqI simp: store_ring_def)

lemma store_loaded_counters:
  "i < 8 \<Longrightarrow> le_bytes 8 (le_word (load_bytes mem a 8) :: u64) ! i = mem (a + i)"
  using le_bytes_le_word [of "load_bytes mem a 8", where 'a = 64] by (simp add: nth_load_bytes)

text \<open>
  The ring's data are the bytes of its range: \<open>ring_frame r mem base\<close> says that beyond the
  range the ring has the bytes of memory.
\<close>

definition ring_frame :: "ring \<Rightarrow> (nat \<Rightarrow> u8) \<Rightarrow> nat \<Rightarrow> bool" where
  "ring_frame r mem base \<longleftrightarrow> (\<forall>i \<ge> RING_BUFFER_SIZE. ring_data r i = mem (base + 16 + i))"

lemma load_store:
  assumes "ring_frame r mem base"
  shows "load_ring (store_ring base r mem) base = r"
proof -
  have "store_ring base r mem (base + 16 + i) = ring_data r i" for i
    using assms by (auto simp: store_ring_def mapping_size ring_frame_def)
  then show ?thesis
    by (cases r) (simp add: load_ring_def load_stored_bytes le_word_le_bytes)
qed

lemma store_outside: "a < base \<or> base + RING_MAPPING_SIZE \<le> a \<Longrightarrow> store_ring base r mem a = mem a"
  by (auto simp: store_ring_def mapping_size)

lemma store_head_kept:
  "ring_head r = ring_head (load_ring mem base) \<Longrightarrow> base \<le> a \<Longrightarrow> a < base + 8 \<Longrightarrow>
     store_ring base r mem a = mem a"
  using store_loaded_counters [of "a - base" mem base] by (simp add: store_ring_def load_ring_def)

lemma store_tail_kept:
  "ring_tail r = ring_tail (load_ring mem base) \<Longrightarrow> base + 8 \<le> a \<Longrightarrow> a < base + 16 \<Longrightarrow>
     store_ring base r mem a = mem a"
  using store_loaded_counters [of "a - (base + 8)" mem "base + 8"]
  by (simp add: store_ring_def load_ring_def)

lemma store_data_kept:
  "ring_data r = ring_data (load_ring mem base) \<Longrightarrow> base + 16 \<le> a \<Longrightarrow> store_ring base r mem a = mem a"
  by (simp add: store_ring_def load_ring_def)

lemma store_load [simp]: "store_ring base (load_ring mem base) mem = mem"
proof
  fix a
  consider "a < base" | "base \<le> a" "a < base + 8" | "base + 8 \<le> a" "a < base + 16" | "base + 16 \<le> a"
    by linarith
  then show "store_ring base (load_ring mem base) mem a = mem a"
    by cases (simp_all add: store_outside store_head_kept store_tail_kept store_data_kept)
qed

section \<open>What the operations touch\<close>

lemma write_wrapped_outside:
  assumes "length src \<le> RING_BUFFER_SIZE" "RING_BUFFER_SIZE \<le> i"
  shows "write_wrapped data a src i = data i"
proof -
  define off where "off = a mod RING_BUFFER_SIZE"
  have "off < RING_BUFFER_SIZE" by (simp add: off_def)
  then show ?thesis
    using assms by (auto simp: write_wrapped_def write_at_def Let_def simp flip: off_def)
qed

lemma push_frame_touches:
  assumes "push_frame bs r = Some (res, r')"
  shows "ring_tail r' = ring_tail r" "RING_BUFFER_SIZE \<le> i \<Longrightarrow> ring_data r' i = ring_data r i"
    "isl res \<Longrightarrow> r' = r"
proof -
  have "ring_tail r' = ring_tail r \<and> (RING_BUFFER_SIZE \<le> i \<longrightarrow> ring_data r' i = ring_data r i) \<and>
      (isl res \<longrightarrow> r' = r)"
    using assms
    by (auto simp: push_frame_def checked_sub_def bind_eq_Some_conv Let_def write_wrapped_outside
        not_less split: if_splits)
  then show "ring_tail r' = ring_tail r" "RING_BUFFER_SIZE \<le> i \<Longrightarrow> ring_data r' i = ring_data r i"
    "isl res \<Longrightarrow> r' = r" by blast+
qed

lemma pop_frame_touches:
  assumes "pop_frame max_len r = Some (res, r')"
  shows "ring_head r' = ring_head r" "ring_data r' = ring_data r"
proof -
  have "ring_head r' = ring_head r \<and> ring_data r' = ring_data r"
    using assms by (auto simp: pop_frame_def bind_eq_Some_conv Let_def split: if_splits)
  then show "ring_head r' = ring_head r" "ring_data r' = ring_data r" by blast+
qed

text \<open>Pushing writes the head counter and the data, popping the tail counter.\<close>

lemma push_at_footprint:
  assumes "push_at base bs mem = Some (res, mem')" "mem' a \<noteq> mem a"
  shows "base \<le> a \<and> a < base + RING_MAPPING_SIZE \<and> \<not> (base + 8 \<le> a \<and> a < base + 16)"
proof -
  obtain r where push: "push_frame bs (load_ring mem base) = Some (res, r)"
    and mem': "mem' = store_ring base r mem"
    using assms(1) by (auto simp: push_at_def)
  have "\<not> (a < base \<or> base + RING_MAPPING_SIZE \<le> a)"
    using assms(2) store_outside mem' by blast
  moreover have "\<not> (base + 8 \<le> a \<and> a < base + 16)"
    using assms(2) store_tail_kept [OF push_frame_touches(1) [OF push]] mem' by blast
  ultimately show ?thesis by linarith
qed

lemma pop_at_footprint:
  assumes "pop_at base max_len mem = Some (res, mem')" "mem' a \<noteq> mem a"
  shows "base + 8 \<le> a \<and> a < base + 16"
proof -
  obtain r where pop: "pop_frame max_len (load_ring mem base) = Some (res, r)"
    and mem': "mem' = store_ring base r mem"
    using assms(1) by (auto simp: pop_at_def)
  have "\<not> a < base" "\<not> (base \<le> a \<and> a < base + 8)" "\<not> base + 16 \<le> a"
    using assms(2) store_outside store_head_kept [OF pop_frame_touches(1) [OF pop]]
      store_data_kept [OF pop_frame_touches(2) [OF pop]] mem' by blast+
  then show ?thesis by linarith
qed

section \<open>A ring at an address is a frame channel\<close>

lemma push_at_ring:
  assumes "push_frame bs (load_ring mem base) = Some (res, r)"
  obtains mem' where "push_at base bs mem = Some (res, mem')" "load_ring mem' base = r"
proof -
  have "ring_frame r mem base"
    using push_frame_touches(2) [OF assms] by (simp add: ring_frame_def load_ring_def)
  then show thesis
    using that [of "store_ring base r mem"] assms by (simp add: push_at_def load_store)
qed

lemma pop_at_ring:
  assumes "pop_frame max_len (load_ring mem base) = Some (res, r)"
  obtains mem' where "pop_at base max_len mem = Some (res, mem')" "load_ring mem' base = r"
proof -
  have "ring_frame r mem base"
    using pop_frame_touches(2) [OF assms] by (simp add: ring_frame_def load_ring_def)
  then show thesis
    using that [of "store_ring base r mem"] assms by (simp add: pop_at_def load_store)
qed

interpretation mapped: frame_channel
  "\<lambda>mem. ring_holds (load_ring mem base)" "\<lambda>mem. ring_has_room (load_ring mem base)"
  "\<lambda>mem. unat (ring_head (load_ring mem base))" "push_at base" "pop_at base" for base :: nat
proof
  fix mem :: "nat \<Rightarrow> u8" and fs f n
  assume holds: "ring_holds (load_ring mem base) fs"
  show "\<exists>mem'. push_at base f mem = Some (Inr (), mem') \<and> ring_holds (load_ring mem' base) (fs @ [f]) \<and>
      unat (ring_head (load_ring mem' base)) = unat (ring_head (load_ring mem base)) + 4 + length f"
    if room: "ring_has_room (load_ring mem base) fs f"
      "unat (ring_head (load_ring mem base)) + 4 + length f < 2 ^ 64"
  proof -
    obtain r where "push_frame f (load_ring mem base) = Some (Inr (), r)" "ring_holds r (fs @ [f])"
      "unat (ring_head r) = unat (ring_head (load_ring mem base)) + 4 + length f"
      using push_frame_room [OF holds room] by blast
    then show ?thesis using push_at_ring by metis
  qed
  show "\<exists>e. push_at base f mem = Some (Inl e, mem)" if "\<not> ring_has_room (load_ring mem base) fs f"
    using push_frame_no_room [OF holds that] by (simp add: push_at_def)
next
  fix mem :: "nat \<Rightarrow> u8" and n
  assume "ring_holds (load_ring mem base) []"
  from pop_frame_empty [OF this, of n] show "pop_at base n mem = Some (Inr None, mem)"
    by (simp add: pop_at_def)
next
  fix mem :: "nat \<Rightarrow> u8" and f fs n
  assume holds: "ring_holds (load_ring mem base) (f # fs)"
  show "\<exists>mem'. pop_at base n mem = Some (Inr (Some f), mem') \<and> ring_holds (load_ring mem' base) fs \<and>
      unat (ring_head (load_ring mem' base)) = unat (ring_head (load_ring mem base))"
    if "length f \<le> n"
    using holds
  proof (cases rule: pop_frame_front [of _ _ _ n])
    case (frame r)
    then show ?thesis using pop_at_ring [OF frame(2)] by metis
  qed (use that in simp)
  show "\<exists>e. pop_at base n mem = Some (Inl e, mem)" if "n < length f"
    using holds
    by (cases rule: pop_frame_front [of _ _ _ n]) (use that in \<open>simp_all add: pop_at_def\<close>)
qed

end
