(* ===== verification/Windows_Properties.thy ===== *)
theory Windows_Properties imports Windows_Memory begin

text \<open>
  What the Windows backend guarantees about the memory it shares with the driver, and what
  its checks of the driver's answers leave open.
\<close>

section \<open>The rings of a mapping\<close>

abbreviation rx_base :: "shared_memory_mapping \<Rightarrow> nat" where
  "rx_base sm \<equiv> mp_view sm + unat (mp_rx_ring_offset sm)"

abbreviation tx_base :: "shared_memory_mapping \<Rightarrow> nat" where
  "tx_base sm \<equiv> mp_view sm + unat (mp_tx_ring_offset sm)"

lemma mapping_ring_Inr:
  "mapping_ring sm offset name = Inr (base, len) \<longleftrightarrow>
     base = mp_view sm + unat offset \<and> len = unat (mp_mapping_size sm) - unat offset \<and>
     base \<noteq> 0 \<and> base mod 8 = 0 \<and> unat offset + RING_MAPPING_SIZE \<le> unat (mp_mapping_size sm)"
proof -
  have "unat offset < unat (mp_mapping_size sm) \<longleftrightarrow> \<not> mp_mapping_size sm \<le> offset"
    by (simp add: word_le_nat_alt not_le)
  then show ?thesis
    by (auto simp: mapping_ring_def mapped_ring_new_def mapping_size)
qed

lemma rx_ring_Inr: "rx_ring sm = Inr (base, len) \<Longrightarrow> base = rx_base sm \<and>
    rx_base sm + RING_MAPPING_SIZE \<le> mp_view sm + unat (mp_mapping_size sm)"
  by (simp add: rx_ring_def mapping_ring_Inr)

lemma tx_ring_Inr: "tx_ring sm = Inr (base, len) \<Longrightarrow> base = tx_base sm \<and>
    tx_base sm + RING_MAPPING_SIZE \<le> mp_view sm + unat (mp_mapping_size sm)"
  by (simp add: tx_ring_def mapping_ring_Inr)

text \<open>\<open>SetEvent\<close> works on an event of the kernel, not on the memory of the process.\<close>

definition set_event_keeps_memory :: "'w windows_api \<Rightarrow> bool" where
  "set_event_keeps_memory api \<longleftrightarrow> (\<forall>h m. mc_memory (snd (win_set_event api h m)) = mc_memory m)"

lemma signal_memory:
  "set_event_keeps_memory api \<Longrightarrow> mc_memory (snd (signal_rx_frame api sm m)) = mc_memory m"
  by (cases "mp_rx_event sm")
    (auto simp: signal_rx_frame_def set_event_keeps_memory_def split_beta Let_def)

lemma windows_push_memory:
  assumes "set_event_keeps_memory api" "wb_shared_memory wb = Some sm"
    and "windows_push_rx_bytes api wb bs m = Some (res, m')"
  shows "mc_memory m' = mc_memory m \<or>
    (\<exists>len r. rx_ring sm = Inr (rx_base sm, len) \<and>
       push_at (rx_base sm) bs (mc_memory m) = Some (r, mc_memory m'))"
proof (cases "rx_ring sm")
  case (Inr ring)
  obtain base len where ring: "ring = (base, len)" by fastforce
  obtain r mem where p: "push_at base bs (mc_memory m) = Some (r, mem)"
    and m': "(res, m') = (case r of
        Inl e \<Rightarrow> (Inl (MappedRing (mapped_ring_error_display e)), m\<lparr>mc_memory := mem\<rparr>)
      | Inr _ \<Rightarrow> signal_rx_frame api sm (m\<lparr>mc_memory := mem\<rparr>))"
    using assms(2,3) Inr ring
    by (auto simp: windows_push_rx_bytes_def bind_eq_Some_conv Let_def)
  have "mc_memory m' = mem"
    using m' signal_memory [OF assms(1), of sm "m\<lparr>mc_memory := mem\<rparr>"]
    by (cases r) (auto simp: prod_eq_iff)
  then show ?thesis
    using p Inr ring rx_ring_Inr by blast
qed (use assms in \<open>simp add: windows_push_rx_bytes_def\<close>)

lemma windows_poll_memory:
  assumes "wb_shared_memory wb = Some sm" and "windows_poll_tx_frame wb m = Some (res, m')"
  shows "mc_memory m' = mc_memory m \<or>
    (\<exists>len r. tx_ring sm = Inr (tx_base sm, len) \<and>
       pop_at (tx_base sm) (unat (wb_max_frame_size wb)) (mc_memory m) = Some (r, mc_memory m'))"
proof (cases "tx_ring sm")
  case (Inr ring)
  obtain base len where ring: "ring = (base, len)" by fastforce
  show ?thesis
    using assms Inr ring tx_ring_Inr [of sm base len]
    by (auto simp: windows_poll_tx_frame_def bind_eq_Some_conv Let_def)
qed (use assms in \<open>simp add: windows_poll_tx_frame_def\<close>)


section \<open>Two rings side by side\<close>

definition rings_apart :: "shared_memory_mapping \<Rightarrow> bool" where
  "rings_apart sm \<longleftrightarrow> rx_base sm + RING_MAPPING_SIZE \<le> tx_base sm \<or>
     tx_base sm + RING_MAPPING_SIZE \<le> rx_base sm"

text \<open>The frames the daemon has written for the driver, and those the driver has written for it.\<close>

definition mapping_holds :: "shared_memory_mapping \<Rightarrow> (nat \<Rightarrow> u8) \<Rightarrow> bytes list \<Rightarrow> bytes list \<Rightarrow> bool" where
  "mapping_holds sm mem rxs txs \<longleftrightarrow>
     ring_holds (load_ring mem (rx_base sm)) rxs \<and> ring_holds (load_ring mem (tx_base sm)) txs"

lemma ring_holds_cong:
  assumes "\<And>a. base \<le> a \<Longrightarrow> a < base + RING_MAPPING_SIZE \<Longrightarrow> mem' a = mem a"
  shows "ring_holds (load_ring mem' base) fs \<longleftrightarrow> ring_holds (load_ring mem base) fs"
proof -
  have "load_bytes mem' base 8 = load_bytes mem base 8"
    "load_bytes mem' (base + 8) 8 = load_bytes mem (base + 8) 8"
    by (rule load_bytes_cong, rule assms; simp add: mapping_size)+
  moreover have "mem' (base + 16 + i mod RING_BUFFER_SIZE) = mem (base + 16 + i mod RING_BUFFER_SIZE)" for i
    by (rule assms) (simp_all add: mapping_size)
  ultimately show ?thesis
    by (simp add: ring_holds_def load_ring_def seg_def)
qed

lemma push_at_apart:
  assumes "push_at base bs mem = Some (r, mem')"
    and "base + RING_MAPPING_SIZE \<le> other \<or> other + RING_MAPPING_SIZE \<le> base"
  shows "ring_holds (load_ring mem' other) fs \<longleftrightarrow> ring_holds (load_ring mem other) fs"
  by (rule ring_holds_cong) (use assms(2) push_at_footprint [OF assms(1)] in fastforce)

lemma pop_at_apart:
  assumes "pop_at base n mem = Some (r, mem')"
    and "base + RING_MAPPING_SIZE \<le> other \<or> other + RING_MAPPING_SIZE \<le> base"
  shows "ring_holds (load_ring mem' other) fs \<longleftrightarrow> ring_holds (load_ring mem other) fs"
  by (rule ring_holds_cong)
    (use assms(2) pop_at_footprint [OF assms(1)] in \<open>fastforce simp: mapping_size\<close>)

lemma windows_push_channel:
  assumes keeps: "set_event_keeps_memory api" and sm: "wb_shared_memory wb = Some sm"
    and rx: "rx_ring sm = Inr rx" and apart: "rings_apart sm"
    and holds: "mapping_holds sm (mc_memory m) rxs txs"
    and life: "unat (ring_head (load_ring (mc_memory m) (rx_base sm))) + 4 + length bs < 2 ^ 64"
  shows "if length (ring_bytes rxs) + 4 + length bs \<le> RING_BUFFER_SIZE
     then \<exists>res m1. windows_push_rx_bytes api wb bs m = Some (res, m1) \<and>
       mapping_holds sm (mc_memory m1) (rxs @ [bs]) txs
     else \<exists>e. windows_push_rx_bytes api wb bs m = Some (Inl e, m)"
proof -
  obtain base n where ring: "rx = (base, n)" and base: "base = rx_base sm"
    using rx rx_ring_Inr by (metis prod.exhaust)
  note push_def = windows_push_rx_bytes_def sm rx ring base Let_def
  have rxs: "ring_holds (load_ring (mc_memory m) (rx_base sm)) rxs"
    and txs: "ring_holds (load_ring (mc_memory m) (tx_base sm)) txs"
    using holds by (simp_all add: mapping_holds_def)
  show ?thesis
  proof (cases "length (ring_bytes rxs) + 4 + length bs \<le> RING_BUFFER_SIZE")
    case True
    then have "ring_has_room (load_ring (mc_memory m) (rx_base sm)) rxs bs"
      by (simp add: ring_has_room_def)
    from mapped.push_room [OF rxs this life] obtain mem
      where p: "push_at (rx_base sm) bs (mc_memory m) = Some (Inr (), mem)"
        "ring_holds (load_ring mem (rx_base sm)) (rxs @ [bs])" by blast
    obtain res m1 where s: "signal_rx_frame api sm (m\<lparr>mc_memory := mem\<rparr>) = (res, m1)" by fastforce
    then have "mc_memory m1 = mem"
      using signal_memory [OF keeps, of sm "m\<lparr>mc_memory := mem\<rparr>"] by simp
    moreover have "ring_holds (load_ring mem (tx_base sm)) txs"
      using push_at_apart [OF p(1)] apart txs by (simp add: rings_apart_def)
    moreover have "windows_push_rx_bytes api wb bs m = Some (res, m1)"
      using p(1) s by (simp add: push_def)
    ultimately show ?thesis
      using True p(2) by (auto simp: mapping_holds_def)
  next
    case False
    then have "\<not> ring_has_room (load_ring (mc_memory m) (rx_base sm)) rxs bs"
      by (simp add: ring_has_room_def)
    from mapped.push_no_room [OF rxs this] obtain e
      where "push_at (rx_base sm) bs (mc_memory m) = Some (Inl e, mc_memory m)" by blast
    then show ?thesis
      using False by (simp add: push_def)
  qed
qed

lemma windows_poll_channel:
  assumes sm: "wb_shared_memory wb = Some sm"
    and tx: "tx_ring sm = Inr tx" and apart: "rings_apart sm"
    and holds: "mapping_holds sm (mc_memory m) rxs txs"
  shows "case txs of
      [] \<Rightarrow> windows_poll_tx_frame wb m = Some (Inr None, m)
    | f # fs \<Rightarrow>
        if length f \<le> unat (wb_max_frame_size wb)
        then \<exists>m1. windows_poll_tx_frame wb m =
            Some (case frame_decode f of Inl e \<Rightarrow> Inl (MalformedTxFrame e) | Inr g \<Rightarrow> Inr (Some g), m1) \<and>
          mapping_holds sm (mc_memory m1) rxs fs
        else \<exists>e. windows_poll_tx_frame wb m = Some (Inl e, m)"
proof -
  let ?max = "unat (wb_max_frame_size wb)"
  obtain base n where ring: "tx = (base, n)" and base: "base = tx_base sm"
    using tx tx_ring_Inr by (metis prod.exhaust)
  note poll_def = windows_poll_tx_frame_def sm tx ring base Let_def
  have rxs: "ring_holds (load_ring (mc_memory m) (rx_base sm)) rxs"
    and txs: "ring_holds (load_ring (mc_memory m) (tx_base sm)) txs"
    using holds by (simp_all add: mapping_holds_def)
  show ?thesis
  proof (cases txs)
    case Nil
    then show ?thesis
      using mapped.pop_empty [of "mc_memory m" "tx_base sm" ?max] txs by (simp add: poll_def)
  next
    case (Cons f fs)
    show ?thesis
    proof (cases "length f \<le> ?max")
      case True
      from mapped.pop_fits [OF txs [unfolded Cons] this] obtain mem
        where p: "pop_at (tx_base sm) ?max (mc_memory m) = Some (Inr (Some f), mem)"
          "ring_holds (load_ring mem (tx_base sm)) fs" by blast
      moreover have "ring_holds (load_ring mem (rx_base sm)) rxs"
        using pop_at_apart [OF p(1)] apart rxs by (auto simp: rings_apart_def)
      ultimately show ?thesis
        using True Cons by (auto simp: poll_def mapping_holds_def)
    next
      case False
      then obtain e where "pop_at (tx_base sm) ?max (mc_memory m) = Some (Inl e, mc_memory m)"
        using mapped.pop_long [OF txs [unfolded Cons]] by (metis not_le)
      then show ?thesis
        using False Cons by (simp add: poll_def)
    qed
  qed
qed

text \<open>
  C20: with two rings that do not overlap the backend is a pair of independent, reliable
  channels: pushing a frame puts it behind the frames for the driver and leaves those for
  the daemon as they are, or refuses it and changes nothing, exactly when it does not fit;
  polling hands out the oldest frame for the daemon, decoded, and leaves those for the
  driver; a frame longer than the session's maximum is refused and stays. Nothing panics.
\<close>

theorem windows_rings_independent:
  assumes "set_event_keeps_memory api" and "wb_shared_memory wb = Some sm"
    and "rx_ring sm = Inr rx" and "tx_ring sm = Inr tx" and "rings_apart sm"
    and "mapping_holds sm (mc_memory m) rxs txs"
    and "unat (ring_head (load_ring (mc_memory m) (rx_base sm))) + 4 + length bs < 2 ^ 64"
  shows "(if length (ring_bytes rxs) + 4 + length bs \<le> RING_BUFFER_SIZE
      then \<exists>res m1. windows_push_rx_bytes api wb bs m = Some (res, m1) \<and>
        mapping_holds sm (mc_memory m1) (rxs @ [bs]) txs
      else \<exists>e. windows_push_rx_bytes api wb bs m = Some (Inl e, m)) \<and>
    (case txs of
       [] \<Rightarrow> windows_poll_tx_frame wb m = Some (Inr None, m)
     | f # fs \<Rightarrow>
         if length f \<le> unat (wb_max_frame_size wb)
         then \<exists>m1. windows_poll_tx_frame wb m =
             Some (case frame_decode f of Inl e \<Rightarrow> Inl (MalformedTxFrame e) | Inr g \<Rightarrow> Inr (Some g), m1) \<and>
           mapping_holds sm (mc_memory m1) rxs fs
         else \<exists>e. windows_poll_tx_frame wb m = Some (Inl e, m))"
  using windows_push_channel [OF assms(1-3,5-7)] windows_poll_channel [OF assms(2,4-6)] by (rule conjI)

section \<open>A machine to try it on\<close>

text \<open>An API that does nothing, and a backend with two rings, or with one ring twice.\<close>

definition quiet_api :: "unit windows_api" where
  "quiet_api =
     \<lparr>win_create_file = (\<lambda>_ _ _ _ _ m. (1, m)), win_device_io_control = (\<lambda>_ _ _ _ m. ((1, 0, []), m)),
      win_close_handle = (\<lambda>_ m. m), win_map_view_of_file = (\<lambda>_ _ _ m. (4096, m)),
      win_unmap_view_of_file = (\<lambda>_ m. m), win_wait_for_single_object = (\<lambda>_ _ m. (0, m)),
      win_set_event = (\<lambda>_ m. (1, m)), win_last_error = (\<lambda>_. 0)\<rparr>"

definition two_rings :: "u32 \<Rightarrow> u32 \<Rightarrow> shared_memory_mapping" where
  "two_rings tx rx =
     \<lparr>mp_section = 1, mp_tx_event = None, mp_rx_event = None, mp_view = 4096, mp_mapping_size = 0x300000,
      mp_tx_ring_offset = tx, mp_rx_ring_offset = rx\<rparr>"

definition mapped_backend :: "u32 \<Rightarrow> u32 \<Rightarrow> windows_backend" where
  "mapped_backend tx rx =
     \<lparr>wb_device_path = ''device'', wb_handle = 1, wb_session_id = 1, wb_max_frame_size = 65536,
      wb_shared_memory = Some (two_rings tx rx)\<rparr>"

definition zero_machine :: "unit machine" where
  "zero_machine = \<lparr>mc_memory = (\<lambda>_. 0), mc_os = ()\<rparr>"

lemma quiet_keeps_memory [simp]: "set_event_keeps_memory quiet_api"
  by (simp add: set_event_keeps_memory_def quiet_api_def)

lemma load_zero_ring: "load_ring (\<lambda>_. 0) base = \<lparr>ring_head = 0, ring_tail = 0, ring_data = (\<lambda>_. 0)\<rparr>"
proof -
  have "load_bytes (\<lambda>_. 0) a 8 = replicate 8 0" for a
    by (intro load_bytes_eqI) simp_all
  then show ?thesis by (simp add: load_ring_def numeral_eq_Suc)
qed

lemma zero_machine_holds: "mapping_holds sm (mc_memory zero_machine) [] []"
  by (simp add: mapping_holds_def zero_machine_def load_zero_ring ring_holds_def seg_def)

lemma two_rings_ok:
  "\<exists>rx tx. rx_ring (two_rings 32 0x180000) = Inr rx \<and> tx_ring (two_rings 32 0x180000) = Inr tx"
  "rings_apart (two_rings 32 0x180000)"
  by (simp_all add: rx_ring_def tx_ring_def mapping_ring_def mapped_ring_new_def two_rings_def
      mapping_size RING_BUFFER_SIZE_def rings_apart_def)

theorem windows_rings_independent_witness:
  "(\<exists>res m1. windows_push_rx_bytes quiet_api (mapped_backend 32 0x180000) [1, 2] zero_machine = Some (res, m1) \<and>
     mapping_holds (two_rings 32 0x180000) (mc_memory m1) [[1, 2]] []) \<and>
   windows_poll_tx_frame (mapped_backend 32 0x180000) zero_machine = Some (Inr None, zero_machine)"
proof -
  obtain rx tx where rings: "rx_ring (two_rings 32 0x180000) = Inr rx" "tx_ring (two_rings 32 0x180000) = Inr tx"
    using two_rings_ok(1) by blast
  have sm: "wb_shared_memory (mapped_backend 32 0x180000) = Some (two_rings 32 0x180000)"
    by (simp add: mapped_backend_def)
  from windows_rings_independent [OF quiet_keeps_memory sm rings two_rings_ok(2) zero_machine_holds, of "[1, 2]"]
  show ?thesis
    by (simp add: zero_machine_def load_zero_ring RING_BUFFER_SIZE_def)
qed


section \<open>What the checks of the mapping leave open\<close>

text \<open>
  A header whose two rings are the same one passes the checks, and the rings are placed by
  the offsets of the other structure, the driver's answer, which are not compared with it.
\<close>

lemma overlapping_rings_accepted:
  "shared_memory_header_validate
     \<lparr>sm_magic = SHARED_MEMORY_MAGIC, sm_version = 1, sm_header_size = 28, sm_mapping_size = 0x300000,
      sm_tx_ring_offset = 32, sm_rx_ring_offset = 32, sm_tx_ring_size = 0x100010,
      sm_rx_ring_size = 0x100010\<rparr> = Inr ()"
  by (simp add: shared_memory_header_validate_def SHARED_MEMORY_VERSION_def SHARED_MEMORY_HEADER_SIZE_def
      RING_ALIGNMENT_def saturating_add32_def)

text \<open>With one ring for both directions the daemon reads its own frame back.\<close>

lemma overlapping_rings_echo:
  assumes "rx_ring (two_rings o1 o1) = Inr rx" and "length bs \<le> 65536"
  shows "\<exists>res m1 m2. windows_push_rx_bytes quiet_api (mapped_backend o1 o1) bs zero_machine = Some (res, m1) \<and>
    windows_poll_tx_frame (mapped_backend o1 o1) m1 =
      Some (case frame_decode bs of Inl e \<Rightarrow> Inl (MalformedTxFrame e) | Inr g \<Rightarrow> Inr (Some g), m2)"
proof -
  let ?sm = "two_rings o1 o1"
  obtain b n where "rx = (b, n)" by fastforce
  then have rx: "rx_ring ?sm = Inr (rx_base ?sm, n)" and tx: "tx_ring ?sm = Inr (rx_base ?sm, n)"
    using assms(1) by (auto simp: rx_ring_def tx_ring_def two_rings_def mapping_ring_Inr)
  have sm: "wb_shared_memory (mapped_backend o1 o1) = Some ?sm" by (simp add: mapped_backend_def)
  have "ring_holds (load_ring (mc_memory zero_machine) (rx_base ?sm)) []"
    using zero_machine_holds [of ?sm] by (simp add: mapping_holds_def)
  moreover have "ring_has_room (load_ring (mc_memory zero_machine) (rx_base ?sm)) [] bs"
    using assms(2) by (simp add: ring_has_room_def RING_BUFFER_SIZE_def)
  moreover have "unat (ring_head (load_ring (mc_memory zero_machine) (rx_base ?sm))) + 4 + length bs < 2 ^ 64"
    using assms(2) by (simp add: zero_machine_def load_zero_ring)
  ultimately obtain mem where push: "push_at (rx_base ?sm) bs (mc_memory zero_machine) = Some (Inr (), mem)"
    and holds: "ring_holds (load_ring mem (rx_base ?sm)) [bs]"
    using mapped.push_room [of "mc_memory zero_machine" "rx_base ?sm" "[]" bs] by auto
  obtain mem2 where pop: "pop_at (rx_base ?sm) 65536 mem = Some (Inr (Some bs), mem2)"
    using mapped.pop_fits [OF holds assms(2)] by blast
  have "mp_rx_event ?sm = None" "wb_max_frame_size (mapped_backend o1 o1) = 65536"
    by (simp_all add: two_rings_def mapped_backend_def)
  then show ?thesis
    using push pop
    by (simp add: windows_push_rx_bytes_def windows_poll_tx_frame_def sm rx tx signal_rx_frame_def Let_def)
qed

text \<open>
  The reader trusts the counters: when they differ by more than the ring holds and the
  length prefix is larger than the ring, which the session's maximum frame size alone
  bounds, the second part of the copy runs past the end of the ring's data.
\<close>

lemma read_wrapped_last:
  assumes "RING_BUFFER_SIZE - a mod RING_BUFFER_SIZE < len"
  shows "read_wrapped data a len ! (len - 1) = data (len - 1 - (RING_BUFFER_SIZE - a mod RING_BUFFER_SIZE))"
proof -
  let ?n = "RING_BUFFER_SIZE - a mod RING_BUFFER_SIZE"
  have "read_wrapped data a len = read_at data (a mod RING_BUFFER_SIZE) ?n @ read_at data 0 (len - ?n)"
    using assms by (auto simp: read_wrapped_def Let_def)
  moreover have "length (read_at data (a mod RING_BUFFER_SIZE) ?n) = ?n"
    "length (read_at data 0 (len - ?n)) = len - ?n"
    by (simp_all add: read_at_def)
  moreover have "read_at data 0 (len - ?n) ! (len - 1 - ?n) = data (len - 1 - ?n)"
    using assms by (simp add: read_at_def)
  moreover have "\<not> len - 1 < ?n" using assms by linarith
  ultimately show ?thesis
    by (simp only: nth_append if_False)
qed

lemma pop_frame_overreads:
  assumes "unat (ring_tail r) + 4 + len \<le> unat (ring_head r)" and "len \<le> max_len"
    and "unat (be_word (read_wrapped (ring_data r) (unat (ring_tail r)) 4) :: u32) = len"
    and "2 * RING_BUFFER_SIZE < len"
  shows "\<exists>f r' i. pop_frame max_len r = Some (Inr (Some f), r') \<and> length f = len \<and>
    f ! (len - 1) = ring_data r i \<and> RING_BUFFER_SIZE \<le> i"
proof -
  let ?off = "unat (ring_tail r) + 4"
  let ?f = "read_wrapped (ring_data r) ?off len"
  have "?off mod RING_BUFFER_SIZE < RING_BUFFER_SIZE" by simp
  then have n: "RING_BUFFER_SIZE - ?off mod RING_BUFFER_SIZE < len"
    and i: "RING_BUFFER_SIZE \<le> len - 1 - (RING_BUFFER_SIZE - ?off mod RING_BUFFER_SIZE)"
    using assms(4) by linarith+
  have "unat (ring_tail r) + (4 + len) < 18446744073709551616"
    using assms(1) unat_less_2p64 [of "ring_head r"] by linarith
  then have "\<exists>r'. pop_frame max_len r = Some (Inr (Some ?f), r')"
    using assms(1-3) by (simp add: pop_frame_def checked_sub_def checked_add64_def Let_def)
  moreover have "length ?f = len"
    using n by (auto simp: read_wrapped_def read_at_def Let_def)
  ultimately show ?thesis
    using read_wrapped_last [OF n, of "ring_data r"] i by blast
qed

end
