(* ===== verification/Daemon_Config.thy ===== *)
theory Daemon_Config imports Daemon_Session Text_Format begin

text \<open>
  The daemon's configuration, read from the environment: \<open>daemon/src/config.rs\<close>. The
  process's arguments and variables are a record, and the parser of socket addresses, which
  is library code, is a parameter. An error is its text. The reading of the environment is
  shared with the client's configuration.
\<close>

section \<open>The environment\<close>

record process_env =
  pe_args :: "string list"
  pe_vars :: "string \<Rightarrow> string option"

definition env_flag :: "process_env \<Rightarrow> string \<Rightarrow> bool" where
  "env_flag pe name =
     (case pe_vars pe name of
        None \<Rightarrow> False
      | Some v \<Rightarrow> to_ascii_lowercase v \<in> {''1'', ''true'', ''yes'', ''on''})"

text \<open>\<open>env::args().nth(1)\<close>, else the variable, else the default.\<close>

definition address_text :: "process_env \<Rightarrow> string \<Rightarrow> string \<Rightarrow> string" where
  "address_text pe name fallback =
     (case pe_args pe of
        _ # a # _ \<Rightarrow> a
      | _ \<Rightarrow> (case pe_vars pe name of Some v \<Rightarrow> v | None \<Rightarrow> fallback))"

text \<open>\<open>.ok().map(f).transpose()?\<close>: an unset variable is no error.\<close>

definition env_parse :: "process_env \<Rightarrow> string \<Rightarrow> (string \<Rightarrow> string + 'a) \<Rightarrow> string + 'a option" where
  "env_parse pe name f =
     (case pe_vars pe name of None \<Rightarrow> Inr None | Some v \<Rightarrow> map_sum id Some (f v))"

definition unwrap_or :: "'a option \<Rightarrow> 'a \<Rightarrow> 'a" where
  "unwrap_or x d = (case x of None \<Rightarrow> d | Some y \<Rightarrow> y)"

definition parse_int :: "nat \<Rightarrow> nat \<Rightarrow> string \<Rightarrow> string + nat" where
  "parse_int radix hi s = map_sum int_error_display id (parse_unsigned radix hi s)"

text \<open>\<open>collect::<Result<Vec<_>, _>>()\<close>: the first error, or all the results.\<close>

fun collect_results :: "('e + 'a) list \<Rightarrow> 'e + 'a list" where
  "collect_results [] = Inr []"
| "collect_results (r # rs) = and_then r (\<lambda>x. and_then (collect_results rs) (\<lambda>xs. Inr (x # xs)))"

definition split_once :: "char \<Rightarrow> string \<Rightarrow> (string \<times> string) option" where
  "split_once c s =
     (case dropWhile (\<lambda>x. x \<noteq> c) s of
        [] \<Rightarrow> None | _ # rest \<Rightarrow> Some (takeWhile (\<lambda>x. x \<noteq> c) s, rest))"

section \<open>The daemon\<close>

datatype daemon_protocol_mode = WhyMode | UsbIpMode

definition daemon_protocol_mode_from_env_value :: "string \<Rightarrow> string + daemon_protocol_mode" where
  "daemon_protocol_mode_from_env_value value =
     (let other = to_ascii_lowercase value
      in if other \<in> {''why'', ''why-usb'', ''mock''} then Inr WhyMode
         else if other \<in> {''usbip'', ''usb/ip'', ''vhci'', ''vhci-hcd''} then Inr UsbIpMode
         else Inl (''unsupported WHY_USB_DAEMON_PROTOCOL value: '' @ other))"

datatype driver_backend_kind = MockDriver | WindowsDriver

definition driver_backend_kind_from_env_value :: "string \<Rightarrow> string + driver_backend_kind" where
  "driver_backend_kind_from_env_value value =
     (let other = to_ascii_lowercase value
      in if other = ''mock'' then Inr MockDriver
         else if other \<in> {''windows'', ''win'', ''ioctl''} then Inr WindowsDriver
         else Inl (''unsupported WHY_USB_DRIVER_BACKEND value: '' @ other))"

text \<open>
  Numbers are read as hexadecimal first, and as decimal when that fails.
\<close>

definition parse_u16 :: "string option \<Rightarrow> string \<Rightarrow> string + u16" where
  "parse_u16 value field =
     (case value of
        None \<Rightarrow> Inl (''missing '' @ field)
      | Some v \<Rightarrow>
          map_sum int_error_display of_nat
            (case parse_unsigned 16 65535 (trim_start_matches ''0x'' v) of
               Inr n \<Rightarrow> Inr n | Inl _ \<Rightarrow> parse_unsigned 10 65535 v))"

definition parse_u8 :: "string \<Rightarrow> string \<Rightarrow> string + u8" where
  "parse_u8 v field =
     map_sum (\<lambda>e. ''invalid '' @ field @ '': '' @ int_error_display e) of_nat
       (case parse_unsigned 16 255 (trim_start_matches ''0x'' v) of
          Inr n \<Rightarrow> Inr n | Inl _ \<Rightarrow> parse_unsigned 10 255 v)"

definition nth_part :: "string list \<Rightarrow> nat \<Rightarrow> string option" where
  "nth_part parts i = (if i < length parts then Some (parts ! i) else None)"

definition parse_attach_device :: "process_env \<Rightarrow> string \<Rightarrow> string + device_attach_request" where
  "parse_attach_device pe value =
     (let parts = split_on (CHR '':'') value
      in and_then (parse_u16 (nth_part parts 0) ''vendor id'') (\<lambda>vendor_id.
         and_then (parse_u16 (nth_part parts 1) ''product id'') (\<lambda>product_id.
         and_then (parse_u8 (unwrap_or (nth_part parts 2) ''0'') ''bus id'') (\<lambda>bus_id.
         and_then (parse_u8 (unwrap_or (nth_part parts 3) ''0'') ''port id'') (\<lambda>port_id.
         if nth_part parts 4 \<noteq> None
         then Inl ''WHY_USB_ATTACH_DEVICE must be vid:pid[:bus[:port]]''
         else and_then (env_parse pe ''WHY_USB_ATTACH_FLAGS''
                (\<lambda>v. parse_u16 (Some v) ''attach flags'')) (\<lambda>flags.
              Inr \<lparr>da_vendor_id = vendor_id, da_product_id = product_id, da_bus_id = bus_id,
                   da_port_id = port_id, da_flags = unwrap_or flags 0\<rparr>))))))"

definition parse_hid_keycode :: "string \<Rightarrow> string + u8" where
  "parse_hid_keycode value =
     (let lower = to_ascii_lowercase value
      in if lower \<in> {''enter'', ''return''} then Inr 0x28
         else if lower \<in> {''escape'', ''esc''} then Inr 0x29
         else if lower = ''backspace'' then Inr 0x2a
         else if lower = ''tab'' then Inr 0x2b
         else if lower = ''space'' then Inr 0x2c
         else case lower of
           [c] \<Rightarrow>
             let b = (of_char c :: nat)
             in if 97 \<le> b \<and> b \<le> 122 then Inr (KEY_A + of_nat (b - 97))
                else parse_u8 value ''HID keycode''
         | _ \<Rightarrow> parse_u8 value ''HID keycode'')"

text \<open>The parts of a comma-separated list, without blanks around them and without empty ones.\<close>

definition list_parts :: "string \<Rightarrow> string list" where
  "list_parts value = filter (\<lambda>part. part \<noteq> []) (map trim (split_on (CHR '','') value))"

definition parse_hid_keycodes :: "string \<Rightarrow> string + bytes" where
  "parse_hid_keycodes value =
     and_then (collect_results (map parse_hid_keycode (list_parts value))) (\<lambda>keycodes.
       if keycodes = [] then Inl ''WHY_USB_MOCK_HID_KEYS must include at least one key''
       else Inr keycodes)"

definition parse_mock_transfer_outcome_value :: "string \<Rightarrow> string + mock_transfer_outcome" where
  "parse_mock_transfer_outcome_value value =
     (let lower = to_ascii_lowercase value
      in case strip_prefix ''short:'' lower of
           Some len \<Rightarrow> map_sum id ShortPacket (parse_int 10 18446744073709551615 len)
         | None \<Rightarrow>
             if lower = ''ok'' then Inr (OutcomeStatus Ok)
             else if lower \<in> {''failed'', ''fail'', ''error''} then Inr (OutcomeStatus Failed)
             else if lower \<in> {''cancelled'', ''canceled'', ''cancel''} then Inr (OutcomeStatus Cancelled)
             else if lower = ''timeout'' then Inr (OutcomeStatus Timeout)
             else if lower \<in> {''stall'', ''stalled''} then Inr (OutcomeStatus Stall)
             else if lower = ''reset'' then Inr (OutcomeStatus Reset)
             else Inl (''unsupported mock transfer outcome: '' @ value))"

definition parse_mock_transfer_outcome :: "string \<Rightarrow> string + mock_transfer_outcome_rule" where
  "parse_mock_transfer_outcome value =
     and_then (ok_or ''mock transfer outcome must be request_id=outcome'' (split_once (CHR ''='') value))
       (\<lambda>(request_id, outcome).
     and_then (parse_int 10 18446744073709551615 (trim request_id)) (\<lambda>request_id.
     and_then (parse_mock_transfer_outcome_value (trim outcome)) (\<lambda>outcome.
       Inr \<lparr>mo_request_id = of_nat request_id, mo_outcome = outcome\<rparr>)))"

definition parse_mock_transfer_outcomes :: "string \<Rightarrow> string + mock_transfer_outcome_rule list" where
  "parse_mock_transfer_outcomes value =
     collect_results (map parse_mock_transfer_outcome (list_parts value))"

record 'a daemon_config =
  dc_bind_addr :: 'a
  dc_protocol_mode :: daemon_protocol_mode
  dc_driver_backend :: driver_backend_kind
  dc_driver_device_path :: string
  dc_map_shared_memory :: bool
  dc_attach_device :: "device_attach_request option"
  dc_mock_hid_keycodes :: bytes
  dc_mock_transfer_outcomes :: "mock_transfer_outcome_rule list"

definition daemon_config_from_env ::
  "(string \<Rightarrow> string + 'a) \<Rightarrow> process_env \<Rightarrow> string + 'a daemon_config" where
  "daemon_config_from_env parse_addr pe =
     and_then (parse_addr (address_text pe ''WHY_USB_BIND_ADDR'' ''0.0.0.0:3000'')) (\<lambda>bind_addr.
     and_then (env_parse pe ''WHY_USB_DAEMON_PROTOCOL'' daemon_protocol_mode_from_env_value) (\<lambda>mode.
     and_then (env_parse pe ''WHY_USB_DRIVER_BACKEND'' driver_backend_kind_from_env_value) (\<lambda>backend.
     and_then (env_parse pe ''WHY_USB_ATTACH_DEVICE'' (parse_attach_device pe)) (\<lambda>attach.
     and_then (env_parse pe ''WHY_USB_MOCK_HID_KEYS'' parse_hid_keycodes) (\<lambda>keys.
     and_then (env_parse pe ''WHY_USB_MOCK_TRANSFER_OUTCOMES'' parse_mock_transfer_outcomes) (\<lambda>outcomes.
       Inr \<lparr>dc_bind_addr = bind_addr, dc_protocol_mode = unwrap_or mode WhyMode,
            dc_driver_backend = unwrap_or backend MockDriver,
            dc_driver_device_path =
              unwrap_or (pe_vars pe ''WHY_USB_DRIVER_DEVICE'') (CHR 0x5C # CHR 0x5C # ''.'' @ CHR 0x5C # ''why_usb_vhci''),
            dc_map_shared_memory = env_flag pe ''WHY_USB_MAP_SHARED_MEMORY'',
            dc_attach_device = attach, dc_mock_hid_keycodes = unwrap_or keys [KEY_A],
            dc_mock_transfer_outcomes = unwrap_or outcomes []\<rparr>))))))"

end
