(* ===== verification/Client_Config.thy ===== *)
theory Client_Config imports Daemon_Config Client_Vhci begin

text \<open>
  The client's configuration, \<open>client/src/config.rs\<close>. Its \<open>env_flag\<close> is the daemon's.
\<close>

definition vhci_backend_kind_from_env_value :: "string \<Rightarrow> string + vhci_backend_kind" where
  "vhci_backend_kind_from_env_value value =
     (let other = to_ascii_lowercase value
      in if other = ''mock'' then Inr MockBackend
         else if other \<in> {''linux'', ''vhci'', ''vhci-hcd''} then Inr LinuxBackend
         else Inl (''unsupported WHY_USB_VHCI_BACKEND value: '' @ other))"

definition parse_u32 :: "string \<Rightarrow> string + u32" where
  "parse_u32 value =
     map_sum id of_nat
       (case strip_prefix ''0x'' value of
          Some hex \<Rightarrow> parse_int 16 4294967295 hex
        | None \<Rightarrow> parse_int 10 4294967295 value)"

text \<open>The interval is in milliseconds.\<close>

record 'a client_settings =
  cs_server_addr :: 'a
  cs_vhci_backend :: vhci_backend_kind
  cs_vhci_probe_only :: bool
  cs_vhci_device_id :: u32
  cs_mock_frame_limit :: "u64 option"
  cs_mock_frame_interval :: u64
  cs_mock_bulk_payload_len :: "nat option"

definition client_config_from_env ::
  "(string \<Rightarrow> string + 'a) \<Rightarrow> process_env \<Rightarrow> string + 'a client_settings" where
  "client_config_from_env parse_addr pe =
     and_then (parse_addr (address_text pe ''WHY_USB_SERVER_ADDR'' ''127.0.0.1:3000'')) (\<lambda>server_addr.
     and_then (env_parse pe ''WHY_USB_VHCI_BACKEND'' vhci_backend_kind_from_env_value) (\<lambda>backend.
     and_then (env_parse pe ''WHY_USB_VHCI_DEVID'' parse_u32) (\<lambda>device_id.
     and_then (env_parse pe ''WHY_USB_MOCK_FRAME_LIMIT'' (parse_int 10 18446744073709551615)) (\<lambda>limit.
     and_then (env_parse pe ''WHY_USB_MOCK_FRAME_INTERVAL_MS'' (parse_int 10 18446744073709551615)) (\<lambda>interval.
     and_then (env_parse pe ''WHY_USB_MOCK_BULK_BYTES'' (parse_int 10 18446744073709551615)) (\<lambda>bulk.
       Inr \<lparr>cs_server_addr = server_addr, cs_vhci_backend = unwrap_or backend MockBackend,
            cs_vhci_probe_only = env_flag pe ''WHY_USB_VHCI_PROBE_ONLY'',
            cs_vhci_device_id = unwrap_or device_id 0x00010001,
            cs_mock_frame_limit = map_option of_nat limit,
            cs_mock_frame_interval = of_nat (unwrap_or interval 5000),
            cs_mock_bulk_payload_len = bulk\<rparr>))))))"

end
