(* ===== verification/Config_Properties.thy ===== *)
theory Config_Properties imports Client_Config begin

text \<open>
  What the parsers of the configurations accept: the device to attach is read back from its
  hexadecimal text, a decimal number is read as the hexadecimal number of the same digits
  when that fits, and the accepted configurations are complete.
\<close>

section \<open>Hexadecimal numbers\<close>

text \<open>A number as users write it: with or without \<open>0x\<close>, with leading zeros or without.\<close>

definition hex_text :: "bool \<Rightarrow> nat \<Rightarrow> nat \<Rightarrow> string" where
  "hex_text prefixed width n = (if prefixed then ''0x'' else []) @ pad_zero width (show_radix 16 n)"

lemma digit_char_ne:
  "d < 16 \<Longrightarrow> digit_char d \<noteq> CHR ''x''" "d < 16 \<Longrightarrow> digit_char d \<noteq> CHR '':''"
proof -
  have "(of_char (digit_char d) :: nat) = (if d < 10 then 48 + d else 87 + d)" if "d < 16"
    using that by (simp add: digit_char_def)
  then show "d < 16 \<Longrightarrow> digit_char d \<noteq> CHR ''x''" "d < 16 \<Longrightarrow> digit_char d \<noteq> CHR '':''"
    by (auto split: if_splits)
qed

lemma padded_chars:
  assumes "c \<in> set (pad_zero k (show_radix radix n))" and "2 \<le> radix" and "radix \<le> 16"
  shows "c \<noteq> CHR ''x''" and "c \<noteq> CHR '':''"
proof -
  have "c = CHR ''0'' \<or> (\<exists>d < radix. c = digit_char d)"
    using assms(1,2) show_radix_set [of radix c n] by (auto simp: pad_zero_def split: if_splits)
  then consider "c = CHR ''0''" | d where "d < 16" "c = digit_char d"
    using assms(3) less_le_trans by blast
  then show "c \<noteq> CHR ''x''" and "c \<noteq> CHR '':''"
    by (cases; simp add: digit_char_ne)+
qed

lemma trim_start_matches_none:
  assumes "CHR ''x'' \<notin> set s"
  shows "trim_start_matches ''0x'' s = s"
proof -
  have "strip_prefix ''0x'' s = None"
  proof (cases "strip_prefix ''0x'' s")
    case (Some r)
    then show ?thesis using assms by (simp add: strip_prefix_Some)
  qed
  then show ?thesis by (simp add: trim_start_matches.simps [of "''0x''" s])
qed

lemma trim_start_matches_hex [simp]:
  "trim_start_matches ''0x'' (hex_text p k n) = pad_zero k (show_radix 16 n)"
proof -
  let ?s = "pad_zero k (show_radix 16 n)"
  have s: "trim_start_matches ''0x'' ?s = ?s"
    using padded_chars(1) [of _ k 16 n] by (intro trim_start_matches_none) auto
  have "trim_start_matches ''0x'' (''0x'' @ ?s) = trim_start_matches ''0x'' ?s"
    using strip_prefix_append [of "''0x''" ?s] by (subst trim_start_matches.simps) simp
  then show ?thesis using s by (simp add: hex_text_def)
qed

lemma parse_unsigned_hex [simp]:
  "n \<le> hi \<Longrightarrow> parse_unsigned 16 hi (pad_zero k (show_radix 16 n)) = Inr n"
  by (simp add: pad_zero_def parse_unsigned_padded)

lemma unat_bounds [simp]: "unat (b :: u8) \<le> 255" "unat (w :: u16) \<le> 65535"
proof -
  have "unat b < 2 ^ LENGTH(8)" "unat w < 2 ^ LENGTH(16)" by (rule unsigned_less)+
  then show "unat b \<le> 255" "unat w \<le> 65535" by (simp_all add: less_Suc_eq_le [symmetric] del: unsigned_less)
qed

lemma parse_u16_hex [simp]: "parse_u16 (Some (hex_text p k (unat w))) field = Inr w"
  by (simp add: parse_u16_def)

lemma parse_u8_hex [simp]: "parse_u8 (hex_text p k (unat w)) field = Inr w"
  by (simp add: parse_u8_def)

lemma split_on_ne: "c \<notin> set s \<Longrightarrow> split_on c s = [s]"
  using split_pred_none [of s "\<lambda>x. x = c"] by (auto simp: split_on_def)

lemma split_on_Cons: "c \<notin> set s \<Longrightarrow> split_on c (s @ c # rest) = s # split_on c rest"
  using split_pred_none [of s "\<lambda>x. x = c"] split_pred_append [of "\<lambda>x. x = c" c s rest]
  by (auto simp: split_on_def)

lemma colon_hex_text [simp]: "CHR '':'' \<notin> set (hex_text p k n)"
  using padded_chars(2) [of _ k 16 n] by (auto simp: hex_text_def)

section \<open>The device to attach\<close>

fun join :: "char \<Rightarrow> string list \<Rightarrow> string" where
  "join c [] = []"
| "join c [s] = s"
| "join c (s # t # ss) = s @ c # join c (t # ss)"

lemma split_on_join: "ss \<noteq> [] \<Longrightarrow> list_all (\<lambda>s. c \<notin> set s) ss \<Longrightarrow> split_on c (join c ss) = ss"
  by (induction c ss rule: join.induct) (simp_all add: split_on_ne split_on_Cons)

definition device_texts :: "bool \<Rightarrow> nat \<Rightarrow> device_attach_request \<Rightarrow> string list" where
  "device_texts p k d =
     [hex_text p k (unat (da_vendor_id d)), hex_text p k (unat (da_product_id d)),
      hex_text p k (unat (da_bus_id d)), hex_text p k (unat (da_port_id d))]"

definition flags_env :: "process_env \<Rightarrow> string option \<Rightarrow> process_env" where
  "flags_env pe flags = pe\<lparr>pe_vars := (pe_vars pe)(''WHY_USB_ATTACH_FLAGS'' := flags)\<rparr>"

lemma zero_text: "parse_u8 ''0'' field = Inr 0"
  by (simp add: parse_u8_def trim_start_matches_none parse_unsigned_def)

lemmas attach_parts = Let_def nth_part_def unwrap_or_def env_parse_def flags_env_def zero_text

text \<open>
  C21: The string \<open>vid:pid[:bus[:port]]\<close> of a device, its numbers in hexadecimal with or without
  the prefix \<open>0x\<close> and leading zeros, is read as that device: parts that are left out are 0,
  the flags come from their own variable and are 0 when it is not set, and further parts are
  refused.
\<close>

theorem attach_device_read_back:
  "parse_attach_device (flags_env pe (Some (hex_text q j (unat (da_flags d)))))
     (join (CHR '':'') (device_texts p k d)) = Inr d \<and>
   parse_attach_device (flags_env pe None) (join (CHR '':'') (take 3 (device_texts p k d))) =
     Inr (d\<lparr>da_port_id := 0, da_flags := 0\<rparr>) \<and>
   parse_attach_device (flags_env pe None) (join (CHR '':'') (take 2 (device_texts p k d))) =
     Inr (d\<lparr>da_bus_id := 0, da_port_id := 0, da_flags := 0\<rparr>) \<and>
   parse_attach_device pe (join (CHR '':'') (device_texts p k d) @ CHR '':'' # rest) =
     Inl ''WHY_USB_ATTACH_DEVICE must be vid:pid[:bus[:port]]''"
proof -
  have long: "join (CHR '':'') (device_texts p k d) @ CHR '':'' # rest =
      hex_text p k (unat (da_vendor_id d)) @ CHR '':'' # hex_text p k (unat (da_product_id d)) @ CHR '':'' #
      hex_text p k (unat (da_bus_id d)) @ CHR '':'' # hex_text p k (unat (da_port_id d)) @ CHR '':'' # rest"
    by (simp add: device_texts_def)
  have "split_on (CHR '':'') (join (CHR '':'') (device_texts p k d) @ CHR '':'' # rest) =
      device_texts p k d @ split_on (CHR '':'') rest"
    unfolding long device_texts_def by (simp add: split_on_Cons)
  then have four: "parse_attach_device pe (join (CHR '':'') (device_texts p k d) @ CHR '':'' # rest) =
      Inl ''WHY_USB_ATTACH_DEVICE must be vid:pid[:bus[:port]]''"
    by (simp add: parse_attach_device_def device_texts_def attach_parts split_on_def)
  show ?thesis
    by (intro conjI four)
      (simp_all add: parse_attach_device_def split_on_join attach_parts device_texts_def numeral_eq_Suc
        del: join.simps)
qed

section \<open>Decimal numbers\<close>

text \<open>The decimal digits of a number, read as hexadecimal.\<close>

fun digits_as_hex :: "nat \<Rightarrow> nat" where
  "digits_as_hex n = (if n < 10 then n else 16 * digits_as_hex (n div 10) + n mod 10)"

declare digits_as_hex.simps [simp del]

lemma digits_as_hex_ge: "n \<le> digits_as_hex n"
proof (induction n rule: digits_as_hex.induct)
  case (1 n)
  then show ?case
  proof (cases "n < 10")
    case False
    then have "digits_as_hex n = 16 * digits_as_hex (n div 10) + n mod 10"
      by (subst digits_as_hex.simps) simp
    then show ?thesis using 1 [OF False] div_mult_mod_eq [of n 10] by linarith
  qed (simp add: digits_as_hex.simps)
qed

lemma parse_digits_dec:
  "parse_digits 16 hi 0 (dec n) = (if digits_as_hex n \<le> hi then Inr (digits_as_hex n) else Inl PosOverflow)"
proof (induction n rule: digits_as_hex.induct)
  case (1 n)
  show ?case
  proof (cases "n < 10")
    case True
    then show ?thesis by (simp add: show_radix.simps digits_as_hex.simps)
  next
    case False
    have "dec n = dec (n div 10) @ [digit_char (n mod 10)]"
      using False by (subst show_radix.simps) simp
    moreover have "n mod 10 < 16" using mod_less_divisor [of 10 n] by linarith
    moreover have "digits_as_hex n = 16 * digits_as_hex (n div 10) + n mod 10"
      using False by (subst digits_as_hex.simps) simp
    ultimately show ?thesis
      using 1 [OF False] by (simp add: parse_digits_append mult.commute)
  qed
qed

lemma parse_unsigned_dec:
  "parse_unsigned 16 hi (dec n) = (if digits_as_hex n \<le> hi then Inr (digits_as_hex n) else Inl PosOverflow)"
proof -
  obtain c cs where s: "dec n = c # cs" "c \<noteq> CHR ''+''" "c \<noteq> CHR ''-''"
    using padded_first [of 10 0 n] by auto
  then have "parse_unsigned 16 hi (dec n) = parse_digits 16 hi 0 (dec n)"
    unfolding s(1) by (simp add: parse_unsigned_def del: parse_digits.simps)
  then show ?thesis by (simp add: parse_digits_dec)
qed

lemma digits_as_hex_less: "n < 10 ^ k \<longleftrightarrow> digits_as_hex n < 16 ^ k"
proof (induction k arbitrary: n)
  case 0
  have "digits_as_hex 0 = 0" by (simp add: digits_as_hex.simps)
  then show ?case using digits_as_hex_ge [of n] by (cases "n = 0") simp_all
next
  case (Suc k)
  show ?case
  proof (cases "n < 10")
    case True
    then have "n < 10 * 10 ^ k" "n < 16 * 16 ^ k"
      using one_le_power [of "10 :: nat" k] one_le_power [of "16 :: nat" k] by linarith+
    then show ?thesis using True by (simp add: digits_as_hex.simps)
  next
    case False
    have d: "digits_as_hex n = 16 * digits_as_hex (n div 10) + n mod 10"
      using False by (subst digits_as_hex.simps) simp
    have "n < 10 ^ Suc k \<longleftrightarrow> n div 10 < 10 ^ k"
      by (simp add: div_less_iff_less_mult mult.commute)
    also have "\<dots> \<longleftrightarrow> digits_as_hex (n div 10) < 16 ^ k" by (rule Suc)
    also have "\<dots> \<longleftrightarrow> 16 * digits_as_hex (n div 10) + n mod 10 < 16 * 16 ^ k"
      using mod_less_divisor [of 10 n] by linarith
    finally show ?thesis by (simp add: d)
  qed
qed

lemma trim_start_matches_dec [simp]: "trim_start_matches ''0x'' (dec n) = dec n"
  using padded_chars(1) [of _ 0 10 n] by (intro trim_start_matches_none) (auto simp: pad_zero_def)

text \<open>
  Numbers are read in hexadecimal first (\<open>test.md\<close>): every number
  of one byte below 100 and every number of two bytes below 10000 is read as the number with
  the same hexadecimal digits, which is another one as soon as there are two digits; only
  from there on the decimal value is meant.
\<close>

theorem decimal_read_as_hex:
  "parse_u8 (dec (unat b)) field = Inr (if unat b < 100 then of_nat (digits_as_hex (unat b)) else b) \<and>
   parse_u16 (Some (dec (unat w))) field =
     Inr (if unat w < 10000 then of_nat (digits_as_hex (unat w)) else w) \<and>
   (parse_u8 (dec (unat b)) field = Inr b \<longleftrightarrow> unat b < 10 \<or> 100 \<le> unat b)"
proof -
  note bounds = unat_bounds(1) [of b] unat_bounds(2) [of w]
  have h: "unat b < 100 \<longleftrightarrow> digits_as_hex (unat b) < 256"
      "unat w < 10000 \<longleftrightarrow> digits_as_hex (unat w) < 65536"
    using digits_as_hex_less [of "unat b" 2] digits_as_hex_less [of "unat w" 4] by simp_all
  have u8: "parse_u8 (dec (unat b)) field =
      Inr (if unat b < 100 then of_nat (digits_as_hex (unat b)) else b)"
    and u16: "parse_u16 (Some (dec (unat w))) field =
      Inr (if unat w < 10000 then of_nat (digits_as_hex (unat w)) else w)"
    using h bounds by (auto simp: parse_u8_def parse_u16_def parse_unsigned_dec)
  have "of_nat (digits_as_hex (unat b)) = b \<longleftrightarrow> unat b < 10" if "unat b < 100"
  proof -
    have "of_nat (digits_as_hex (unat b)) = b \<longleftrightarrow> digits_as_hex (unat b) = unat b"
      using that h(1) by (simp add: word_unat_eq_iff unsigned_of_nat take_bit_nat_eq_self)
    also have "\<dots> \<longleftrightarrow> unat b < 10"
    proof (cases "unat b < 10")
      case False
      then have "digits_as_hex (unat b) = 16 * digits_as_hex (unat b div 10) + unat b mod 10"
        by (subst digits_as_hex.simps) simp
      then show ?thesis
        using False digits_as_hex_ge [of "unat b div 10"] div_mult_mod_eq [of "unat b" 10] by linarith
    qed (simp add: digits_as_hex.simps)
    finally show ?thesis .
  qed
  then show ?thesis using u8 u16 by auto
qed

section \<open>Complete configurations\<close>

lemma parse_hid_keycodes_ne:
  assumes "parse_hid_keycodes v = Inr ks"
  shows "ks \<noteq> []"
  using assms
  by (cases "collect_results (map parse_hid_keycode (list_parts v))")
    (simp_all add: parse_hid_keycodes_def and_then_def del: collect_results.simps split: if_splits)

lemma daemon_config_has_keys:
  assumes "daemon_config_from_env parse_addr pe = Inr cfg"
  shows "dc_mock_hid_keycodes cfg \<noteq> []"
proof -
  obtain keys where keys: "env_parse pe ''WHY_USB_MOCK_HID_KEYS'' parse_hid_keycodes = Inr keys"
    and cfg: "dc_mock_hid_keycodes cfg = unwrap_or keys [KEY_A]"
    using assms
    by (auto simp: daemon_config_from_env_def and_then_def split: sum.splits)
  show ?thesis
  proof (cases keys)
    case (Some ks)
    then have "\<exists>v. parse_hid_keycodes v = Inr ks"
      using keys by (cases "pe_vars pe ''WHY_USB_MOCK_HID_KEYS''")
        (auto simp: env_parse_def map_sum_def split: sum.splits)
    then show ?thesis using parse_hid_keycodes_ne Some cfg by (auto simp: unwrap_or_def)
  qed (simp add: cfg unwrap_or_def)
qed

end
