(* ===== verification/System_Model.thy ===== *)
theory System_Model imports Client_Daemon Session_Echo begin

text \<open>
  The whole program after the handshake: the client's loop with its task, the daemon's
  session with its worker and its driver, and the connection between them, as one state
  that takes one step of one of them at a time. The order of the steps is chosen from
  outside. The connection delivers messages unchanged and in order; a loop that ends closes
  its side, which the other side reads as the end of the stream once it has read the rest.
\<close>

section \<open>State and steps\<close>

text \<open>\<open>sy_delivered\<close> records the messages the client has read.\<close>

record 'd system =
  sy_client :: client
  sy_client_open :: bool
  sy_daemon :: "'d session"
  sy_daemon_open :: bool
  sy_up :: "bytes list"
  sy_down :: "bytes list"
  sy_delivered :: "bytes list"

datatype system_event =
  ClientReads | ClientWrites | ClientUrb | ClientTask | DaemonReads | DaemonWrites | DaemonWorker

text \<open>
  A step of the client's loop and one of the daemon's, with the outcomes of the step's writes;
  writes beyond the list succeed.
\<close>

definition client_moves_with ::
  "client_config \<Rightarrow> u64 \<Rightarrow> client_event \<Rightarrow> bool list \<Rightarrow> 'd system \<Rightarrow> 'd system option" where
  "client_moves_with ccfg d event oks sy =
     Option.bind (client_step ccfg d event (oks = [] \<or> hd oks) (sy_client sy)) (\<lambda>(sent, fl, c).
       Some (case fl of
               Continue \<Rightarrow> sy\<lparr>sy_client := c, sy_up := sy_up sy @ sent\<rparr>
             | Break \<Rightarrow> sy\<lparr>sy_client := client_close c, sy_client_open := False, sy_up := sy_up sy @ sent\<rparr>))"

definition daemon_moves_with ::
  "('d, 'm) driver_ops_scheme \<Rightarrow> session_config \<Rightarrow> session_event \<Rightarrow> bool list \<Rightarrow> 'd system \<Rightarrow>
   'd system option" where
  "daemon_moves_with ops scfg event oks sy =
     Option.bind (session_step ops scfg event oks (sy_daemon sy)) (\<lambda>(sent, fl, s).
       Some (case fl of
               Continue \<Rightarrow> sy\<lparr>sy_daemon := s, sy_down := sy_down sy @ sent\<rparr>
             | Break \<Rightarrow> sy\<lparr>sy_daemon := session_cleanup ops s, sy_daemon_open := False,
                            sy_down := sy_down sy @ sent\<rparr>))"

definition client_reads_with :: "client_config \<Rightarrow> u64 \<Rightarrow> bool list \<Rightarrow> 'd system \<Rightarrow> 'd system option" where
  "client_reads_with ccfg d oks sy =
     (case sy_down sy of
        bs # rest \<Rightarrow> client_moves_with ccfg d (NetRead (NetReceived bs)) oks
          (sy\<lparr>sy_down := rest, sy_delivered := sy_delivered sy @ [bs]\<rparr>)
      | [] \<Rightarrow> if sy_daemon_open sy then Some sy else client_moves_with ccfg d (NetRead NetClosed) oks sy)"

definition daemon_reads_with ::
  "('d, 'm) driver_ops_scheme \<Rightarrow> session_config \<Rightarrow> bool list \<Rightarrow> 'd system \<Rightarrow> 'd system option" where
  "daemon_reads_with ops scfg oks sy =
     (case sy_up sy of
        bs # rest \<Rightarrow> daemon_moves_with ops scfg (NetMessage bs) oks (sy\<lparr>sy_up := rest\<rparr>)
      | [] \<Rightarrow> if sy_client_open sy then Some sy else daemon_moves_with ops scfg NetEnd oks sy)"

definition system_step_with ::
  "('d, 'm) driver_ops_scheme \<Rightarrow> session_config \<Rightarrow> client_config \<Rightarrow> u64 \<Rightarrow> system_event \<Rightarrow> bool list \<Rightarrow>
   'd system \<Rightarrow> 'd system option" where
  "system_step_with ops scfg ccfg d event oks sy =
     (if event \<in> {ClientReads, ClientWrites, ClientUrb, ClientTask}
      then if \<not> sy_client_open sy then Some sy
           else (case event of
                   ClientReads \<Rightarrow> client_reads_with ccfg d oks sy
                 | ClientWrites \<Rightarrow> client_moves_with ccfg d TaskFrame oks sy
                 | ClientUrb \<Rightarrow> client_moves_with ccfg d VhciUrb oks sy
                 | _ \<Rightarrow> client_moves_with ccfg d TaskTurn oks sy)
      else if \<not> sy_daemon_open sy then Some sy
           else (case event of
                   DaemonReads \<Rightarrow> daemon_reads_with ops scfg oks sy
                 | DaemonWrites \<Rightarrow> daemon_moves_with ops scfg TxRecv oks sy
                 | _ \<Rightarrow> daemon_moves_with ops scfg WorkerTurn oks sy))"

text \<open>The steps of a connection on which every write succeeds.\<close>

abbreviation client_moves :: "client_config \<Rightarrow> u64 \<Rightarrow> client_event \<Rightarrow> 'd system \<Rightarrow> 'd system option" where
  "client_moves ccfg d event \<equiv> client_moves_with ccfg d event []"

abbreviation daemon_moves ::
  "('d, 'm) driver_ops_scheme \<Rightarrow> session_config \<Rightarrow> session_event \<Rightarrow> 'd system \<Rightarrow> 'd system option" where
  "daemon_moves ops scfg event \<equiv> daemon_moves_with ops scfg event []"

abbreviation client_reads :: "client_config \<Rightarrow> u64 \<Rightarrow> 'd system \<Rightarrow> 'd system option" where
  "client_reads ccfg d \<equiv> client_reads_with ccfg d []"

abbreviation daemon_reads ::
  "('d, 'm) driver_ops_scheme \<Rightarrow> session_config \<Rightarrow> 'd system \<Rightarrow> 'd system option" where
  "daemon_reads ops scfg \<equiv> daemon_reads_with ops scfg []"

abbreviation system_step ::
  "('d, 'm) driver_ops_scheme \<Rightarrow> session_config \<Rightarrow> client_config \<Rightarrow> u64 \<Rightarrow> system_event \<Rightarrow>
   'd system \<Rightarrow> 'd system option" where
  "system_step ops scfg ccfg d event \<equiv> system_step_with ops scfg ccfg d event []"

lemmas client_moves_def = client_moves_with_def [where oks = "[]", simplified]
lemmas daemon_moves_def = daemon_moves_with_def [where oks = "[]"]
lemmas client_reads_def = client_reads_with_def [where oks = "[]"]
lemmas daemon_reads_def = daemon_reads_with_def [where oks = "[]"]
lemmas system_step_def = system_step_with_def [where oks = "[]"]

fun system_run ::
  "('d, 'm) driver_ops_scheme \<Rightarrow> session_config \<Rightarrow> client_config \<Rightarrow> u64 \<Rightarrow> system_event list \<Rightarrow>
   'd system \<Rightarrow> 'd system option" where
  "system_run ops scfg ccfg d [] sy = Some sy"
| "system_run ops scfg ccfg d (event # events) sy =
     Option.bind (system_step ops scfg ccfg d event sy) (system_run ops scfg ccfg d events)"

text \<open>The state in which the handshake leaves the two programs.\<close>

definition system_start :: "u64 \<Rightarrow> 'd daemon_peer \<Rightarrow> 'd system" where
  "system_start n p =
     \<lparr>sy_client = client_start n, sy_client_open = True, sy_daemon = dp_session p, sy_daemon_open = True,
      sy_up = [], sy_down = dp_inbox p, sy_delivered = []\<rparr>"

text \<open>
  The two programs from the connected socket on: the handshake, the identifier of the detach
  request, and the two loops.
\<close>

definition system_session ::
  "('d, 'm) driver_ops_scheme \<Rightarrow> session_config \<Rightarrow> client_config \<Rightarrow> 'd \<Rightarrow> system_event list \<Rightarrow>
   (client_error + u64 \<times> 'd system) option" where
  "system_session ops scfg ccfg driver events =
     Option.bind (client_attach (daemon_net ops scfg) \<lparr>dp_session = session_start driver, dp_inbox = []\<rparr>)
       (\<lambda>(res, p). case res of
          Inl e \<Rightarrow> Some (Inl e)
        | Inr n \<Rightarrow>
            Option.bind (client_detach_id ccfg n) (\<lambda>d.
              map_option (\<lambda>sy. Inr (d, sy)) (system_run ops scfg ccfg d events (system_start n p))))"

section \<open>The phases of a session with a limit\<close>

text \<open>
  A session is described by the client's configuration, the first free identifier \<open>n\<close>, the
  identifier \<open>d\<close> of the detach request and the events \<open>evs\<close> on their way when it begins.
  What the client is to read: the events, the answers to all requests, the answer to the
  detach request.
\<close>

definition session_requests :: "client_config \<Rightarrow> u64 \<Rightarrow> frame list" where
  "session_requests ccfg n =
     task_requests (cc_mock_bulk_payload_len ccfg) n
       (case cc_mock_frame_limit ccfg of Some limit \<Rightarrow> unat limit | None \<Rightarrow> 0)"

definition session_answers :: "client_config \<Rightarrow> u64 \<Rightarrow> bytes list \<Rightarrow> bytes list" where
  "session_answers ccfg n evs = evs @ map echo (session_requests ccfg n)"

definition detach_answer :: "u64 \<Rightarrow> bytes" where
  "detach_answer d = wire (detach_response (detach_request d) 0)"

text \<open>
  The requests \<open>got\<close> have been read by the daemon, \<open>up\<close> are on the connection, \<open>fs\<close> in the
  driver and \<open>todo\<close> still to be read by the daemon.
\<close>

definition busy_with ::
  "session_config \<Rightarrow> client_config \<Rightarrow> u64 \<Rightarrow> bytes list \<Rightarrow> frame list \<Rightarrow> frame list \<Rightarrow> frame list \<Rightarrow>
   frame list \<Rightarrow> mock_driver system \<Rightarrow> bool" where
  "busy_with scfg ccfg n evs got up fs todo sy \<longleftrightarrow>
     sy_client_open sy \<and> sy_daemon_open sy \<and> \<not> cl_detach_sent (sy_client sy) \<and>
     task_ok ccfg n (cl_task (sy_client sy)) \<and> sy_up sy = map wire up \<and>
     got @ up @ cl_channel (sy_client sy) @ in_hand_of (cl_task (sy_client sy)) =
       task_requests (cc_mock_bulk_payload_len ccfg) n (unat (mt_sent_frames (cl_task (sy_client sy)))) \<and>
     got @ todo = session_requests ccfg n \<and> mock.echoing scfg (sy_daemon sy) fs todo \<and>
     sy_delivered sy @ sy_down sy @ in_hand (sy_daemon sy) @ map echo fs = evs @ map echo got \<and>
     unat (cl_data_responses (sy_client sy)) = length (sy_delivered sy) - length evs \<and>
     unat (cl_data_responses (sy_client sy)) < length (session_requests ccfg n)"

definition busy :: "session_config \<Rightarrow> client_config \<Rightarrow> u64 \<Rightarrow> bytes list \<Rightarrow> mock_driver system \<Rightarrow> bool" where
  "busy scfg ccfg n evs sy \<longleftrightarrow> (\<exists>got up fs todo. busy_with scfg ccfg n evs got up fs todo sy)"

text \<open>All answers have been read; the client has nothing left to send.\<close>

definition client_done :: "client_config \<Rightarrow> u64 \<Rightarrow> bytes list \<Rightarrow> mock_driver system \<Rightarrow> bool" where
  "client_done ccfg n evs sy \<longleftrightarrow>
     cl_detach_sent (sy_client sy) \<and> cc_mock_frame_limit ccfg = Some (cl_data_responses (sy_client sy)) \<and>
     cl_channel (sy_client sy) = [] \<and> in_hand_of (cl_task (sy_client sy)) = [] \<and>
     mt_sent_frames (cl_task (sy_client sy)) = cl_data_responses (sy_client sy)"

definition leaving ::
  "session_config \<Rightarrow> client_config \<Rightarrow> u64 \<Rightarrow> u64 \<Rightarrow> bytes list \<Rightarrow> mock_driver system \<Rightarrow> bool" where
  "leaving scfg ccfg n d evs sy \<longleftrightarrow>
     client_done ccfg n evs sy \<and> sy_client_open sy \<and> sy_daemon_open sy \<and>
     sy_up sy = [wire (detach_request d)] \<and> sy_down sy = [] \<and>
     sy_delivered sy = session_answers ccfg n evs \<and>
     mock.echoing scfg (sy_daemon sy) [] [] \<and> in_hand (sy_daemon sy) = []"

definition daemon_closed :: "mock_driver system \<Rightarrow> bool" where
  "daemon_closed sy \<longleftrightarrow> \<not> sy_daemon_open sy \<and> lc_state (ss_lifecycle (sy_daemon sy)) = Closed \<and>
     \<not> lc_attached_by_control_plane (ss_lifecycle (sy_daemon sy))"

definition departed :: "client_config \<Rightarrow> u64 \<Rightarrow> u64 \<Rightarrow> bytes list \<Rightarrow> mock_driver system \<Rightarrow> bool" where
  "departed ccfg n d evs sy \<longleftrightarrow>
     client_done ccfg n evs sy \<and> sy_client_open sy \<and> daemon_closed sy \<and>
     sy_up sy = [] \<and> sy_down sy = [detach_answer d] \<and> sy_delivered sy = session_answers ccfg n evs"

definition finished :: "client_config \<Rightarrow> u64 \<Rightarrow> u64 \<Rightarrow> bytes list \<Rightarrow> mock_driver system \<Rightarrow> bool" where
  "finished ccfg n d evs sy \<longleftrightarrow>
     \<not> sy_client_open sy \<and> cl_state (sy_client sy) = ClientClosed \<and> daemon_closed sy \<and>
     cc_mock_frame_limit ccfg = Some (cl_data_responses (sy_client sy)) \<and>
     sy_delivered sy = session_answers ccfg n evs @ [detach_answer d]"

definition system_ok ::
  "session_config \<Rightarrow> client_config \<Rightarrow> u64 \<Rightarrow> u64 \<Rightarrow> bytes list \<Rightarrow> mock_driver system \<Rightarrow> bool" where
  "system_ok scfg ccfg n d evs sy \<longleftrightarrow>
     busy scfg ccfg n evs sy \<or> leaving scfg ccfg n d evs sy \<or> departed ccfg n d evs sy \<or>
     finished ccfg n d evs sy"

text \<open>
  The sessions considered: a mock host controller, a limit, no injected outcomes, requests
  that fit a frame each and the driver's ring together, and events that are no answers.
\<close>

definition session_fits :: "session_config \<Rightarrow> client_config \<Rightarrow> u64 \<Rightarrow> bool" where
  "session_fits scfg ccfg n \<longleftrightarrow>
     cc_vhci_adapter ccfg = VhciMock \<and> session_requests ccfg n \<noteq> [] \<and>
     (case cc_mock_bulk_payload_len ccfg of None \<Rightarrow> True | Some len \<Rightarrow> len < 2 ^ 32) \<and>
     sc_mock_transfer_outcomes scfg = [] \<and>
     list_all (\<lambda>f. length (wire f) \<le> 65536) (session_requests ccfg n) \<and>
     length (ring_bytes (map wire (session_requests ccfg n))) \<le> RING_BUFFER_SIZE"

definition event_messages :: "bytes list \<Rightarrow> bool" where
  "event_messages evs \<longleftrightarrow>
     list_all (\<lambda>bs. \<exists>f. wf_frame f \<and> bs = wire f \<and> fr_frame_type f = Event) evs"

end
