(* ===== verification/System_Run.thy ===== *)
theory System_Run imports System_Model begin

text \<open>
  Every run of the whole program, under every interleaving of its parts: the phases of a
  session follow each other, and in each of them what the client has read, what is on its
  way and what is still in the driver are together the answers to what the daemon has read.
\<close>

section \<open>Requests\<close>

lemma session_fits_limit:
  assumes "session_fits scfg ccfg n"
  obtains limit where "cc_mock_frame_limit ccfg = Some limit" "0 < limit"
    "session_requests ccfg n = task_requests (cc_mock_bulk_payload_len ccfg) n (unat limit)"
  using assms
  by (cases "cc_mock_frame_limit ccfg")
    (auto simp: session_fits_def session_requests_def task_requests_def word_gt_0 unat_eq_zero)

lemma length_task_requests [simp]: "length (task_requests len n k) = k"
  by (simp add: task_requests_def)

lemma task_requests_prefix: "k \<le> m \<Longrightarrow> \<exists>rest. task_requests len n m = task_requests len n k @ rest"
  by (metis le_Suc_ex map_append task_requests_def upt_add_eq_append zero_le)

lemma session_request_fields:
  assumes "session_fits scfg ccfg n" and "f \<in> set (session_requests ccfg n)"
  shows "wf_frame f" and "to_driver scfg f" and "fr_frame_type f = Request" and "length (wire f) \<le> 65536"
proof -
  obtain i p where f: "f = mock_request i p"
    using assms(2) by (auto simp: session_requests_def task_requests_def task_request_def)
  show len: "length (wire f) \<le> 65536"
    using assms by (auto simp: session_fits_def list_all_iff)
  then show "wf_frame f"
    by (simp add: f wf_frame_def mock_request_def frame_new_def)
  show "to_driver scfg f" "fr_frame_type f = Request"
    using assms(1) by (simp_all add: f to_driver_def mock_request_def frame_new_def session_fits_def
        mock_transfer_outcome_response_def)
qed

lemma echo_response:
  assumes "session_fits scfg ccfg n" and "f \<in> set (session_requests ccfg n)"
  obtains r where "echo f = wire r" "wf_frame r" "fr_frame_type r = Response" "fr_status r = 0"
  using outbound_network_frame_ok [OF session_request_fields(3,4) [OF assms]] by metis

section \<open>What the client reads\<close>

lemma client_reads_event:
  assumes "wf_frame f" "fr_frame_type f = Event"
  shows "client_step ccfg d (NetRead (NetReceived (wire f))) True c = Some ([], Continue, c)"
  using assms by (cases c) (simp add: client_step_def handle_network_frame_wire)

lemma client_reads_response:
  assumes "wf_frame f" "fr_frame_type f = Response" "fr_status f = 0" "cc_vhci_adapter ccfg = VhciMock"
    and "client_step ccfg d (NetRead (NetReceived (wire f))) True c = Some (sent, fl, c')"
    and "cl_data_responses c \<noteq> - 1" and "\<not> cl_detach_sent c"
  shows "fl = Continue" and "cl_data_responses c' = cl_data_responses c + 1"
    and "cl_channel c' = cl_channel c" and "cl_task c' = cl_task c"
    and "cl_detach_sent c' \<longleftrightarrow> cc_mock_frame_limit ccfg = Some (cl_data_responses c + 1)"
    and "sent = (if cl_detach_sent c' then [wire (detach_request d)] else [])"
proof -
  let ?c = "c\<lparr>cl_pending := (cl_pending c)(fr_request_id f := None), cl_vhci := cl_vhci c @ [fr_payload f]\<rparr>"
  have "on_data_response ccfg d True ?c = Some (sent, fl, c')"
    using assms(1-5)
    by (simp add: client_step_def handle_network_frame_wire inject_urb_def Let_def split: if_splits)
  moreover have "frame_encode (detach_request d) = Some (wire (detach_request d))"
    by (simp add: frame_encode_layout wf_frame_def detach_request_def frame_new_def)
  ultimately have r: "sent = (if cc_mock_frame_limit ccfg = Some (cl_data_responses c + 1)
        then [wire (detach_request d)] else [])" "fl = Continue"
      "c' = ?c\<lparr>cl_data_responses := cl_data_responses c + 1,
        cl_detach_sent := cc_mock_frame_limit ccfg = Some (cl_data_responses c + 1)\<rparr>"
    using assms(6,7)
    by (auto simp: on_data_response_def next_id_def Let_def split: if_splits)
  then show "fl = Continue" "cl_data_responses c' = cl_data_responses c + 1"
    "cl_channel c' = cl_channel c" "cl_task c' = cl_task c"
    "cl_detach_sent c' \<longleftrightarrow> cc_mock_frame_limit ccfg = Some (cl_data_responses c + 1)"
    "sent = (if cl_detach_sent c' then [wire (detach_request d)] else [])"
    by simp_all
qed

lemma client_reads_detach_answer:
  "client_step ccfg d (NetRead (NetReceived (detach_answer d))) True c = Some ([], Break, c)"
proof -
  have "wf_frame (detach_response (detach_request d) 0)"
    by (simp add: wf_frame_def detach_response_def frame_new_def)
  then show ?thesis
    by (cases c) (simp add: client_step_def handle_network_frame_wire detach_answer_def
        detach_response_def frame_new_def)
qed

section \<open>The busy phase\<close>

lemma busyI: "busy_with scfg ccfg n evs got up fs todo sy \<Longrightarrow> busy scfg ccfg n evs sy"
  by (auto simp: busy_def)

lemma busy_made:
  assumes "busy_with scfg ccfg n evs got up fs todo sy" and "session_fits scfg ccfg n"
  shows "\<exists>rest. got @ up @ cl_channel (sy_client sy) @ in_hand_of (cl_task (sy_client sy)) @ rest =
    session_requests ccfg n"
proof -
  obtain limit where l: "cc_mock_frame_limit ccfg = Some limit"
    "session_requests ccfg n = task_requests (cc_mock_bulk_payload_len ccfg) n (unat limit)"
    using session_fits_limit [OF assms(2)] by blast
  have "unat (mt_sent_frames (cl_task (sy_client sy))) \<le> unat limit"
    using assms(1) l(1) by (auto simp: busy_with_def task_ok_def word_le_nat_alt)
  from task_requests_prefix [OF this, of "cc_mock_bulk_payload_len ccfg" n] obtain rest where
    "session_requests ccfg n = task_requests (cc_mock_bulk_payload_len ccfg) n
      (unat (mt_sent_frames (cl_task (sy_client sy)))) @ rest"
    using l(2) by auto
  moreover have "got @ up @ cl_channel (sy_client sy) @ in_hand_of (cl_task (sy_client sy)) =
      task_requests (cc_mock_bulk_payload_len ccfg) n (unat (mt_sent_frames (cl_task (sy_client sy))))"
    using assms(1) by (simp add: busy_with_def)
  ultimately show ?thesis by (metis append.assoc)
qed

lemma busy_task:
  assumes b: "busy_with scfg ccfg n evs got up fs todo sy" and fits: "session_fits scfg ccfg n"
    and s: "client_moves ccfg d TaskTurn sy = Some sy'"
  shows "busy_with scfg ccfg n evs got up fs todo sy'"
proof -
  obtain task channel where t: "mock_task_turn (cc_mock_frame_limit ccfg)
      (cc_mock_bulk_payload_len ccfg) (cl_task (sy_client sy)) (cl_channel (sy_client sy)) = (task, channel)"
    by fastforce
  have sy': "sy' = sy\<lparr>sy_client := (sy_client sy)\<lparr>cl_task := task, cl_channel := channel\<rparr>\<rparr>"
    using s by (simp add: client_moves_def client_step_def t)
  have "task_ok ccfg n task \<and> (got @ up) @ channel @ in_hand_of task =
      task_requests (cc_mock_bulk_payload_len ccfg) n (unat (mt_sent_frames task))"
    using b by (intro mock_task_turn_ok [OF _ _ t]) (simp_all add: busy_with_def)
  then show ?thesis
    using b by (simp add: busy_with_def sy')
qed

lemma busy_sends:
  assumes b: "busy_with scfg ccfg n evs got up fs todo sy" and fits: "session_fits scfg ccfg n"
    and ch: "cl_channel (sy_client sy) = f # channel"
  shows "\<exists>pp. client_moves ccfg d TaskFrame sy =
    Some (sy\<lparr>sy_client := (sy_client sy)\<lparr>cl_channel := channel, cl_pending := pp\<rparr>, sy_up := sy_up sy @ [wire f]\<rparr>)"
proof -
  have "f \<in> set (session_requests ccfg n)"
    using busy_made [OF b fits] ch by (metis in_set_conv_decomp append.assoc append_Cons)
  then have "frame_encode f = Some (wire f)"
    using session_request_fields(1) [OF fits] by (simp add: frame_encode_layout)
  then show ?thesis
    using ch
    by (cases "sy_client sy"; cases "mock_bulk_decode (fr_payload f)")
      (auto simp: client_moves_def client_step_def on_task_frame_def Let_def)
qed

lemma busy_write:
  assumes b: "busy_with scfg ccfg n evs got up fs todo sy" and fits: "session_fits scfg ccfg n"
    and s: "client_moves ccfg d TaskFrame sy = Some sy'"
  shows "busy scfg ccfg n evs sy'"
proof (cases "cl_channel (sy_client sy)")
  case Nil
  then have "sy' = sy"
    using s by (cases sy) (simp add: client_moves_def client_step_def on_task_frame_def)
  then show ?thesis using busyI [OF b] by simp
next
  case (Cons f channel)
  obtain p where "sy' = sy\<lparr>sy_client := (sy_client sy)\<lparr>cl_channel := channel, cl_pending := p\<rparr>,
      sy_up := sy_up sy @ [wire f]\<rparr>"
    using busy_sends [OF b fits Cons, of d] s by auto
  then have "busy_with scfg ccfg n evs got (up @ [f]) fs todo sy'"
    using b Cons by (simp add: busy_with_def)
  then show ?thesis by (rule busyI)
qed

lemma busy_urb:
  assumes "busy_with scfg ccfg n evs got up fs todo sy" and "client_moves ccfg d VhciUrb sy = Some sy'"
  shows "busy_with scfg ccfg n evs got up fs todo sy'"
  using assms by (auto simp: client_moves_def client_step_def busy_with_def)

lemma busy_request:
  assumes b: "busy_with scfg ccfg n evs got (f # up) fs todo sy" and fits: "session_fits scfg ccfg n"
  shows "\<exists>s' rest. todo = f # rest \<and>
    daemon_reads mock_ops scfg sy = Some (sy\<lparr>sy_up := map wire up, sy_daemon := s'\<rparr>) \<and>
    mock.echoing scfg s' (fs @ [f]) rest \<and> in_hand s' = in_hand (sy_daemon sy) \<and>
    ss_channel s' = ss_channel (sy_daemon sy)"
proof -
  obtain rest where rest: "got @ f # rest = session_requests ccfg n"
    using busy_made [OF b fits] by auto
  then have todo: "todo = f # rest" using b by (metis busy_with_def same_append_eq)
  have "f \<in> set (session_requests ccfg n)" by (simp flip: rest)
  note f = session_request_fields [OF fits this]
  have e: "mock.echoing scfg (sy_daemon sy) fs (f # rest)" using b todo by (simp add: busy_with_def)
  obtain s' where s': "session_step mock_ops scfg (NetMessage (wire f)) [] (sy_daemon sy) = Some ([], Continue, s')"
    "mock.echoing scfg s' (fs @ [f]) rest" "in_hand s' = in_hand (sy_daemon sy)"
    "ss_channel s' = ss_channel (sy_daemon sy)"
    using mock.echoing_request [OF e frame_decode_wire [OF f(1)] f(2)] by blast
  have "daemon_reads mock_ops scfg sy = Some (sy\<lparr>sy_up := map wire up, sy_daemon := s'\<rparr>)"
    using b s'(1) by (simp add: daemon_reads_def daemon_moves_def busy_with_def)
  then show ?thesis using todo s' by blast
qed

lemma busy_daemon_reads:
  assumes b: "busy_with scfg ccfg n evs got up fs todo sy" and fits: "session_fits scfg ccfg n"
    and s: "daemon_reads mock_ops scfg sy = Some sy'"
  shows "busy scfg ccfg n evs sy'"
proof (cases up)
  case Nil
  then have "sy' = sy" using s b by (simp add: daemon_reads_def busy_with_def)
  then show ?thesis using busyI [OF b] by simp
next
  case (Cons f up')
  obtain s' rest where r: "todo = f # rest" "sy' = sy\<lparr>sy_up := map wire up', sy_daemon := s'\<rparr>"
    "mock.echoing scfg s' (fs @ [f]) rest" "in_hand s' = in_hand (sy_daemon sy)"
    using busy_request [OF b [unfolded Cons] fits] s by auto
  have "sy_delivered sy @ sy_down sy @ in_hand (sy_daemon sy) @ map echo (fs @ [f]) =
      evs @ map echo (got @ [f])"
    using b by (simp add: busy_with_def flip: append_assoc)
  then have "busy_with scfg ccfg n evs (got @ [f]) up' (fs @ [f]) rest sy'"
    using b r Cons by (simp add: busy_with_def)
  then show ?thesis by (rule busyI)
qed

lemma busy_daemon_writes:
  assumes b: "busy_with scfg ccfg n evs got up fs todo sy" and s: "daemon_moves mock_ops scfg TxRecv sy = Some sy'"
  shows "busy_with scfg ccfg n evs got up fs todo sy'"
proof -
  obtain sent s' where "session_step mock_ops scfg TxRecv [] (sy_daemon sy) = Some (sent, Continue, s')"
    "mock.echoing scfg s' fs todo" "sent @ in_hand s' = in_hand (sy_daemon sy)"
    using mock.echoing_recv [of scfg "sy_daemon sy" fs todo] b by (auto simp: busy_with_def)
  note step = this
  have "sy' = sy\<lparr>sy_daemon := s', sy_down := sy_down sy @ sent\<rparr>"
    using s step(1) by (simp add: daemon_moves_def)
  then show ?thesis
    using b step(2) by (simp add: busy_with_def flip: step(3))
qed

lemma daemon_worker_move:
  "daemon_moves mock_ops scfg WorkerTurn sy = Some (sy\<lparr>sy_daemon := tx_worker_turn mock_ops (sy_daemon sy)\<rparr>)"
  by (cases sy) (simp add: daemon_moves_def session_step_def)

lemma busy_daemon_worker:
  assumes b: "busy_with scfg ccfg n evs got up fs todo sy" and s: "daemon_moves mock_ops scfg WorkerTurn sy = Some sy'"
  shows "busy scfg ccfg n evs sy'"
proof -
  obtain fs' where fs': "mock.echoing scfg (tx_worker_turn mock_ops (sy_daemon sy)) fs' todo"
    "in_hand (tx_worker_turn mock_ops (sy_daemon sy)) @ map echo fs' = in_hand (sy_daemon sy) @ map echo fs"
    using mock.echoing_turn [of scfg "sy_daemon sy" fs todo] b by (auto simp: busy_with_def)
  have "sy' = sy\<lparr>sy_daemon := tx_worker_turn mock_ops (sy_daemon sy)\<rparr>"
    using s by (simp add: daemon_worker_move)
  then have "busy_with scfg ccfg n evs got up fs' todo sy'"
    using b fs' by (simp add: busy_with_def)
  then show ?thesis by (rule busyI)
qed

text \<open>
  The client reads: an event changes nothing, an answer is counted, and the last answer
  ends the phase. Then nothing else can be on its way.
\<close>

lemma busy_last:
  assumes b: "busy_with scfg ccfg n evs got up fs todo sy" and fits: "session_fits scfg ccfg n"
    and all: "length (session_requests ccfg n) + length evs \<le> length (sy_delivered sy) + 1"
    and down: "sy_down sy = bs # rest"
  shows "rest = []" and "in_hand (sy_daemon sy) = []" and "fs = []" and "todo = []" and "up = []"
    and "cl_channel (sy_client sy) = []" and "in_hand_of (cl_task (sy_client sy)) = []"
    and "got = session_requests ccfg n" and "sy_delivered sy @ [bs] = session_answers ccfg n evs"
    and "unat (mt_sent_frames (cl_task (sy_client sy))) = length (session_requests ccfg n)"
proof -
  have flow: "sy_delivered sy @ bs # rest @ in_hand (sy_daemon sy) @ map echo fs = evs @ map echo got"
    and gt: "got @ todo = session_requests ccfg n"
    and made: "got @ up @ cl_channel (sy_client sy) @ in_hand_of (cl_task (sy_client sy)) =
      task_requests (cc_mock_bulk_payload_len ccfg) n (unat (mt_sent_frames (cl_task (sy_client sy))))"
    using b down by (simp_all add: busy_with_def)
  have "length (sy_delivered sy) + 1 + length rest + length (in_hand (sy_daemon sy)) + length fs =
      length evs + length got"
    using arg_cong [OF flow, of length] by simp
  moreover have "length got + length todo = length (session_requests ccfg n)"
    using arg_cong [OF gt, of length] by simp
  ultimately have "length rest = 0" "length (in_hand (sy_daemon sy)) = 0" "length fs = 0" "length todo = 0"
    using all by linarith+
  then show empty: "rest = []" "in_hand (sy_daemon sy) = []" "fs = []" "todo = []" by simp_all
  then show got: "got = session_requests ccfg n" using gt by simp
  obtain more where "got @ up @ cl_channel (sy_client sy) @ in_hand_of (cl_task (sy_client sy)) @ more =
      session_requests ccfg n"
    using busy_made [OF b fits] by blast
  then show "up = []" "cl_channel (sy_client sy) = []" "in_hand_of (cl_task (sy_client sy)) = []"
    by (simp_all add: got)
  then show "unat (mt_sent_frames (cl_task (sy_client sy))) = length (session_requests ccfg n)"
    using arg_cong [OF made, of length] by (simp add: got)
  show "sy_delivered sy @ [bs] = session_answers ccfg n evs"
    using flow by (simp add: empty got session_answers_def)
qed

lemma busy_next:
  assumes b: "busy_with scfg ccfg n evs got up fs todo sy" and down: "sy_down sy = bs # rest"
  shows "if length (sy_delivered sy) < length evs then bs \<in> set evs else \<exists>f \<in> set got. bs = echo f"
proof -
  have flow: "sy_delivered sy @ bs # rest @ in_hand (sy_daemon sy) @ map echo fs = evs @ map echo got"
    using b down by (simp add: busy_with_def)
  then have "length (sy_delivered sy) < length (evs @ map echo got)"
    by (metis length_append length_Cons add_Suc_right less_add_Suc1)
  moreover have "bs = (evs @ map echo got) ! length (sy_delivered sy)"
    by (metis flow nth_append_length)
  ultimately show ?thesis
    using nth_mem [of "length (sy_delivered sy) - length evs" got]
    by (auto simp: nth_append)
qed

lemma busy_reads:
  assumes b: "busy_with scfg ccfg n evs got up fs todo sy" and fits: "session_fits scfg ccfg n"
    and evs: "event_messages evs" and s: "client_reads ccfg d sy = Some sy'"
  shows "busy scfg ccfg n evs sy' \<or> leaving scfg ccfg n d evs sy'"
proof (cases "sy_down sy")
  case Nil
  then have "sy' = sy" using s b by (simp add: client_reads_def busy_with_def)
  then show ?thesis using busyI [OF b] by simp
next
  case (Cons bs rest)
  let ?sy = "sy\<lparr>sy_down := rest, sy_delivered := sy_delivered sy @ [bs]\<rparr>"
  have moves: "client_moves ccfg d (NetRead (NetReceived bs)) ?sy = Some sy'"
    using s Cons by (simp add: client_reads_def)
  show ?thesis
  proof (cases "length (sy_delivered sy) < length evs")
    case True
    then have "bs \<in> set evs" using busy_next [OF b Cons] by simp
    then obtain f where "wf_frame f" "bs = wire f" "fr_frame_type f = Event"
      using evs by (auto simp: event_messages_def list_all_iff)
    then have "client_step ccfg d (NetRead (NetReceived bs)) True (sy_client sy) =
        Some ([], Continue, sy_client sy)"
      by (simp add: client_reads_event)
    then have "sy' = ?sy" using moves by (cases sy) (simp add: client_moves_def)
    then have "busy_with scfg ccfg n evs got up fs todo sy'"
      using b Cons True by (auto simp: busy_with_def)
    then show ?thesis using busyI by blast
  next
    case False
    then obtain f where f: "f \<in> set got" "bs = echo f"
      using busy_next [OF b Cons] by auto
    then have "f \<in> set (session_requests ccfg n)"
      using b by (metis busy_with_def Un_iff set_append)
    then obtain r where r: "bs = wire r" "wf_frame r" "fr_frame_type r = Response" "fr_status r = 0"
      using echo_response [OF fits] f(2) by metis
    obtain sent fl c where step: "client_step ccfg d (NetRead (NetReceived (wire r))) True (sy_client sy) =
        Some (sent, fl, c)"
      using moves by (auto simp: client_moves_def r(1) bind_eq_Some_conv)
    obtain limit where limit: "cc_mock_frame_limit ccfg = Some limit"
      "length (session_requests ccfg n) = unat limit"
      using session_fits_limit [OF fits] by (metis length_task_requests)
    have count: "unat (cl_data_responses (sy_client sy)) = length (sy_delivered sy) - length evs"
      "unat (cl_data_responses (sy_client sy)) < unat limit" "\<not> cl_detach_sent (sy_client sy)"
      using b limit(2) by (simp_all add: busy_with_def)
    have "cl_data_responses (sy_client sy) \<noteq> - 1"
    proof
      assume "cl_data_responses (sy_client sy) = - 1"
      then have "unat (cl_data_responses (sy_client sy)) = 18446744073709551615"
        by (simp add: unsigned_minus_1_eq_mask mask_eq_exp_minus_1)
      then show False using count(2) unat_less_2p64 [of limit] by linarith
    qed
    note c = client_reads_response [OF r(2-4) _ step this count(3)]
    have vhci: "cc_vhci_adapter ccfg = VhciMock" using fits by (simp add: session_fits_def)
    have suc: "unat (cl_data_responses c) = Suc (unat (cl_data_responses (sy_client sy)))"
      using unat_next [OF \<open>cl_data_responses (sy_client sy) \<noteq> - 1\<close>] c(2) [OF vhci] by simp
    have sy': "sy' = ?sy\<lparr>sy_client := c, sy_up := sy_up sy @ sent\<rparr>"
      using moves step c(1) [OF vhci] by (simp add: client_moves_def r(1))
    show ?thesis
    proof (cases "cl_detach_sent c")
      case True
      then have lim: "limit = cl_data_responses c"
        using c(2,5) [OF vhci] limit(1) by simp
      have "length (session_requests ccfg n) + length evs \<le> length (sy_delivered sy) + 1"
        using limit(2) lim suc count(1) False by simp
      note last = busy_last [OF b fits this Cons]
      have "mt_sent_frames (cl_task (sy_client sy)) = cl_data_responses c"
        using last(10) limit(2) lim by (simp add: word_unat_eq_iff)
      then have "leaving scfg ccfg n d evs sy'"
        using b last c(3-6) [OF vhci] True lim limit(1)
        by (simp add: leaving_def client_done_def sy' busy_with_def)
      then show ?thesis by simp
    next
      case more: False
      then have "limit \<noteq> cl_data_responses c"
        using c(2,5) [OF vhci] limit(1) by simp
      then have "unat (cl_data_responses c) < unat limit"
        using suc count(2) by (metis Suc_leI le_neq_implies_less word_unat_eq_iff)
      then have "busy_with scfg ccfg n evs got up fs todo sy'"
        using b more c(3,4,6) [OF vhci] False limit(2) suc count(1) Cons
        by (simp add: busy_with_def sy')
      then show ?thesis using busyI by blast
    qed
  qed
qed

section \<open>The last phases\<close>

lemma client_done_moves:
  assumes "client_done ccfg n evs sy" and "event \<in> {TaskFrame, VhciUrb, TaskTurn}"
    and "client_moves ccfg d event sy = Some sy'"
  obtains c where "sy' = sy\<lparr>sy_client := c\<rparr>" and "client_done ccfg n evs sy'"
proof (cases "event = TaskTurn")
  case True
  obtain task channel where t: "mock_task_turn (cc_mock_frame_limit ccfg)
      (cc_mock_bulk_payload_len ccfg) (cl_task (sy_client sy)) (cl_channel (sy_client sy)) = (task, channel)"
    by fastforce
  then have "channel = []" "mt_sent_frames task = mt_sent_frames (cl_task (sy_client sy))" "in_hand_of task = []"
    using assms(1)
    by (auto simp: mock_task_turn_def client_done_def in_hand_of_def split: task_state.splits)
  moreover have "sy' = sy\<lparr>sy_client := (sy_client sy)\<lparr>cl_task := task, cl_channel := channel\<rparr>\<rparr>"
    using assms(3) True by (simp add: client_moves_def client_step_def t)
  ultimately show thesis
    using assms(1) by (intro that) (auto simp: client_done_def)
next
  case False
  then have "\<exists>v. sy' = sy\<lparr>sy_client := (sy_client sy)\<lparr>cl_vhci := v\<rparr>\<rparr>"
    using assms
    by (cases "sy_client sy") (auto simp: client_moves_def client_step_def on_task_frame_def client_done_def)
  then show thesis using assms(1) that by (auto simp: client_done_def)
qed

text \<open>The detach request is answered, and the daemon has let go of the device.\<close>

lemma daemon_reads_detach:
  assumes l: "leaving scfg ccfg n d evs sy" and s: "daemon_reads mock_ops scfg sy = Some sy'"
  shows "departed ccfg n d evs sy'"
proof -
  let ?lc = "ss_lifecycle (sy_daemon sy)"
  have att: "lc_state ?lc = Attached" and up: "sy_up sy = [wire (detach_request d)]"
    using l by (simp_all add: leaving_def mock.echoing_def)
  have wf: "wf_frame (detach_request d)" "wf_frame (detach_response (detach_request d) 0)"
    by (simp_all add: wf_frame_def detach_request_def detach_response_def frame_new_def)
  have type: "fr_frame_type (detach_request d) = DetachRequest"
    by (simp add: detach_request_def frame_new_def)
  let ?lc' = "\<lparr>lc_attached_by_control_plane = False, lc_state = Closed\<rparr>"
  have "detach_session mock_ops ?lc (ss_driver (sy_daemon sy)) = (0, ?lc', ss_driver (sy_daemon sy))"
    using att by (cases ?lc) (simp add: detach_session_def mock_detach_device_def Let_def)
  then have "on_network_frame mock_ops scfg (detach_request d) (sy_daemon sy) =
      Some (\<lparr>out_must = [detach_response (detach_request d) 0], out_may = [], out_flow = Break\<rparr>,
        (sy_daemon sy)\<lparr>ss_lifecycle := ?lc', ss_driver := ss_driver (sy_daemon sy)\<rparr>)"
    by (simp add: on_network_frame_def type on_detach_request_def)
  from session_step_frame [OF frame_decode_wire [OF wf(1)] this] have
    "session_step mock_ops scfg (NetMessage (wire (detach_request d))) [] (sy_daemon sy) =
      Some ([detach_answer d], Break, (sy_daemon sy)\<lparr>ss_lifecycle := ?lc', ss_driver := ss_driver (sy_daemon sy)\<rparr>)"
    using wf(2) by (simp add: outgoing_wf_def detach_answer_def)
  then have sy': "sy' = sy\<lparr>sy_up := [], sy_down := sy_down sy @ [detach_answer d], sy_daemon_open := False,
      sy_daemon := session_cleanup mock_ops
        ((sy_daemon sy)\<lparr>ss_lifecycle := ?lc', ss_driver := ss_driver (sy_daemon sy)\<rparr>)\<rparr>"
    using s by (auto simp: daemon_reads_def daemon_moves_def up)
  have "lc_state (ss_lifecycle (session_cleanup mock_ops (s\<lparr>ss_lifecycle := ?lc', ss_driver := dr\<rparr>))) = Closed \<and>
      \<not> lc_attached_by_control_plane (ss_lifecycle (session_cleanup mock_ops (s\<lparr>ss_lifecycle := ?lc', ss_driver := dr\<rparr>)))"
    for s :: "mock_driver session" and dr
    by (simp add: session_cleanup_def detach_session_def case_prod_beta Let_def)
  from this [of "ss_driver (sy_daemon sy)" "sy_daemon sy"] show ?thesis
    using l by (simp add: departed_def leaving_def daemon_closed_def client_done_def sy')
qed

lemma leaving_step:
  assumes l: "leaving scfg ccfg n d evs sy" and s: "system_step mock_ops scfg ccfg d event sy = Some sy'"
  shows "leaving scfg ccfg n d evs sy' \<or> departed ccfg n d evs sy'"
proof -
  have opens: "sy_client_open sy" "sy_daemon_open sy" and cd: "client_done ccfg n evs sy"
    and e: "mock.echoing scfg (sy_daemon sy) [] []" and hand: "in_hand (sy_daemon sy) = []"
    using l by (simp_all add: leaving_def)
  have client: "leaving scfg ccfg n d evs sy'"
    if "client_moves ccfg d ev sy = Some sy'" "ev \<in> {TaskFrame, VhciUrb, TaskTurn}" for ev
  proof (rule client_done_moves [OF cd that(2,1)])
    fix c assume "sy' = sy\<lparr>sy_client := c\<rparr>" "client_done ccfg n evs sy'"
    then show ?thesis using l by (simp add: leaving_def)
  qed
  show ?thesis
  proof (cases event)
    case ClientReads
    then have "sy' = sy" using s l by (simp add: system_step_def client_reads_def leaving_def)
    then show ?thesis using l by simp
  next
    case DaemonReads
    then have "daemon_reads mock_ops scfg sy = Some sy'" using s opens by (simp add: system_step_def)
    from daemon_reads_detach [OF l this] show ?thesis by simp
  next
    case DaemonWrites
    then have "sy' = sy"
      using s opens hand by (cases sy) (simp add: system_step_def daemon_moves_def session_step_def in_hand_def)
    then show ?thesis using l by simp
  next
    case DaemonWorker
    obtain fs' where fs': "mock.echoing scfg (tx_worker_turn mock_ops (sy_daemon sy)) fs' []"
      "in_hand (tx_worker_turn mock_ops (sy_daemon sy)) @ map echo fs' = []"
      using mock.echoing_turn [OF e] hand by auto
    have "sy' = sy\<lparr>sy_daemon := tx_worker_turn mock_ops (sy_daemon sy)\<rparr>"
      using s opens DaemonWorker by (simp add: system_step_def daemon_worker_move)
    then show ?thesis using l fs' by (simp add: leaving_def client_done_def)
  qed (use s opens client in \<open>simp_all add: system_step_def\<close>)
qed

lemma departed_step:
  assumes l: "departed ccfg n d evs sy" and s: "system_step mock_ops scfg ccfg d event sy = Some sy'"
  shows "departed ccfg n d evs sy' \<or> finished ccfg n d evs sy'"
proof -
  have opens: "sy_client_open sy" "\<not> sy_daemon_open sy" and cd: "client_done ccfg n evs sy"
    using l by (simp_all add: departed_def daemon_closed_def)
  have client: "departed ccfg n d evs sy'"
    if "client_moves ccfg d ev sy = Some sy'" "ev \<in> {TaskFrame, VhciUrb, TaskTurn}" for ev
  proof (rule client_done_moves [OF cd that(2,1)])
    fix c assume "sy' = sy\<lparr>sy_client := c\<rparr>" "client_done ccfg n evs sy'"
    then show ?thesis using l by (simp add: departed_def daemon_closed_def)
  qed
  show ?thesis
  proof (cases event)
    case ClientReads
    then have "client_moves ccfg d (NetRead (NetReceived (detach_answer d)))
        (sy\<lparr>sy_down := [], sy_delivered := sy_delivered sy @ [detach_answer d]\<rparr>) = Some sy'"
      using s l by (simp add: system_step_def client_reads_def departed_def)
    then show ?thesis
      using l by (auto simp: client_moves_def client_reads_detach_answer departed_def finished_def
          daemon_closed_def client_done_def client_close_def)
  qed (use s l opens client in \<open>simp_all add: system_step_def\<close>)
qed

lemma finished_step:
  assumes "finished ccfg n d evs sy" and "system_step mock_ops scfg ccfg d event sy = Some sy'"
  shows "finished ccfg n d evs sy'"
  using assms by (cases event) (auto simp: system_step_def finished_def daemon_closed_def)

section \<open>Every run\<close>

lemma system_step_ok:
  assumes ok: "system_ok scfg ccfg n d evs sy" and fits: "session_fits scfg ccfg n" and evs: "event_messages evs"
    and s: "system_step mock_ops scfg ccfg d event sy = Some sy'"
  shows "system_ok scfg ccfg n d evs sy'"
proof -
  from ok consider (busy) "busy scfg ccfg n evs sy" | (leaving) "leaving scfg ccfg n d evs sy"
    | (departed) "departed ccfg n d evs sy" | (finished) "finished ccfg n d evs sy"
    by (auto simp: system_ok_def)
  then show ?thesis
  proof cases
    case busy
    then obtain got up fs todo where b: "busy_with scfg ccfg n evs got up fs todo sy"
      by (auto simp: busy_def)
    then have "sy_client_open sy" "sy_daemon_open sy" by (simp_all add: busy_with_def)
    then have "busy scfg ccfg n evs sy' \<or> leaving scfg ccfg n d evs sy'"
      using s busy_reads [OF b fits evs] busy_write [OF b fits] busyI [OF busy_urb [OF b]]
        busyI [OF busy_task [OF b fits]] busy_daemon_reads [OF b fits] busyI [OF busy_daemon_writes [OF b]]
        busy_daemon_worker [OF b]
      by (cases event) (simp_all add: system_step_def)
    then show ?thesis by (auto simp: system_ok_def)
  next
    case leaving
    from leaving_step [OF this s] show ?thesis by (auto simp: system_ok_def)
  next
    case departed
    from departed_step [OF this s] show ?thesis by (auto simp: system_ok_def)
  next
    case finished
    from finished_step [OF this s] show ?thesis using ok by (auto simp: system_ok_def)
  qed
qed

lemma system_run_ok:
  assumes "system_ok scfg ccfg n d evs sy" and "session_fits scfg ccfg n" and "event_messages evs"
    and "system_run mock_ops scfg ccfg d events sy = Some sy'"
  shows "system_ok scfg ccfg n d evs sy'"
  using assms(1,4)
  by (induction events arbitrary: sy) (auto simp: bind_eq_Some_conv dest: system_step_ok [OF _ assms(2,3)])

end
