(* ===== verification/System_Properties.thy ===== *)
theory System_Properties imports System_Run "HOL-Library.Sublist" begin

text \<open>
  What a user of the two programs gets: under every interleaving the client reads the
  answers to its requests in order, each once, and the session ends after the last of them.
\<close>

section \<open>From the handshake\<close>

abbreviation keyboard_messages :: "session_config \<Rightarrow> bytes list" where
  "keyboard_messages scfg \<equiv> map wire (mock_hid_keyboard_events (sc_mock_hid_keycodes scfg))"

lemma keyboard_event_messages: "event_messages (keyboard_messages scfg)"
proof -
  have "fr_frame_type f = Event" if "f \<in> set (mock_hid_keyboard_events ks)" for f ks
    using that by (auto simp: mock_hid_keyboard_events_def hid_keyboard_input_event_def frame_new_def)
  then show ?thesis
    using list_all_events [of "sc_mock_hid_keycodes scfg"] by (auto simp: event_messages_def list_all_iff)
qed

text \<open>The state after the handshake with the mock driver, which accepts every device.\<close>

definition session_attached :: "session_config \<Rightarrow> mock_driver session" where
  "session_attached scfg =
     (session_start fresh_mock)\<lparr>
       ss_lifecycle := \<lparr>lc_attached_by_control_plane = sc_attach_device scfg \<noteq> None, lc_state = Attached\<rparr>,
       ss_descriptors := Some (descriptor_set_for_attach (sc_attach_device scfg)),
       ss_registers := \<lparr>reg_address = 1, reg_configuration = 1\<rparr>\<rparr>"

abbreviation attached_system :: "session_config \<Rightarrow> mock_driver system" where
  "attached_system scfg \<equiv>
     system_start 7 \<lparr>dp_session = session_attached scfg, dp_inbox = keyboard_messages scfg\<rparr>"

lemma system_session_mock:
  "system_session mock_ops scfg ccfg fresh_mock events =
     Option.bind (client_detach_id ccfg 7) (\<lambda>d.
       map_option (\<lambda>sy. Inr (d, sy)) (system_run mock_ops scfg ccfg d events (attached_system scfg)))"
proof -
  have "attach_session mock_ops (sc_attach_device scfg)
      \<lparr>lc_attached_by_control_plane = False, lc_state = Connected\<rparr> fresh_mock =
    (0, \<lparr>lc_attached_by_control_plane = sc_attach_device scfg \<noteq> None, lc_state = Attached\<rparr>, fresh_mock)"
    by (cases "sc_attach_device scfg") (simp_all add: attach_session_def mock_attach_device_def)
  moreover have "(session_start fresh_mock)\<lparr>ss_lifecycle := lc, ss_driver := fresh_mock\<rparr> =
      (session_start fresh_mock)\<lparr>ss_lifecycle := lc\<rparr>" for lc
    by (simp add: session_start_def)
  ultimately show ?thesis
    by (simp add: system_session_def client_attach_daemon session_attached_def)
qed

lemma attached_system_echoing:
  assumes "session_fits scfg ccfg 7"
  shows "mock.echoing scfg (session_attached scfg) [] (session_requests ccfg 7)"
proof -
  have "mock_idle fresh_mock []"
    by (simp add: mock_idle_def mock_holds_def)
  moreover have "mock_room fresh_mock [] (map wire (session_requests ccfg 7))"
    using assms by (auto simp: mock_room_def mock_life_def session_fits_def ring_empty_def
        RING_BUFFER_SIZE_def list_all_iff)
  moreover have "session_ok scfg (session_attached scfg)"
    by (simp add: session_ok_def session_attached_def session_start_def)
  ultimately show ?thesis
    by (simp add: mock.echoing_def session_attached_def session_start_def)
qed

lemma attached_system_busy:
  assumes "session_fits scfg ccfg 7"
  shows "busy_with scfg ccfg 7 (keyboard_messages scfg) [] [] [] (session_requests ccfg 7) (attached_system scfg)"
proof -
  have "in_hand (session_attached scfg) = []"
    by (simp add: in_hand_def session_attached_def session_start_def)
  moreover have "session_requests ccfg 7 \<noteq> []" using assms by (simp add: session_fits_def)
  ultimately show ?thesis
    using attached_system_echoing [OF assms]
    by (simp add: busy_with_def system_start_def client_start_def task_ok_def in_hand_of_def
        task_requests_def)
qed

section \<open>Every interleaving\<close>

text \<open>What the phases say about the messages the client has read.\<close>

lemma system_ok_delivered:
  assumes ok: "system_ok scfg ccfg n d evs sy" and fits: "session_fits scfg ccfg n"
  shows "prefix (sy_delivered sy) (session_answers ccfg n evs @ [detach_answer d])"
    and "sy_client_open sy \<longleftrightarrow> sy_delivered sy \<noteq> session_answers ccfg n evs @ [detach_answer d]"
    and "sy_daemon_open sy \<or> session_answers ccfg n evs = take (length (session_answers ccfg n evs)) (sy_delivered sy) \<and>
      lc_state (ss_lifecycle (sy_daemon sy)) = Closed \<and> \<not> lc_attached_by_control_plane (ss_lifecycle (sy_daemon sy))"
proof -
  from ok consider (busy) "busy scfg ccfg n evs sy" | (leaving) "leaving scfg ccfg n d evs sy"
    | (departed) "departed ccfg n d evs sy" | (finished) "finished ccfg n d evs sy"
    by (auto simp: system_ok_def)
  then have "prefix (sy_delivered sy) (session_answers ccfg n evs @ [detach_answer d]) \<and>
    (sy_client_open sy \<longleftrightarrow> sy_delivered sy \<noteq> session_answers ccfg n evs @ [detach_answer d]) \<and>
    (sy_daemon_open sy \<or> session_answers ccfg n evs = take (length (session_answers ccfg n evs)) (sy_delivered sy) \<and>
      lc_state (ss_lifecycle (sy_daemon sy)) = Closed \<and> \<not> lc_attached_by_control_plane (ss_lifecycle (sy_daemon sy)))"
  proof cases
    case busy
    then obtain got up fs todo where b: "busy_with scfg ccfg n evs got up fs todo sy"
      by (auto simp: busy_def)
    have "evs @ map echo got = sy_delivered sy @ sy_down sy @ in_hand (sy_daemon sy) @ map echo fs"
      using b by (simp add: busy_with_def)
    moreover have "session_answers ccfg n evs = (evs @ map echo got) @ map echo todo"
      using b by (simp add: busy_with_def session_answers_def flip: map_append)
    ultimately have p: "session_answers ccfg n evs =
        sy_delivered sy @ sy_down sy @ in_hand (sy_daemon sy) @ map echo fs @ map echo todo"
      by simp
    then show ?thesis using b by (auto simp: busy_with_def)
  qed (simp_all add: leaving_def departed_def finished_def daemon_closed_def)
  then show "prefix (sy_delivered sy) (session_answers ccfg n evs @ [detach_answer d])"
    "sy_client_open sy \<longleftrightarrow> sy_delivered sy \<noteq> session_answers ccfg n evs @ [detach_answer d]"
    "sy_daemon_open sy \<or> session_answers ccfg n evs = take (length (session_answers ccfg n evs)) (sy_delivered sy) \<and>
      lc_state (ss_lifecycle (sy_daemon sy)) = Closed \<and> \<not> lc_attached_by_control_plane (ss_lifecycle (sy_daemon sy))"
    by blast+
qed

text \<open>
  C2: The two programs together deliver every answer: whatever the order in which the client,
  its task, the daemon's session and its worker take their steps, what the client has read
  is an initial part of the keyboard's events, the answers to its requests in the order it
  made them, each once, and the answer to the detach request. The client's loop has ended if
  and only if it has read all of that, and the daemon's only after the client has read
  every answer, with the device detached.
\<close>

theorem system_delivers_in_order:
  assumes "session_fits scfg ccfg 7"
    and "system_session mock_ops scfg ccfg fresh_mock events = Some (Inr (d, sy))"
  shows "prefix (sy_delivered sy) (session_answers ccfg 7 (keyboard_messages scfg) @ [detach_answer d]) \<and>
    (sy_client_open sy \<longleftrightarrow>
      sy_delivered sy \<noteq> session_answers ccfg 7 (keyboard_messages scfg) @ [detach_answer d]) \<and>
    (sy_daemon_open sy \<or>
      session_answers ccfg 7 (keyboard_messages scfg) =
        take (length (session_answers ccfg 7 (keyboard_messages scfg))) (sy_delivered sy) \<and>
      lc_state (ss_lifecycle (sy_daemon sy)) = Closed \<and>
      \<not> lc_attached_by_control_plane (ss_lifecycle (sy_daemon sy)))"
proof -
  have "system_run mock_ops scfg ccfg d events (attached_system scfg) = Some sy"
    using assms(2) by (auto simp: system_session_mock bind_eq_Some_conv)
  moreover have "system_ok scfg ccfg 7 d (keyboard_messages scfg) (attached_system scfg)"
    using busyI [OF attached_system_busy [OF assms(1)]] by (simp add: system_ok_def)
  ultimately have "system_ok scfg ccfg 7 d (keyboard_messages scfg) sy"
    using system_run_ok [OF _ assms(1) keyboard_event_messages] by blast
  from system_ok_delivered [OF this assms(1)] show ?thesis by blast
qed

end
