(* ===== verification/System_Liveness.thy ===== *)
theory System_Liveness imports System_Properties begin

text \<open>
  A session ends: when every part of the two programs gets its turn in rounds, each round
  carries one transfer from the client's task through the daemon and the driver and back,
  and after the last one both programs close.
\<close>

section \<open>Schedules\<close>

definition one_round :: "system_event list" where
  "one_round =
     [ClientTask, ClientTask, ClientWrites, DaemonReads, DaemonWorker, DaemonWorker, DaemonWrites,
      ClientReads, ClientUrb]"

definition fair_schedule :: "session_config \<Rightarrow> client_config \<Rightarrow> system_event list" where
  "fair_schedule scfg ccfg =
     replicate (length (keyboard_messages scfg)) ClientReads @
     concat (replicate (length (session_requests ccfg 7)) one_round) @ [DaemonReads, ClientReads]"

lemma system_run_append:
  "system_run ops scfg ccfg d (xs @ ys) sy =
     Option.bind (system_run ops scfg ccfg d xs sy) (system_run ops scfg ccfg d ys)"
  by (induction xs arbitrary: sy) (simp_all add: Option.bind_assoc split: Option.bind_splits)

text \<open>The client between two transfers, after \<open>k\<close> of them.\<close>

definition client_at :: "nat \<Rightarrow> bool \<Rightarrow> pending_payloads \<Rightarrow> client" where
  "client_at k detached pp =
     \<lparr>cl_task = \<lparr>mt_request_id = 7 + of_nat k, mt_sent_frames = of_nat k, mt_state = TaskReady\<rparr>,
      cl_channel = [], cl_vhci = [], cl_data_responses = of_nat k, cl_detach_sent = detached,
      cl_pending = pp, cl_state = ClientAttached\<rparr>"

definition system_at :: "client \<Rightarrow> mock_driver session \<Rightarrow> bytes list \<Rightarrow> bytes list \<Rightarrow> bytes list \<Rightarrow> mock_driver system"
  where
  "system_at c s up down delivered =
     \<lparr>sy_client = c, sy_client_open = True, sy_daemon = s, sy_daemon_open = True,
      sy_up = up, sy_down = down, sy_delivered = delivered\<rparr>"

section \<open>One transfer\<close>

lemma task_frame_made:
  assumes "session_fits scfg ccfg n"
  shows "mock_task_frame (cc_mock_bulk_payload_len ccfg) (n + of_nat k) =
    Some (task_request (cc_mock_bulk_payload_len ccfg) n k)"
proof -
  have "\<exists>f. mock_task_frame (cc_mock_bulk_payload_len ccfg) (n + of_nat k) = Some f"
    using assms
    by (auto simp: session_fits_def mock_task_frame_def mock_bulk_request_def mock_bulk_encode_def
        mock_bulk_synthetic_def Let_def split: option.splits)
  then show ?thesis using mock_task_frame_Some by blast
qed

lemma round_made:
  assumes fits: "session_fits scfg ccfg 7" and f: "f = task_request (cc_mock_bulk_payload_len ccfg) 7 k"
    and limit: "cc_mock_frame_limit ccfg = Some limit" and k: "k < unat limit"
    and ids: "7 + unat limit < 2 ^ 64" and wf: "wf_frame f"
  shows "\<exists>pp'. system_run mock_ops scfg ccfg d [ClientTask, ClientTask, ClientWrites]
      (system_at (client_at k False pp) s [] [] dv) =
    Some (system_at ((client_at (Suc k) False pp')\<lparr>cl_data_responses := of_nat k\<rparr>) s [wire f] [] dv)"
proof -
  have uk: "unat (of_nat k :: u64) = k" "unat (7 + of_nat k :: u64) = 7 + k"
    using k ids unat_less_2p64 [of limit] by (simp_all add: unat_word_ariths unsigned_of_nat take_bit_nat_eq_self)
  then have "\<not> limit \<le> of_nat k" "(of_nat k :: u64) \<noteq> - 1" "(7 + of_nat k :: u64) \<noteq> - 1"
    using k ids by (auto simp: word_le_nat_alt unsigned_minus_1_eq_mask mask_eq_exp_minus_1 word_unat_eq_iff)
  then show ?thesis
    using task_frame_made [OF fits, of k] limit wf
    by (cases "mock_bulk_decode (fr_payload f)")
      (auto simp: system_step_def client_moves_def client_step_def mock_task_turn_def system_at_def
        client_at_def f next_id_def on_task_frame_def frame_encode_layout CLIENT_CHANNEL_CAPACITY_def
        add.assoc add.commute Let_def)
qed

text \<open>The turns of the worker and the session's reception, as steps of the system.\<close>

lemma round_daemon:
  assumes e: "mock.echoing scfg s [] (f # todo)" and fwd: "to_driver scfg f" and wf: "wf_frame f"
    and hand: "in_hand s = []"
  shows "\<exists>s'. system_run mock_ops scfg ccfg d [DaemonReads, DaemonWorker, DaemonWorker, DaemonWrites]
      (system_at c s [wire f] [] dv) = Some (system_at c s' [] [echo f] dv) \<and>
    mock.echoing scfg s' [] todo \<and> in_hand s' = []"
proof -
  obtain s1 where s1: "session_step mock_ops scfg (NetMessage (wire f)) [] s = Some ([], Continue, s1)"
    "mock.echoing scfg s1 [f] todo" "in_hand s1 = []"
    using mock.echoing_request [OF e frame_decode_wire [OF wf] fwd] hand by auto
  obtain sent s2 fs where s2: "session_run mock_ops scfg (writes_ok [WorkerTurn, WorkerTurn, TxRecv]) s1 =
      Some (sent, Continue, s2)" "mock.echoing scfg s2 fs todo"
    "sent @ in_hand s2 @ map echo fs = [echo f]" "sent \<noteq> []"
    using mock.echoing_round [OF s1(2)] s1(3) by auto
  then have r: "sent = [echo f]" "in_hand s2 = []" "fs = []"
    by (auto simp: append_eq_Cons_conv)
  let ?t = "tx_worker_turn mock_ops (tx_worker_turn mock_ops s1)"
  obtain sent1 fl s' where step: "session_step mock_ops scfg TxRecv [] ?t = Some (sent1, fl, s')"
    using s2(1) by (auto simp: session_step_def [of _ _ WorkerTurn] bind_eq_Some_conv)
  then have "session_step mock_ops scfg TxRecv [] ?t = Some ([echo f], Continue, s2)"
    using s2(1) by (cases fl) (simp_all add: session_step_def [of _ _ WorkerTurn] r)
  then have "system_run mock_ops scfg ccfg d [DaemonReads, DaemonWorker, DaemonWorker, DaemonWrites]
      (system_at c s [wire f] [] dv) = Some (system_at c s2 [] [echo f] dv)"
    by (simp add: system_step_def daemon_reads_def daemon_worker_move system_at_def s1(1)
        daemon_moves_def [of _ _ "NetMessage _"] daemon_moves_def [of _ _ TxRecv])
  then show ?thesis using s2(2) r by blast
qed

lemma round_answered:
  assumes r: "wf_frame r" "fr_frame_type r = Response" "fr_status r = 0"
    and vhci: "cc_vhci_adapter ccfg = VhciMock"
    and limit: "cc_mock_frame_limit ccfg = Some limit" and k: "k < unat limit"
  shows "\<exists>pp'. system_run mock_ops scfg ccfg d [ClientReads, ClientUrb]
      (system_at ((client_at (Suc k) False pp)\<lparr>cl_data_responses := of_nat k\<rparr>) s [] [wire r] dv) =
    Some (system_at (client_at (Suc k) (Suc k = unat limit) pp') s
      (if Suc k = unat limit then [wire (detach_request d)] else []) [] (dv @ [wire r]))"
proof -
  have "k < 18446744073709551616" using k unat_less_2p64 [of limit] by linarith
  then have uk: "unat (of_nat k :: u64) = k"
    by (intro unat_of_nat_u64) simp
  have nx: "(of_nat k :: u64) \<noteq> - 1"
  proof
    assume "(of_nat k :: u64) = - 1"
    then have "unat (of_nat k :: u64) = 18446744073709551615"
      by (simp add: unsigned_minus_1_eq_mask mask_eq_exp_minus_1)
    then show False using uk k unat_less_2p64 [of limit] by linarith
  qed
  have "limit = of_nat k + 1 \<longleftrightarrow> Suc k = unat limit"
    using unat_next [OF nx] uk by (auto simp: word_unat_eq_iff)
  moreover have "frame_encode (detach_request d) = Some (wire (detach_request d))"
    by (simp add: frame_encode_layout wf_frame_def detach_request_def frame_new_def)
  ultimately show ?thesis
    using limit nx
    by (auto simp: system_step_def client_reads_def client_moves_def client_step_def system_at_def
        client_at_def handle_network_frame_wire [OF r(1)] r(2,3) inject_urb_def vhci
        VHCI_CHANNEL_CAPACITY_def on_data_response_def next_id_def Let_def add.commute)
qed

lemma client_moves_reads_event:
  assumes "event_messages evs" and "bs \<in> set evs"
  shows "client_step ccfg d (NetRead (NetReceived bs)) True c = Some ([], Continue, c)"
  using assms by (auto simp: event_messages_def list_all_iff client_reads_event)

lemma events_read:
  assumes "event_messages evs"
  shows "system_run mock_ops scfg ccfg d (replicate (length evs) ClientReads) (system_at c s up evs dv) =
    Some (system_at c s up [] (dv @ evs))"
  using assms
proof (induction evs arbitrary: dv)
  case (Cons bs evs)
  have "client_step ccfg d (NetRead (NetReceived bs)) True c = Some ([], Continue, c)"
    by (rule client_moves_reads_event [OF Cons.prems]) simp
  then have "system_step mock_ops scfg ccfg d ClientReads (system_at c s up (bs # evs) dv) =
      Some (system_at c s up evs (dv @ [bs]))"
    by (simp add: system_step_def client_reads_def client_moves_def system_at_def)
  then show ?case using Cons by (simp add: event_messages_def)
qed (simp add: system_at_def)

section \<open>All transfers\<close>

lemma concat_replicate_Suc: "concat (replicate (Suc k) xs) = concat (replicate k xs) @ xs"
  by (induction k) simp_all

lemma rounds_done:
  assumes fits: "session_fits scfg ccfg 7" and limit: "cc_mock_frame_limit ccfg = Some limit"
    and ids: "7 + unat limit < 2 ^ 64" and k: "k \<le> unat limit" "0 < unat limit"
    and start: "mock.echoing scfg s [] (session_requests ccfg 7)" "in_hand s = []"
  shows "\<exists>pp s'. system_run mock_ops scfg ccfg d (concat (replicate k one_round))
      (system_at (client_at 0 False Map.empty) s [] [] evs) =
    Some (system_at (client_at k (k = unat limit) pp) s'
      (if k = unat limit then [wire (detach_request d)] else []) []
      (evs @ map echo (take k (session_requests ccfg 7)))) \<and>
    mock.echoing scfg s' [] (drop k (session_requests ccfg 7)) \<and> in_hand s' = []"
  using k(1)
proof (induction k)
  case 0
  then show ?case using start k(2) by auto
next
  case (Suc k)
  let ?R = "session_requests ccfg 7"
  let ?f = "task_request (cc_mock_bulk_payload_len ccfg) 7 k"
  have less: "k < unat limit" using Suc.prems by simp
  have R: "?R = task_requests (cc_mock_bulk_payload_len ccfg) 7 (unat limit)"
    using limit by (simp add: session_requests_def)
  have fk: "k < length ?R" "?R ! k = ?f"
    using less by (simp_all add: R task_requests_def)
  then have f: "?f \<in> set ?R" and drop: "drop k ?R = ?f # drop (Suc k) ?R"
    and take: "take (Suc k) ?R = take k ?R @ [?f]"
    by (metis nth_mem, metis Cons_nth_drop_Suc, metis take_Suc_conv_app_nth)
  note ff = session_request_fields [OF fits f]
  obtain pp s' where IH: "system_run mock_ops scfg ccfg d (concat (replicate k one_round))
      (system_at (client_at 0 False Map.empty) s [] [] evs) =
      Some (system_at (client_at k False pp) s' [] [] (evs @ map echo (take k ?R)))"
    "mock.echoing scfg s' [] (?f # drop (Suc k) ?R)" "in_hand s' = []"
    using Suc.IH less drop by auto
  obtain pp1 where 1: "system_run mock_ops scfg ccfg d [ClientTask, ClientTask, ClientWrites]
      (system_at (client_at k False pp) s' [] [] (evs @ map echo (take k ?R))) =
      Some (system_at ((client_at (Suc k) False pp1)\<lparr>cl_data_responses := of_nat k\<rparr>) s' [wire ?f] []
        (evs @ map echo (take k ?R)))"
    using round_made [OF fits refl limit less ids ff(1)] by blast
  obtain s2 where 2: "system_run mock_ops scfg ccfg d [DaemonReads, DaemonWorker, DaemonWorker, DaemonWrites]
      (system_at ((client_at (Suc k) False pp1)\<lparr>cl_data_responses := of_nat k\<rparr>) s' [wire ?f] []
        (evs @ map echo (take k ?R))) =
      Some (system_at ((client_at (Suc k) False pp1)\<lparr>cl_data_responses := of_nat k\<rparr>) s2 [] [echo ?f]
        (evs @ map echo (take k ?R)))"
    "mock.echoing scfg s2 [] (drop (Suc k) ?R)" "in_hand s2 = []"
    using round_daemon [OF IH(2) ff(2,1) IH(3)] by blast
  obtain r where r: "echo ?f = wire r" "wf_frame r" "fr_frame_type r = Response" "fr_status r = 0"
    using echo_response [OF fits f] by metis
  have vhci: "cc_vhci_adapter ccfg = VhciMock" using fits by (simp add: session_fits_def)
  obtain pp3 where 3: "system_run mock_ops scfg ccfg d [ClientReads, ClientUrb]
      (system_at ((client_at (Suc k) False pp1)\<lparr>cl_data_responses := of_nat k\<rparr>) s2 [] [echo ?f]
        (evs @ map echo (take k ?R))) =
      Some (system_at (client_at (Suc k) (Suc k = unat limit) pp3) s2
        (if Suc k = unat limit then [wire (detach_request d)] else []) []
        ((evs @ map echo (take k ?R)) @ [echo ?f]))"
    using round_answered [OF r(2-4) vhci limit less] unfolding r(1) by blast
  have split: "one_round = [ClientTask, ClientTask, ClientWrites] @
      [DaemonReads, DaemonWorker, DaemonWorker, DaemonWrites] @ [ClientReads, ClientUrb]"
    by (simp add: one_round_def)
  have rounds: "concat (replicate (Suc k) one_round) = concat (replicate k one_round) @ one_round"
    by (rule concat_replicate_Suc)
  have "system_run mock_ops scfg ccfg d one_round
      (system_at (client_at k False pp) s' [] [] (evs @ map echo (take k ?R))) =
      Some (system_at (client_at (Suc k) (Suc k = unat limit) pp3) s2
        (if Suc k = unat limit then [wire (detach_request d)] else []) []
        (evs @ map echo (take (Suc k) ?R)))"
    unfolding split system_run_append 1 2(1) 3 take bind.bind_lunit by simp
  then have "system_run mock_ops scfg ccfg d (concat (replicate (Suc k) one_round))
      (system_at (client_at 0 False Map.empty) s [] [] evs) =
      Some (system_at (client_at (Suc k) (Suc k = unat limit) pp3) s2
        (if Suc k = unat limit then [wire (detach_request d)] else []) []
        (evs @ map echo (take (Suc k) ?R)))"
    unfolding rounds system_run_append IH(1) bind.bind_lunit .
  then show ?case using 2 by blast
qed

lemma departed_reads:
  assumes "departed ccfg n d evs sy"
  shows "\<exists>sy'. system_step ops scfg ccfg d ClientReads sy = Some sy'"
  using assms
  by (auto simp: system_step_def client_reads_def client_moves_def client_reads_detach_answer departed_def)

lemma departed_reads_finishes:
  assumes "departed ccfg n d evs sy" and "system_step ops scfg ccfg d ClientReads sy = Some sy'"
  shows "finished ccfg n d evs sy'"
  using assms
  by (auto simp: system_step_def client_reads_def client_moves_def client_reads_detach_answer
      departed_def finished_def daemon_closed_def client_done_def client_close_def)

lemma leaving_reads:
  assumes "leaving scfg ccfg n d evs sy"
  shows "\<exists>sy'. system_step mock_ops scfg ccfg d DaemonReads sy = Some sy'"
proof -
  have wf: "wf_frame (detach_request d)" "fr_frame_type (detach_request d) = DetachRequest"
    by (simp_all add: wf_frame_def detach_request_def frame_new_def)
  obtain out s where o: "on_detach_request mock_ops (detach_request d) (sy_daemon sy) = (out, s)"
    by fastforce
  then have "outgoing_wf out"
    by (auto simp: outgoing_wf_def on_detach_request_def wf_frame_def detach_response_def frame_new_def
        split: prod.splits)
  moreover have "on_network_frame mock_ops scfg (detach_request d) (sy_daemon sy) = Some (out, s)"
    by (simp add: on_network_frame_def wf(2) o)
  ultimately have "\<exists>sent fl. session_step mock_ops scfg (NetMessage (wire (detach_request d))) [] (sy_daemon sy) =
      Some (sent, fl, s)"
    using session_step_frame [OF frame_decode_wire [OF wf(1)]] by blast
  then show ?thesis
    using assms by (auto simp: system_step_def daemon_reads_def daemon_moves_def leaving_def)
qed

lemma fair_schedule_completes:
  assumes fits: "session_fits scfg ccfg 7" and d: "client_detach_id ccfg 7 = Some d"
  shows "\<exists>sy. system_session mock_ops scfg ccfg fresh_mock (fair_schedule scfg ccfg) = Some (Inr (d, sy)) \<and>
    sy_delivered sy = session_answers ccfg 7 (keyboard_messages scfg) @ [detach_answer d] \<and>
    \<not> sy_client_open sy \<and> \<not> sy_daemon_open sy \<and>
    lc_state (ss_lifecycle (sy_daemon sy)) = Closed \<and>
    cc_mock_frame_limit ccfg = Some (cl_data_responses (sy_client sy))"
proof -
  let ?evs = "keyboard_messages scfg" and ?R = "session_requests ccfg 7"
  obtain limit where limit: "cc_mock_frame_limit ccfg = Some limit" "0 < limit"
    "?R = task_requests (cc_mock_bulk_payload_len ccfg) 7 (unat limit)"
    by (rule session_fits_limit [OF fits])
  have n: "length ?R = unat limit" "0 < unat limit" using limit by (simp_all add: word_gt_0 unat_gt_0)
  have ids: "7 + unat limit < 2 ^ 64"
    using d limit(1) by (simp add: client_detach_id_def split: if_splits)
  have "client_start 7 = client_at 0 False Map.empty"
    by (simp add: client_start_def client_at_def)
  then have start: "attached_system scfg =
      system_at (client_at 0 False Map.empty) (session_attached scfg) [] ?evs []"
    by (simp add: system_start_def system_at_def)
  have "in_hand (session_attached scfg) = []"
    by (simp add: in_hand_def session_attached_def session_start_def)
  from rounds_done [OF fits limit(1) ids order_refl n(2) attached_system_echoing [OF fits] this, of d ?evs]
  obtain pp s where r: "system_run mock_ops scfg ccfg d (concat (replicate (unat limit) one_round))
      (system_at (client_at 0 False Map.empty) (session_attached scfg) [] [] ?evs) =
    Some (system_at (client_at (unat limit) True pp) s [wire (detach_request d)] [] (session_answers ccfg 7 ?evs))"
    "mock.echoing scfg s [] []" "in_hand s = []"
    using n(1) by (auto simp: session_answers_def)
  let ?sy = "system_at (client_at (unat limit) True pp) s [wire (detach_request d)] [] (session_answers ccfg 7 ?evs)"
  have l: "leaving scfg ccfg 7 d ?evs ?sy"
    using r(2,3) limit(1)
    by (simp add: leaving_def client_done_def system_at_def client_at_def in_hand_of_def)
  obtain sy1 where 1: "system_step mock_ops scfg ccfg d DaemonReads ?sy = Some sy1"
    using leaving_reads [OF l] by blast
  have "daemon_reads mock_ops scfg ?sy = Some sy1"
    using 1 by (simp add: system_step_def system_at_def)
  note dep = daemon_reads_detach [OF l this]
  obtain sy where 2: "system_step mock_ops scfg ccfg d ClientReads sy1 = Some sy"
    using departed_reads [OF dep] by blast
  have fin: "finished ccfg 7 d ?evs sy"
    by (rule departed_reads_finishes [OF dep 2])
  have "system_run mock_ops scfg ccfg d (fair_schedule scfg ccfg) (attached_system scfg) = Some sy"
    using events_read [OF keyboard_event_messages, of scfg ccfg d scfg _ _ _ "[]"] r(1) 1 2
    by (simp add: fair_schedule_def system_run_append start n(1))
  then show ?thesis
    using fin d by (auto simp: system_session_mock finished_def daemon_closed_def)
qed

text \<open>
  C1: A session with a limit completes: when client, task, session and worker get their turns
  in rounds, a round per request carries its answer back, and after the last one the client
  asks for the detach, the daemon answers and closes with the device detached, and the client
  closes, having read the answer of every request and nothing else.
\<close>

theorem system_completes:
  assumes fits: "session_fits scfg ccfg 7" and d: "client_detach_id ccfg 7 = Some d"
  shows "\<exists>sy. system_session mock_ops scfg ccfg fresh_mock (fair_schedule scfg ccfg) = Some (Inr (d, sy)) \<and>
    sy_delivered sy = session_answers ccfg 7 (keyboard_messages scfg) @ [detach_answer d] \<and>
    \<not> sy_client_open sy \<and> \<not> sy_daemon_open sy \<and>
    lc_state (ss_lifecycle (sy_daemon sy)) = Closed \<and>
    cc_mock_frame_limit ccfg = Some (cl_data_responses (sy_client sy))"
  using assms by (rule fair_schedule_completes)

section \<open>A session of one transfer\<close>

definition one_transfer_config :: client_config where
  "one_transfer_config =
     \<lparr>cc_vhci_adapter = VhciMock, cc_mock_frame_limit = Some 1, cc_mock_bulk_payload_len = None\<rparr>"

lemma one_transfer_fits: "session_fits plain_config one_transfer_config 7"
  and one_transfer_requests: "session_requests one_transfer_config 7 = [mock_request 7 mock_urb_text]"
  and one_transfer_detach: "client_detach_id one_transfer_config 7 = Some 8"
  by (simp_all add: session_fits_def one_transfer_config_def session_requests_def task_requests_def
      task_request_def mock_request_def frame_new_def mock_urb_text_def RING_BUFFER_SIZE_def
      frame_bytes_def client_detach_id_def plain_config_def)

theorem system_completes_witness:
  "\<exists>sy. system_session mock_ops plain_config one_transfer_config fresh_mock
      (fair_schedule plain_config one_transfer_config) = Some (Inr (8, sy)) \<and>
    sy_delivered sy = [echo (mock_request 7 mock_urb_text), detach_answer 8]"
  using system_completes [OF one_transfer_fits one_transfer_detach]
  by (auto simp: session_answers_def one_transfer_requests plain_config_def mock_hid_keyboard_events_def)

theorem system_delivers_in_order_witness:
  "\<exists>sy. system_session mock_ops plain_config one_transfer_config fresh_mock
      (fair_schedule plain_config one_transfer_config) = Some (Inr (8, sy)) \<and>
    prefix (sy_delivered sy) [echo (mock_request 7 mock_urb_text), detach_answer 8] \<and>
    (sy_client_open sy \<longleftrightarrow> sy_delivered sy \<noteq> [echo (mock_request 7 mock_urb_text), detach_answer 8])"
proof -
  obtain sy where run: "system_session mock_ops plain_config one_transfer_config fresh_mock
      (fair_schedule plain_config one_transfer_config) = Some (Inr (8, sy))"
    using fair_schedule_completes [OF one_transfer_fits one_transfer_detach] by blast
  from system_delivers_in_order [OF one_transfer_fits run] run show ?thesis
    by (simp add: session_answers_def one_transfer_requests plain_config_def mock_hid_keyboard_events_def)
qed

end
