(* ===== verification/System_Progress.thy ===== *)
theory System_Progress imports System_Liveness begin

text \<open>
  No reachable state is a dead end: whatever the parts of the two programs have done so far,
  their remaining steps can be ordered so that the session completes. The proof gives each
  state a number, of what is still to be carried and how far, and shows a step that lowers it.
\<close>

section \<open>The task ends with its last request only\<close>

definition task_alive :: "client_config \<Rightarrow> 'd system \<Rightarrow> bool" where
  "task_alive ccfg sy \<longleftrightarrow>
     (sy_client_open sy \<and> mt_state (cl_task (sy_client sy)) = TaskEnded \<longrightarrow>
      cc_mock_frame_limit ccfg = Some (mt_sent_frames (cl_task (sy_client sy))))"

lemma client_step_task:
  assumes "client_step ccfg d event written c = Some (sent, fl, c')" and "event \<noteq> TaskTurn"
  shows "cl_task c' = cl_task c"
proof -
  have response: "cl_task c2 = cl_task c1" if "on_data_response ccfg d written c1 = Some (out, fl2, c2)"
    for c1 c2 out fl2
    using that by (auto simp: on_data_response_def bind_eq_Some_conv Let_def split: if_splits)
  consider bs where "event = NetRead (NetReceived bs)" | "event = NetRead NetFailed \<or> event = NetRead NetClosed"
    | "event = TaskFrame" | "event = VhciUrb"
    using assms(2) by (cases event; cases "case event of NetRead r \<Rightarrow> r | _ \<Rightarrow> NetFailed") auto
  then show ?thesis
  proof cases
    case (1 bs)
    then obtain action pp vhci where "handle_network_frame (cc_vhci_adapter ccfg) (cl_pending c) (cl_vhci c) bs =
        Some (action, pp, vhci)"
      using assms(1) by (auto simp: client_step_def bind_eq_Some_conv)
    then show ?thesis
      using assms(1) 1 response [of "c\<lparr>cl_pending := pp, cl_vhci := vhci\<rparr>" sent fl c']
      by (cases action) (auto simp: client_step_def Let_def)
  next
    case 3
    then show ?thesis
      using assms(1)
      by (auto simp: client_step_def on_task_frame_def bind_eq_Some_conv Let_def
          split: list.splits sum.splits if_splits)
  qed (use assms(1) in \<open>auto simp: client_step_def\<close>)
qed

lemma client_moves_task:
  "client_moves ccfg d event sy = Some sy' \<Longrightarrow> event \<noteq> TaskTurn \<Longrightarrow>
   sy_client_open sy' \<Longrightarrow> cl_task (sy_client sy') = cl_task (sy_client sy)"
proof -
  assume s: "client_moves ccfg d event sy = Some sy'" and e: "event \<noteq> TaskTurn" and o: "sy_client_open sy'"
  then obtain sent fl c where step: "client_step ccfg d event True (sy_client sy) = Some (sent, fl, c)"
    by (auto simp: client_moves_def bind_eq_Some_conv)
  then show ?thesis
    using s o client_step_task [OF step e] by (cases fl) (auto simp: client_moves_def)
qed

lemma task_ids:
  assumes "client_detach_id ccfg 7 = Some d" and "cc_mock_frame_limit ccfg = Some limit"
    and "unat (sent :: u64) < unat limit"
  shows "sent \<noteq> - 1" and "7 + sent \<noteq> - 1"
proof -
  have "7 + unat limit < 2 ^ 64"
    using assms(1,2) by (simp add: client_detach_id_def split: if_splits)
  then have "unat sent \<noteq> 18446744073709551615" "unat (7 + sent) \<noteq> 18446744073709551615"
    using assms(3) unat_less_2p64 [of limit] by (simp_all add: unat_word_ariths)
  moreover have "unat (- 1 :: u64) = 18446744073709551615"
    by (simp add: unsigned_minus_1_eq_mask mask_eq_exp_minus_1)
  ultimately show "sent \<noteq> - 1" "7 + sent \<noteq> - 1"
    by metis+
qed

lemma busy_task_alive:
  assumes b: "busy_with scfg ccfg 7 evs got up fs todo sy" and fits: "session_fits scfg ccfg 7"
    and d: "client_detach_id ccfg 7 = Some d"
    and a: "task_alive ccfg sy" and s: "client_moves ccfg d TaskTurn sy = Some sy'"
  shows "task_alive ccfg sy'"
proof -
  let ?t = "cl_task (sy_client sy)"
  obtain limit where limit: "cc_mock_frame_limit ccfg = Some limit"
    by (rule session_fits_limit [OF fits]) blast
  have ok: "mt_request_id ?t = 7 + of_nat (unat (mt_sent_frames ?t))" "mt_sent_frames ?t \<le> limit"
    using b limit by (auto simp: busy_with_def task_ok_def)
  obtain task channel where t: "mock_task_turn (cc_mock_frame_limit ccfg)
      (cc_mock_bulk_payload_len ccfg) ?t (cl_channel (sy_client sy)) = (task, channel)"
    by fastforce
  have sy': "sy' = sy\<lparr>sy_client := (sy_client sy)\<lparr>cl_task := task, cl_channel := channel\<rparr>\<rparr>"
    using s by (simp add: client_moves_def client_step_def t)
  have "mt_sent_frames task = limit" if ended: "mt_state task = TaskEnded"
  proof (rule ccontr)
    assume other: "mt_sent_frames task \<noteq> limit"
    have "mt_state ?t \<noteq> TaskEnded"
      using a limit b t other ended by (auto simp: task_alive_def busy_with_def mock_task_turn_def)
    moreover have "mt_state ?t \<noteq> TaskSending f" for f
      using t ended by (auto simp: mock_task_turn_def split: if_splits)
    ultimately have ready: "mt_state ?t = TaskReady" by (cases "mt_state ?t") auto
    have less: "\<not> limit \<le> mt_sent_frames ?t"
    proof
      assume "limit \<le> mt_sent_frames ?t"
      then have "mt_sent_frames ?t = limit" "task = ?t\<lparr>mt_state := TaskEnded\<rparr>"
        using ok(2) t ready limit by (simp_all add: mock_task_turn_def)
      then show False using other by simp
    qed
    then have "unat (mt_sent_frames ?t) < unat limit" by (simp add: word_le_nat_alt)
    then have "mt_sent_frames ?t \<noteq> - 1" "mt_request_id ?t \<noteq> - 1"
      using task_ids [OF d limit] ok(1) by simp_all
    then have "mt_state task \<noteq> TaskEnded"
      using t ready limit less ok(1) task_frame_made [OF fits, of "unat (mt_sent_frames ?t)"]
      by (auto simp: mock_task_turn_def next_id_def)
    then show False using ended by simp
  qed
  then show ?thesis using limit by (simp add: task_alive_def sy')
qed

lemma daemon_moves_client:
  assumes "daemon_moves ops scfg event sy = Some sy'"
  shows "sy_client sy' = sy_client sy" and "sy_client_open sy' = sy_client_open sy"
proof -
  obtain sent fl s where "session_step ops scfg event [] (sy_daemon sy) = Some (sent, fl, s)"
    using assms by (auto simp: daemon_moves_def bind_eq_Some_conv)
  then show "sy_client sy' = sy_client sy" "sy_client_open sy' = sy_client_open sy"
    using assms by (cases fl; auto simp: daemon_moves_def)+
qed

section \<open>How much is left\<close>

text \<open>
  The transfers made, taken from the task's hand, written to the connection and read by the
  daemon; the messages polled from the driver, put into the channel, written and read by the
  client. Every step that carries something on raises one of them.
\<close>

definition carried :: "mock_driver system \<Rightarrow> nat" where
  "carried sy =
     (let c = sy_client sy;
          made = unat (mt_sent_frames (cl_task c));
          taken = made - length (in_hand_of (cl_task c));
          written = taken - length (cl_channel c);
          delivered = length (sy_delivered sy);
          sent = delivered + length (sy_down sy)
      in made + taken + written + (written - length (sy_up sy)) +
         (sent + length (in_hand (sy_daemon sy))) + (sent + length (ss_channel (sy_daemon sy))) +
         sent + 2 * delivered)"

definition still_to_carry :: "client_config \<Rightarrow> bytes list \<Rightarrow> mock_driver system \<Rightarrow> nat" where
  "still_to_carry ccfg evs sy =
     9 * length (session_requests ccfg 7) + 5 * length evs + length (cl_vhci (sy_client sy)) - carried sy"

lemma busy_counts:
  assumes b: "busy_with scfg ccfg n evs got up fs todo sy" and fits: "session_fits scfg ccfg n"
  defines "c \<equiv> sy_client sy"
  shows "unat (mt_sent_frames (cl_task c)) =
      length got + length up + length (cl_channel c) + length (in_hand_of (cl_task c))"
    and "length (sy_delivered sy) + length (sy_down sy) + length (in_hand (sy_daemon sy)) + length fs =
      length evs + length got"
    and "length (sy_up sy) = length up"
    and "length got + length up + length (cl_channel c) + length (in_hand_of (cl_task c)) \<le>
      length (session_requests ccfg n)"
proof -
  have "got @ up @ cl_channel c @ in_hand_of (cl_task c) =
      task_requests (cc_mock_bulk_payload_len ccfg) n (unat (mt_sent_frames (cl_task c)))"
    and flow: "sy_delivered sy @ sy_down sy @ in_hand (sy_daemon sy) @ map echo fs = evs @ map echo got"
    using b by (simp_all add: busy_with_def c_def)
  from arg_cong [OF this(1), of length] show "unat (mt_sent_frames (cl_task c)) =
      length got + length up + length (cl_channel c) + length (in_hand_of (cl_task c))" by simp
  from arg_cong [OF flow, of length] show "length (sy_delivered sy) + length (sy_down sy) +
      length (in_hand (sy_daemon sy)) + length fs = length evs + length got" by simp
  show "length (sy_up sy) = length up" using b by (simp add: busy_with_def)
  obtain rest where "got @ up @ cl_channel c @ in_hand_of (cl_task c) @ rest = session_requests ccfg n"
    using busy_made [OF b fits] by (auto simp: c_def)
  from arg_cong [OF this, of length] show "length got + length up + length (cl_channel c) +
      length (in_hand_of (cl_task c)) \<le> length (session_requests ccfg n)" by simp
qed

lemma in_hand_length: "length (ss_channel s) \<le> length (in_hand s)"
  by (simp add: in_hand_def)

lemma carried_bound:
  assumes b: "busy_with scfg ccfg 7 evs got up fs todo sy" and fits: "session_fits scfg ccfg 7"
  shows "carried sy \<le> 9 * length (session_requests ccfg 7) + 5 * length evs"
  using busy_counts [OF b fits] in_hand_length [of "sy_daemon sy"]
  by (simp add: carried_def Let_def)

text \<open>A step that carries something on lowers the number, if the state is still busy after it.\<close>

lemma still_to_carry_less:
  assumes "busy_with scfg ccfg 7 evs got up fs todo sy'" "session_fits scfg ccfg 7"
    and "carried sy + length (cl_vhci (sy_client sy')) < carried sy' + length (cl_vhci (sy_client sy))"
  shows "still_to_carry ccfg evs sy' < still_to_carry ccfg evs sy"
  using carried_bound [OF assms(1,2)] assms(3) by (simp add: still_to_carry_def)

section \<open>A step that carries something on\<close>

lemma client_reads_room:
  assumes b: "busy_with scfg ccfg n evs got up fs todo sy" and fits: "session_fits scfg ccfg n"
    and evs: "event_messages evs" and down: "sy_down sy = bs # rest" and vhci: "cl_vhci (sy_client sy) = []"
  shows "\<exists>sy'. client_reads ccfg d sy = Some sy' \<and>
    (\<not> cl_detach_sent (sy_client sy') \<longrightarrow> sy_down sy' = rest \<and> sy_delivered sy' = sy_delivered sy @ [bs] \<and>
      length (cl_vhci (sy_client sy')) \<le> 1 \<and> sy_daemon sy' = sy_daemon sy \<and> sy_up sy' = sy_up sy \<and>
      cl_channel (sy_client sy') = cl_channel (sy_client sy) \<and> cl_task (sy_client sy') = cl_task (sy_client sy))"
proof (cases "length (sy_delivered sy) < length evs")
  case True
  then have "bs \<in> set evs" using busy_next [OF b down] by simp
  then have "client_step ccfg d (NetRead (NetReceived bs)) True (sy_client sy) = Some ([], Continue, sy_client sy)"
    by (rule client_moves_reads_event [OF evs])
  then show ?thesis by (simp add: client_reads_def client_moves_def down vhci)
next
  case False
  then obtain f where f: "f \<in> set got" "bs = echo f"
    using busy_next [OF b down] by auto
  then have "f \<in> set (session_requests ccfg n)"
    using b by (metis busy_with_def Un_iff set_append)
  then obtain r where r: "bs = wire r" "wf_frame r" "fr_frame_type r = Response" "fr_status r = 0"
    using echo_response [OF fits] f(2) by metis
  have "unat (cl_data_responses (sy_client sy)) < length (session_requests ccfg n)"
    using b by (simp add: busy_with_def)
  moreover obtain limit :: u64 where "session_requests ccfg n = task_requests (cc_mock_bulk_payload_len ccfg) n (unat limit)"
    by (rule session_fits_limit [OF fits]) blast
  ultimately have "unat (cl_data_responses (sy_client sy)) < unat limit" by simp
  then have "unat (cl_data_responses (sy_client sy)) \<noteq> 18446744073709551615"
    using unat_less_2p64 [of limit] by linarith
  then have nx: "cl_data_responses (sy_client sy) \<noteq> - 1"
    by (auto simp: unsigned_minus_1_eq_mask mask_eq_exp_minus_1)
  have "cc_vhci_adapter ccfg = VhciMock" using fits by (simp add: session_fits_def)
  moreover have "frame_encode (detach_request d) = Some (wire (detach_request d))"
    by (simp add: frame_encode_layout wf_frame_def detach_request_def frame_new_def)
  ultimately show ?thesis
    using nx
    by (simp add: client_reads_def client_moves_def client_step_def handle_network_frame_wire r down
        inject_urb_def vhci VHCI_CHANNEL_CAPACITY_def on_data_response_def next_id_def Let_def)
qed

lemma busy_progress:
  assumes busy: "busy scfg ccfg 7 evs sy" and fits: "session_fits scfg ccfg 7" and evs: "event_messages evs"
    and alive: "task_alive ccfg sy" and d: "client_detach_id ccfg 7 = Some d"
  shows "\<exists>event sy'. system_step mock_ops scfg ccfg d event sy = Some sy' \<and>
    (busy scfg ccfg 7 evs sy' \<longrightarrow>
      carried sy + length (cl_vhci (sy_client sy')) < carried sy' + length (cl_vhci (sy_client sy)))"
proof -
  obtain got up fs todo where b: "busy_with scfg ccfg 7 evs got up fs todo sy"
    using busy by (auto simp: busy_def)
  let ?c = "sy_client sy" and ?s = "sy_daemon sy"
  have opens: "sy_client_open sy" "sy_daemon_open sy" and e: "mock.echoing scfg ?s fs todo"
    using b by (simp_all add: busy_with_def)
  note n = busy_counts [OF b fits]
  have room: "length ([] :: bytes list) < TX_CHANNEL_CAPACITY" "length ([] :: frame list) < CLIENT_CHANNEL_CAPACITY"
    by (simp_all add: TX_CHANNEL_CAPACITY_def CLIENT_CHANNEL_CAPACITY_def)
  consider (urb) "cl_vhci ?c \<noteq> []"
    | (read) bs rest where "cl_vhci ?c = []" "sy_down sy = bs # rest"
    | (answer) bs rest where "ss_channel ?s = bs # rest"
    | (channel) bs where "ss_channel ?s = []" "ss_worker ?s = Sending bs"
    | (poll) f fs' where "ss_worker ?s = Polling" "fs = f # fs'"
    | (request) f up' where "up = f # up'"
    | (send) f rest where "cl_channel ?c = f # rest"
    | (hand) f where "cl_channel ?c = []" "mt_state (cl_task ?c) = TaskSending f"
    | (make) "sy_down sy = []" "ss_channel ?s = []" "ss_worker ?s = Polling" "fs = []" "up = []"
        "cl_channel ?c = []" "in_hand_of (cl_task ?c) = []"
  proof -
    have ne: "xs = [] \<or> (\<exists>y ys. xs = y # ys)" for xs :: "'x list"
      by (cases xs) simp_all
    have "ss_worker ?s = Polling \<or> (\<exists>bs. ss_worker ?s = Sending bs)"
      using e by (cases "ss_worker ?s") (simp_all add: mock.echoing_def)
    moreover have "in_hand_of (cl_task ?c) = [] \<or> (\<exists>f. mt_state (cl_task ?c) = TaskSending f)"
      by (cases "mt_state (cl_task ?c)") (simp_all add: in_hand_of_def)
    ultimately show thesis
      using that ne [of "cl_vhci ?c"] ne [of "sy_down sy"] ne [of "ss_channel ?s"] ne [of fs] ne [of up]
        ne [of "cl_channel ?c"]
      by blast
  qed
  then show ?thesis
  proof cases
    case urb
    then show ?thesis
      using opens
      by (intro exI [of _ ClientUrb]) (simp add: system_step_def client_moves_def client_step_def carried_def Let_def)
  next
    case read
    obtain sy' where s: "client_reads ccfg d sy = Some sy'" and r: "\<not> cl_detach_sent (sy_client sy') \<longrightarrow>
      sy_down sy' = rest \<and> sy_delivered sy' = sy_delivered sy @ [bs] \<and>
      length (cl_vhci (sy_client sy')) \<le> 1 \<and> sy_daemon sy' = sy_daemon sy \<and> sy_up sy' = sy_up sy \<and>
      cl_channel (sy_client sy') = cl_channel ?c \<and> cl_task (sy_client sy') = cl_task ?c"
      using client_reads_room [OF b fits evs read(2,1)] by blast
    have "\<not> cl_detach_sent (sy_client sy')" if "busy scfg ccfg 7 evs sy'"
      using that by (auto simp: busy_def busy_with_def)
    then show ?thesis
      using opens s r read
      by (intro exI [of _ ClientReads] exI [of _ sy']) (auto simp: system_step_def carried_def Let_def)
  next
    case answer
    then show ?thesis
      using opens n
      by (intro exI [of _ DaemonWrites])
        (simp add: system_step_def daemon_moves_def session_step_def carried_def in_hand_def Let_def)
  next
    case channel
    then show ?thesis
      using opens n room
      by (intro exI [of _ DaemonWorker])
        (simp add: system_step_def daemon_worker_move tx_worker_turn_def carried_def in_hand_def Let_def)
  next
    case poll
    obtain dr where "tx_worker_turn mock_ops ?s = ?s\<lparr>ss_worker := Sending (echo f), ss_driver := dr\<rparr>"
      using mock.echoing_poll [of scfg ?s f fs' todo] e poll by auto
    then show ?thesis
      using opens n poll
      by (intro exI [of _ DaemonWorker])
        (simp add: system_step_def daemon_worker_move carried_def in_hand_def Let_def)
  next
    case request
    show ?thesis
      using busy_request [OF b [unfolded request] fits] opens n request
      by (intro exI [of _ DaemonReads]) (auto simp: system_step_def carried_def Let_def)
  next
    case send
    show ?thesis
      using busy_sends [OF b fits send, of d] opens n send
      by (intro exI [of _ ClientWrites]) (auto simp: system_step_def carried_def Let_def)
  next
    case hand
    then show ?thesis
      using opens n room
      by (intro exI [of _ ClientTask])
        (simp add: system_step_def client_moves_def client_step_def mock_task_turn_def carried_def
          in_hand_of_def Let_def)
  next
    case make
    obtain limit where limit: "cc_mock_frame_limit ccfg = Some limit"
      "session_requests ccfg 7 = task_requests (cc_mock_bulk_payload_len ccfg) 7 (unat limit)"
      by (rule session_fits_limit [OF fits]) blast
    let ?t = "cl_task ?c"
    have "in_hand ?s = []" using make by (simp add: in_hand_def)
    then have "length (sy_delivered sy) = length evs + length got" "unat (mt_sent_frames ?t) = length got"
      using n make by simp_all
    then have less: "unat (mt_sent_frames ?t) < unat limit"
      using b limit(2) by (simp add: busy_with_def)
    then have "mt_state ?t \<noteq> TaskEnded"
      using alive opens limit(1) by (auto simp: task_alive_def)
    then have ready: "mt_state ?t = TaskReady"
      using make(7) by (cases "mt_state ?t") (simp_all add: in_hand_of_def)
    have id: "mt_request_id ?t = 7 + of_nat (unat (mt_sent_frames ?t))"
      using b by (simp add: busy_with_def task_ok_def)
    have ids: "mt_sent_frames ?t \<noteq> - 1" "mt_request_id ?t \<noteq> - 1"
      using task_ids [OF d limit(1) less] id by simp_all
    have "\<not> limit \<le> mt_sent_frames ?t" using less by (simp add: word_le_nat_alt)
    then show ?thesis
      using opens n make ready ids limit(1) id task_frame_made [OF fits, of "unat (mt_sent_frames ?t)"]
        unat_next [OF ids(1)]
      by (intro exI [of _ ClientTask])
        (simp add: system_step_def client_moves_def client_step_def mock_task_turn_def next_id_def
          carried_def in_hand_of_def Let_def)
  qed
qed

section \<open>Completion\<close>

lemma over_not_busy:
  "leaving scfg ccfg n d evs sy \<or> departed ccfg n d evs sy \<or> finished ccfg n d evs sy \<Longrightarrow>
   \<not> busy scfg ccfg n evs sy"
  by (auto simp: leaving_def departed_def finished_def client_done_def busy_def busy_with_def)

definition can_go_on ::
  "session_config \<Rightarrow> client_config \<Rightarrow> u64 \<Rightarrow> bytes list \<Rightarrow> mock_driver system \<Rightarrow> bool" where
  "can_go_on scfg ccfg d evs sy \<longleftrightarrow>
     system_ok scfg ccfg 7 d evs sy \<and> (busy scfg ccfg 7 evs sy \<longrightarrow> task_alive ccfg sy)"

lemma system_step_can_go_on:
  assumes g: "can_go_on scfg ccfg d evs sy" and fits: "session_fits scfg ccfg 7" and evs: "event_messages evs"
    and d: "client_detach_id ccfg 7 = Some d" and s: "system_step mock_ops scfg ccfg d event sy = Some sy'"
  shows "can_go_on scfg ccfg d evs sy'"
proof -
  have ok: "system_ok scfg ccfg 7 d evs sy'"
    using system_step_ok [OF _ fits evs s] g by (simp add: can_go_on_def)
  have "task_alive ccfg sy'" if busy': "busy scfg ccfg 7 evs sy'"
  proof -
    have busy: "busy scfg ccfg 7 evs sy"
      using g busy' leaving_step [OF _ s] departed_step [OF _ s] over_not_busy [of scfg ccfg 7 d evs sy']
        finished_step [OF _ s]
      by (auto simp: can_go_on_def system_ok_def)
    then obtain got up fs todo where b: "busy_with scfg ccfg 7 evs got up fs todo sy"
      by (auto simp: busy_def)
    have alive: "task_alive ccfg sy" and opens: "sy_client_open sy" "sy_daemon_open sy" "sy_client_open sy'"
      using g busy b busy' by (auto simp: can_go_on_def busy_with_def busy_def)
    have moved: "task_alive ccfg sy'" if "client_moves ccfg d ev sy0 = Some sy'" "ev \<noteq> TaskTurn"
      "sy_client sy0 = sy_client sy" for ev sy0
      using client_moves_task [OF that(1,2) opens(3)] alive opens that(3) by (simp add: task_alive_def)
    have daemon: "task_alive ccfg sy'" if "daemon_moves mock_ops scfg ev sy0 = Some sy'"
      "sy_client sy0 = sy_client sy" "sy_client_open sy0" for ev sy0
      using daemon_moves_client [OF that(1)] alive opens that(2,3) by (simp add: task_alive_def)
    show ?thesis
    proof (cases event)
      case ClientReads
      then show ?thesis
        using s opens moved alive
        by (auto simp: system_step_def client_reads_def split: list.splits if_splits)
    next
      case DaemonReads
      then show ?thesis
        using s opens daemon alive
        by (auto simp: system_step_def daemon_reads_def split: list.splits if_splits)
    qed (use s opens moved daemon busy_task_alive [OF b fits d alive] in \<open>simp_all add: system_step_def\<close>)
  qed
  then show ?thesis using ok by (simp add: can_go_on_def)
qed

lemma system_run_can_go_on:
  assumes "can_go_on scfg ccfg d evs sy" "session_fits scfg ccfg 7" "event_messages evs"
    "client_detach_id ccfg 7 = Some d" "system_run mock_ops scfg ccfg d events sy = Some sy'"
  shows "can_go_on scfg ccfg d evs sy'"
  using assms(1,5)
  by (induction events arbitrary: sy)
    (auto simp: bind_eq_Some_conv dest: system_step_can_go_on [OF _ assms(2-4)])

lemma over_can_finish:
  assumes "leaving scfg ccfg n d evs sy \<or> departed ccfg n d evs sy \<or> finished ccfg n d evs sy"
  shows "\<exists>events sy'. system_run mock_ops scfg ccfg d events sy = Some sy' \<and> finished ccfg n d evs sy'"
proof -
  have fin: "\<exists>sy'. system_run mock_ops scfg ccfg d [ClientReads] sy = Some sy' \<and> finished ccfg n d evs sy'"
    if dep: "departed ccfg n d evs sy" for sy
  proof -
    obtain sy' where s: "system_step mock_ops scfg ccfg d ClientReads sy = Some sy'"
      using departed_reads [OF dep] by blast
    then show ?thesis using departed_reads_finishes [OF dep s] by simp
  qed
  from assms consider "leaving scfg ccfg n d evs sy" | "departed ccfg n d evs sy" | "finished ccfg n d evs sy"
    by blast
  then show ?thesis
  proof cases
    case 1
    obtain sy1 where s: "system_step mock_ops scfg ccfg d DaemonReads sy = Some sy1"
      using leaving_reads [OF 1] by blast
    moreover have "sy_daemon_open sy" using 1 by (simp add: leaving_def)
    ultimately have "daemon_reads mock_ops scfg sy = Some sy1" by (simp add: system_step_def)
    from fin [OF daemon_reads_detach [OF 1 this]] obtain sy' where
      "system_run mock_ops scfg ccfg d [ClientReads] sy1 = Some sy'" "finished ccfg n d evs sy'"
      by blast
    then show ?thesis using s by (intro exI [of _ "[DaemonReads, ClientReads]"]) simp
  next
    case 2
    then show ?thesis using fin by blast
  next
    case 3
    then show ?thesis by (intro exI [of _ "[]"]) simp
  qed
qed

lemma can_finish:
  assumes fits: "session_fits scfg ccfg 7" and evs: "event_messages evs"
    and d: "client_detach_id ccfg 7 = Some d"
  shows "can_go_on scfg ccfg d evs sy \<Longrightarrow>
    \<exists>events sy'. system_run mock_ops scfg ccfg d events sy = Some sy' \<and> finished ccfg 7 d evs sy'"
proof (induction "still_to_carry ccfg evs sy" arbitrary: sy rule: less_induct)
  case less
  show ?case
  proof (cases "busy scfg ccfg 7 evs sy")
    case True
    obtain event sy1 where s: "system_step mock_ops scfg ccfg d event sy = Some sy1"
      and m: "busy scfg ccfg 7 evs sy1 \<longrightarrow> carried sy + length (cl_vhci (sy_client sy1)) <
        carried sy1 + length (cl_vhci (sy_client sy))"
      using busy_progress [OF True fits evs _ d] less.prems True by (auto simp: can_go_on_def)
    have g: "can_go_on scfg ccfg d evs sy1"
      by (rule system_step_can_go_on [OF less.prems fits evs d s])
    have "\<exists>events sy'. system_run mock_ops scfg ccfg d events sy1 = Some sy' \<and> finished ccfg 7 d evs sy'"
    proof (cases "busy scfg ccfg 7 evs sy1")
      case True
      then have "still_to_carry ccfg evs sy1 < still_to_carry ccfg evs sy"
        using still_to_carry_less [OF _ fits] m by (auto simp: busy_def)
      then show ?thesis using less.hyps g by blast
    next
      case False
      then show ?thesis using g by (intro over_can_finish) (auto simp: can_go_on_def system_ok_def)
    qed
    then show ?thesis
      using s by (metis bind.bind_lunit system_run.simps(2))
  next
    case False
    then show ?thesis using less.prems by (intro over_can_finish) (auto simp: can_go_on_def system_ok_def)
  qed
qed



end
