(* ===== verification/System_Faults.thy ===== *)
theory System_Faults imports System_Progress begin

text \<open>
  The two programs on a connection that fails: any read may give an error and any write may
  fail, at either side. Every such run is matched by a run on a connection that does not
  fail, as far as the loops that are still running can tell, so what the client has read is
  still an initial part of what it should read, and a daemon that stops has let go of the
  device.
\<close>

section \<open>Steps that may fail\<close>

datatype faulty_event = Works system_event "bool list" | ClientReadError | DaemonReadError

definition faulty_step ::
  "('d, 'm) driver_ops_scheme \<Rightarrow> session_config \<Rightarrow> client_config \<Rightarrow> u64 \<Rightarrow> faulty_event \<Rightarrow>
   'd system \<Rightarrow> 'd system option" where
  "faulty_step ops scfg ccfg d event sy =
     (case event of
        Works event oks \<Rightarrow> system_step_with ops scfg ccfg d event oks sy
      | ClientReadError \<Rightarrow>
          if sy_client_open sy then client_moves ccfg d (NetRead NetFailed) sy else Some sy
      | DaemonReadError \<Rightarrow>
          if sy_daemon_open sy then daemon_moves ops scfg NetError sy else Some sy)"

fun faulty_run ::
  "('d, 'm) driver_ops_scheme \<Rightarrow> session_config \<Rightarrow> client_config \<Rightarrow> u64 \<Rightarrow> faulty_event list \<Rightarrow>
   'd system \<Rightarrow> 'd system option" where
  "faulty_run ops scfg ccfg d [] sy = Some sy"
| "faulty_run ops scfg ccfg d (event # events) sy =
     Option.bind (faulty_step ops scfg ccfg d event sy) (faulty_run ops scfg ccfg d events)"

definition faulty_session ::
  "('d, 'm) driver_ops_scheme \<Rightarrow> session_config \<Rightarrow> client_config \<Rightarrow> 'd \<Rightarrow> faulty_event list \<Rightarrow>
   (client_error + u64 \<times> 'd system) option" where
  "faulty_session ops scfg ccfg driver events =
     Option.bind (client_attach (daemon_net ops scfg) \<lparr>dp_session = session_start driver, dp_inbox = []\<rparr>)
       (\<lambda>(res, p). case res of
          Inl e \<Rightarrow> Some (Inl e)
        | Inr n \<Rightarrow>
            Option.bind (client_detach_id ccfg n) (\<lambda>d.
              map_option (\<lambda>sy. Inr (d, sy)) (faulty_run ops scfg ccfg d events (system_start n p))))"

section \<open>What a failed write changes\<close>

text \<open>A step whose write fails ends the loop; a step that writes nothing is not affected.\<close>

lemma client_step_writes:
  assumes "client_step ccfg d event ok c = Some (sent, fl, c')"
  shows "\<exists>sent' fl' c2. client_step ccfg d event True c = Some (sent', fl', c2) \<and>
    ((sent, fl, c') = (sent', fl', c2) \<or> sent = [] \<and> fl = Break)"
proof -
  have response: "\<exists>sent' fl' c2. on_data_response ccfg d True c1 = Some (sent', fl', c2) \<and>
      ((sent, fl, c') = (sent', fl', c2) \<or> sent = [] \<and> fl = Break)"
    if "on_data_response ccfg d ok c1 = Some (sent, fl, c')" for c1
    using that by (cases ok) (auto simp: on_data_response_def bind_eq_Some_conv Let_def split: if_splits)
  consider (frame) bs where "event = NetRead (NetReceived bs)"
    | (task) "event = TaskFrame" | (other) "event \<noteq> TaskFrame" "\<forall>bs. event \<noteq> NetRead (NetReceived bs)"
    by (cases event; cases "case event of NetRead r \<Rightarrow> r | _ \<Rightarrow> NetFailed") auto
  then show ?thesis
  proof cases
    case frame
    then obtain action pp vhci where h: "handle_network_frame (cc_vhci_adapter ccfg) (cl_pending c) (cl_vhci c) bs =
        Some (action, pp, vhci)"
      using assms by (auto simp: client_step_def bind_eq_Some_conv)
    then show ?thesis
      using assms frame response [of "c\<lparr>cl_pending := pp, cl_vhci := vhci\<rparr>"]
      by (cases action) (auto simp: client_step_def Let_def)
  next
    case task
    then show ?thesis
      using assms
      by (cases ok; cases "cl_channel c") (auto simp: client_step_def on_task_frame_def bind_eq_Some_conv Let_def)
  next
    case other
    then have "client_step ccfg d event True c = client_step ccfg d event ok c"
      by (simp add: client_step_def split: client_event.split net_read.split)
    then show ?thesis using assms by simp
  qed
qed

lemma write_all_prefix:
  "write_all bs oks = (sent, oks', ok) \<Longrightarrow> prefix sent bs \<and> (ok \<longrightarrow> sent = bs)"
proof (induction bs oks arbitrary: sent oks' ok rule: write_all.induct)
  case (3 b bs ok' oks)
  then show ?case by (auto split: if_splits prod.splits)
qed auto

lemma write_outgoing_prefix:
  assumes "write_outgoing out oks = Some (sent, fl)"
  shows "\<exists>sent'. write_outgoing out [] = Some (sent', out_flow out) \<and> prefix sent sent' \<and>
    (fl = Continue \<longrightarrow> out_flow out = Continue)"
proof -
  obtain must may where e: "encode_all (out_must out) = Some must" "encode_all (out_may out) = Some may"
    using assms by (auto simp: write_outgoing_def bind_eq_Some_conv)
  have plain: "write_outgoing out [] = Some (must @ may, out_flow out)"
    by (simp add: write_outgoing_def e write_all_default)
  obtain sent1 oks1 ok1 where w1: "write_all must oks = (sent1, oks1, ok1)" by (metis prod_cases3)
  obtain sent2 oks2 ok2 where w2: "write_all may oks1 = (sent2, oks2, ok2)" by (metis prod_cases3)
  show ?thesis
    using assms write_all_prefix [OF w1] write_all_prefix [OF w2]
    by (auto simp: write_outgoing_def e w1 w2 plain split: if_splits)
qed

lemma session_step_writes:
  assumes "session_step ops cfg event oks s = Some (sent, fl, s')"
  shows "\<exists>sent' fl'. session_step ops cfg event [] s = Some (sent', fl', s') \<and> prefix sent sent' \<and>
    (fl = Continue \<longrightarrow> fl' = Continue)"
proof (cases event)
  case (NetMessage bs)
  show ?thesis
  proof (cases "frame_decode bs")
    case (Inr f)
    then obtain out where o: "on_network_frame ops cfg f s = Some (out, s')"
      "write_outgoing out oks = Some (sent, fl)"
      using assms by (auto simp: session_step_def NetMessage bind_eq_Some_conv)
    then show ?thesis
      using write_outgoing_prefix [OF o(2)] by (auto simp: session_step_def NetMessage Inr)
  qed (use assms in \<open>simp add: session_step_def NetMessage\<close>)
next
  case TxRecv
  show ?thesis
  proof (cases "ss_channel s")
    case (Cons b ch)
    obtain sent1 oks1 ok1 where w: "write_all [b] oks = (sent1, oks1, ok1)" by (metis prod_cases3)
    show ?thesis
      using assms write_all_prefix [OF w] by (auto simp: session_step_def TxRecv Cons w split: if_splits)
  qed (use assms in \<open>simp add: session_step_def TxRecv\<close>)
qed (use assms in \<open>simp_all add: session_step_def\<close>)

section \<open>The matching run without failures\<close>

text \<open>
  \<open>follows sy sy0\<close>: the loops that still run in \<open>sy\<close> are in the state they have in \<open>sy0\<close>,
  and what they still can read is an initial part of what is there in \<open>sy0\<close>.
\<close>

definition follows :: "mock_driver system \<Rightarrow> mock_driver system \<Rightarrow> bool" where
  "follows sy sy0 \<longleftrightarrow>
     sy_delivered sy = sy_delivered sy0 \<and>
     (sy_client_open sy \<longrightarrow>
        sy_client_open sy0 \<and> sy_client sy = sy_client sy0 \<and> prefix (sy_down sy) (sy_down sy0) \<and>
        (sy_daemon_open sy \<longrightarrow> sy_down sy = sy_down sy0)) \<and>
     (sy_daemon_open sy \<longrightarrow>
        sy_daemon_open sy0 \<and> sy_daemon sy = sy_daemon sy0 \<and> prefix (sy_up sy) (sy_up sy0) \<and>
        (sy_client_open sy \<longrightarrow> sy_up sy = sy_up sy0)) \<and>
     (sy_daemon_open sy \<or> daemon_closed sy)"

lemma mock_cleanup_closed:
  "lc_state (ss_lifecycle (session_cleanup mock_ops s)) = Closed"
  "\<not> lc_attached_by_control_plane (ss_lifecycle (session_cleanup mock_ops s))"
  by (simp_all add: session_cleanup_def detach_session_def mock_detach_device_def case_prod_beta Let_def)

lemma client_moves_follows:
  assumes f: "follows sy sy0" and o: "sy_client_open sy"
    and s: "client_moves_with ccfg d event oks sy = Some sy'"
  shows "\<exists>sy0'. client_moves ccfg d event sy0 = Some sy0' \<and> follows sy' sy0'"
proof -
  obtain sent fl c where step: "client_step ccfg d event (oks = [] \<or> hd oks) (sy_client sy) = Some (sent, fl, c)"
    using s by (auto simp: client_moves_with_def bind_eq_Some_conv)
  obtain sent' fl' c' where step': "client_step ccfg d event True (sy_client sy) = Some (sent', fl', c')"
    and same: "(sent, fl, c) = (sent', fl', c') \<or> sent = [] \<and> fl = Break"
    using client_step_writes [OF step] by blast
  show ?thesis
  proof (cases fl)
    case Continue
    then show ?thesis
      using f o s step step' same
      by (auto simp: client_moves_with_def follows_def daemon_closed_def)
  next
    case Break
    then have "sy' = sy\<lparr>sy_client := client_close c, sy_client_open := False, sy_up := sy_up sy @ sent\<rparr>"
      using s step by (simp add: client_moves_with_def)
    then show ?thesis
      using f o step' same
      by (cases fl') (auto simp: client_moves_with_def follows_def daemon_closed_def)
  qed
qed

lemma daemon_moves_follows:
  assumes f: "follows sy sy0" and o: "sy_daemon_open sy"
    and s: "daemon_moves_with mock_ops scfg event oks sy = Some sy'"
    and keep: "\<And>sent s'. session_step mock_ops scfg event oks (sy_daemon sy) = Some (sent, Continue, s') \<Longrightarrow>
      session_step mock_ops scfg event [] (sy_daemon sy) = Some (sent, Continue, s')"
  shows "\<exists>sy0'. daemon_moves mock_ops scfg event sy0 = Some sy0' \<and> follows sy' sy0'"
proof -
  obtain sent fl s1 where step: "session_step mock_ops scfg event oks (sy_daemon sy) = Some (sent, fl, s1)"
    using s by (auto simp: daemon_moves_with_def bind_eq_Some_conv)
  show ?thesis
  proof (cases fl)
    case Continue
    then show ?thesis
      using f o s step keep [of sent s1]
      by (auto simp: daemon_moves_with_def follows_def)
  next
    case Break
    then have sy': "sy' = sy\<lparr>sy_daemon := session_cleanup mock_ops s1, sy_daemon_open := False,
        sy_down := sy_down sy @ sent\<rparr>"
      using s step by (simp add: daemon_moves_with_def)
    obtain sent' fl' where "session_step mock_ops scfg event [] (sy_daemon sy) = Some (sent', fl', s1)"
      "prefix sent sent'"
      using session_step_writes [OF step] by blast
    then show ?thesis
      using f o
      by (cases fl') (auto simp: sy' daemon_moves_with_def follows_def daemon_closed_def mock_cleanup_closed)
  qed
qed

text \<open>In the phases of a session a step of the daemon that goes on has written all it wanted to.\<close>

lemma session_writes_kept:
  assumes ok: "system_ok scfg ccfg n d evs sy" and fits: "session_fits scfg ccfg n"
    and o: "sy_daemon_open sy"
    and event: "event = TxRecv \<or> event = WorkerTurn \<or> (\<exists>bs rest. sy_up sy = bs # rest \<and> event = NetMessage bs)"
    and s: "session_step mock_ops scfg event oks (sy_daemon sy) = Some (sent, Continue, s')"
  shows "session_step mock_ops scfg event [] (sy_daemon sy) = Some (sent, Continue, s')"
proof -
  obtain sent' where s0: "session_step mock_ops scfg event [] (sy_daemon sy) = Some (sent', Continue, s')"
    and p: "prefix sent sent'"
    using session_step_writes [OF s] by blast
  have "sent = sent'"
  proof (cases event)
    case TxRecv
    then show ?thesis
      using s s0 write_all_prefix
      by (cases "ss_channel (sy_daemon sy)")
        (auto simp: session_step_def simp del: write_all.simps split: prod.splits if_splits dest!: write_all_prefix)
  next
    case (NetMessage bs)
    then obtain rest where up: "sy_up sy = bs # rest" using event by auto
    have moves: "daemon_reads mock_ops scfg sy = Some (sy\<lparr>sy_up := rest, sy_daemon := s', sy_down := sy_down sy @ sent'\<rparr>)"
      using s0 by (simp add: daemon_reads_def daemon_moves_def up NetMessage)
    consider (busy) "busy scfg ccfg n evs sy" | (leaving) "leaving scfg ccfg n d evs sy"
      using ok o by (auto simp: system_ok_def departed_def finished_def daemon_closed_def)
    then show ?thesis
    proof cases
      case busy
      then obtain got ups fs todo where b: "busy_with scfg ccfg n evs got ups fs todo sy"
        by (auto simp: busy_def)
      then obtain f ups' where ups: "ups = f # ups'" using up by (cases ups) (simp_all add: busy_with_def)
      obtain s1 where "daemon_reads mock_ops scfg sy = Some (sy\<lparr>sy_up := map wire ups', sy_daemon := s1\<rparr>)"
        using busy_request [OF b [unfolded ups] fits] by blast
      then have "sy_down sy @ sent' = sy_down sy"
        using moves by (metis option.inject system.ext_inject system.surjective system.update_convs(3) system.update_convs(5) system.update_convs(6) system.select_convs(6))
      then show ?thesis using p by simp
    next
      case leaving
      from daemon_reads_detach [OF this moves] o show ?thesis
        by (simp add: departed_def daemon_closed_def)
    qed
  qed (use s s0 in \<open>simp_all add: session_step_def\<close>)
  then show ?thesis using s0 by simp
qed

lemma client_stops_follows:
  assumes "follows sy sy0" and "event = NetRead NetFailed \<or> event = NetRead NetClosed"
    and "client_moves_with ccfg d event oks sy = Some sy'"
  shows "follows sy' sy0"
  using assms by (auto simp: client_moves_with_def client_step_def follows_def daemon_closed_def)

lemma daemon_stops_follows:
  assumes "follows sy sy0" and "event = NetEnd \<or> event = NetError"
    and "daemon_moves_with mock_ops scfg event oks sy = Some sy'"
  shows "follows sy' sy0"
  using assms
  by (auto simp: daemon_moves_with_def session_step_def follows_def daemon_closed_def mock_cleanup_closed)

text \<open>Each step is matched by the same step, or by none.\<close>

lemma works_follows:
  assumes f: "follows sy sy0" and ok: "system_ok scfg ccfg n d evs sy0" and fits: "session_fits scfg ccfg n"
    and s: "system_step_with mock_ops scfg ccfg d event oks sy = Some sy'"
  shows "follows sy' sy0 \<or>
    (\<exists>sy0'. system_step mock_ops scfg ccfg d event sy0 = Some sy0' \<and> follows sy' sy0')"
proof (cases "if event \<in> {ClientReads, ClientWrites, ClientUrb, ClientTask}
    then sy_client_open sy else sy_daemon_open sy")
  case False
  then have "sy' = sy" using s by (auto simp: system_step_with_def split: if_splits)
  then show ?thesis using f by simp
next
  case open_loop: True
  show ?thesis
  proof (cases "event \<in> {ClientReads, ClientWrites, ClientUrb, ClientTask}")
    case True
    then have o: "sy_client_open sy" using open_loop by simp
    then have o0: "sy_client_open sy0" using f by (simp add: follows_def)
    show ?thesis
    proof (cases "event = ClientReads")
      case True
      then have r: "client_reads_with ccfg d oks sy = Some sy'"
        using s o by (simp add: system_step_with_def)
      show ?thesis
      proof (cases "sy_down sy")
        case Nil
        then show ?thesis
          using r f client_stops_follows [OF f, where event = "NetRead NetClosed"]
          by (auto simp: client_reads_with_def split: if_splits)
      next
        case (Cons bs rest)
        have "prefix (bs # rest) (sy_down sy0)" using f o Cons by (simp add: follows_def)
        then obtain rest0 where rest0: "sy_down sy0 = bs # rest0" "prefix rest rest0"
          by (cases "sy_down sy0") auto
        have "follows (sy\<lparr>sy_down := rest, sy_delivered := sy_delivered sy @ [bs]\<rparr>)
            (sy0\<lparr>sy_down := rest0, sy_delivered := sy_delivered sy0 @ [bs]\<rparr>)"
          using f o rest0 Cons by (auto simp: follows_def daemon_closed_def)
        from client_moves_follows [OF this] show ?thesis
          using r o o0 rest0 True by (simp add: client_reads_with_def Cons system_step_with_def)
      qed
    next
      case False
      then show ?thesis
        using True s o o0 client_moves_follows [OF f o] by (auto simp: system_step_with_def)
    qed
  next
    case daemon: False
    then have o: "sy_daemon_open sy" using open_loop by simp
    then have o0: "sy_daemon_open sy0" "sy_daemon sy = sy_daemon sy0" using f by (simp_all add: follows_def)
    note keep = session_writes_kept [OF ok fits o0(1)]
    show ?thesis
    proof (cases "event = DaemonReads")
      case True
      then have r: "daemon_reads_with mock_ops scfg oks sy = Some sy'"
        using s o by (simp add: system_step_with_def)
      show ?thesis
      proof (cases "sy_up sy")
        case Nil
        then show ?thesis
          using r f daemon_stops_follows [OF f, where event = NetEnd]
          by (auto simp: daemon_reads_with_def split: if_splits)
      next
        case (Cons bs rest)
        have "prefix (bs # rest) (sy_up sy0)" using f o Cons by (simp add: follows_def)
        then obtain rest0 where rest0: "sy_up sy0 = bs # rest0" "prefix rest rest0"
          by (cases "sy_up sy0") auto
        have "follows (sy\<lparr>sy_up := rest\<rparr>) (sy0\<lparr>sy_up := rest0\<rparr>)"
          using f o rest0 Cons by (auto simp: follows_def daemon_closed_def)
        from daemon_moves_follows [OF this, of scfg "NetMessage bs" oks sy'] show ?thesis
          using r o o0 rest0 True keep [of "NetMessage bs" oks]
          by (auto simp: daemon_reads_with_def Cons system_step_with_def)
      qed
    next
      case False
      then have "event = DaemonWrites \<or> event = DaemonWorker" using daemon by (cases event) simp_all
      then show ?thesis
        using s o o0 daemon_moves_follows [OF f o, of scfg TxRecv oks sy']
          daemon_moves_follows [OF f o, of scfg WorkerTurn oks sy'] keep [of TxRecv oks] keep [of WorkerTurn oks]
        by (auto simp: system_step_with_def)
    qed
  qed
qed

lemma faulty_step_follows:
  assumes f: "follows sy sy0" and ok: "system_ok scfg ccfg n d evs sy0" and fits: "session_fits scfg ccfg n"
    and evs: "event_messages evs" and s: "faulty_step mock_ops scfg ccfg d event sy = Some sy'"
  shows "\<exists>sy0'. follows sy' sy0' \<and> system_ok scfg ccfg n d evs sy0'"
proof (cases event)
  case (Works event' oks)
  then show ?thesis
    using s works_follows [OF f ok fits] system_step_ok [OF ok fits evs] ok
    by (simp add: faulty_step_def) blast
next
  case ClientReadError
  then show ?thesis
    using s f ok client_stops_follows [OF f, where event = "NetRead NetFailed" and oks = "[]"] by (auto simp: faulty_step_def split: if_splits)
next
  case DaemonReadError
  then show ?thesis
    using s f ok daemon_stops_follows [OF f, where event = NetError] by (auto simp: faulty_step_def split: if_splits)
qed

lemma faulty_run_follows:
  assumes "follows sy sy0" and "system_ok scfg ccfg n d evs sy0" and "session_fits scfg ccfg n"
    and "event_messages evs" and "faulty_run mock_ops scfg ccfg d events sy = Some sy'"
  shows "\<exists>sy0'. follows sy' sy0' \<and> system_ok scfg ccfg n d evs sy0'"
  using assms(1,2,5)
proof (induction events arbitrary: sy sy0)
  case (Cons event events)
  then obtain sy1 where "faulty_step mock_ops scfg ccfg d event sy = Some sy1"
    and run: "faulty_run mock_ops scfg ccfg d events sy1 = Some sy'"
    by (auto simp: bind_eq_Some_conv)
  from faulty_step_follows [OF Cons.prems(1,2) assms(3,4) this(1)] show ?case
    using Cons.IH [OF _ _ run] by blast
qed auto

section \<open>Every run with failures\<close>

lemma faulty_session_mock:
  "faulty_session mock_ops scfg ccfg fresh_mock events =
     Option.bind (client_detach_id ccfg 7) (\<lambda>d.
       map_option (\<lambda>sy. Inr (d, sy)) (faulty_run mock_ops scfg ccfg d events (attached_system scfg)))"
proof -
  have "system_session mock_ops scfg ccfg fresh_mock [] =
      Option.bind (client_detach_id ccfg 7) (\<lambda>d. Some (Inr (d, attached_system scfg)))"
    by (simp add: system_session_mock)
  then show ?thesis
    by (auto simp: faulty_session_def system_session_def split: bind_splits sum.splits)
qed

text \<open>A run whose writes all succeed and whose reads give no error is one of the runs above.\<close>

lemma faulty_run_works:
  "faulty_run ops scfg ccfg d (map (\<lambda>event. Works event []) events) sy = system_run ops scfg ccfg d events sy"
proof (induction events arbitrary: sy)
  case (Cons event events)
  then have "faulty_run ops scfg ccfg d (map (\<lambda>event. Works event []) events) =
      system_run ops scfg ccfg d events"
    by (rule ext)
  then show ?case by (simp add: faulty_step_def)
qed simp

lemma faulty_run_delivers:
  assumes fits: "session_fits scfg ccfg 7"
    and run: "faulty_run mock_ops scfg ccfg d events (attached_system scfg) = Some sy"
  shows "prefix (sy_delivered sy) (session_answers ccfg 7 (keyboard_messages scfg) @ [detach_answer d]) \<and>
    (sy_daemon_open sy \<or>
      lc_state (ss_lifecycle (sy_daemon sy)) = Closed \<and>
      \<not> lc_attached_by_control_plane (ss_lifecycle (sy_daemon sy))) \<and>
    \<not> (sy_client_open sy \<and>
      sy_delivered sy = session_answers ccfg 7 (keyboard_messages scfg) @ [detach_answer d])"
proof -
  have "system_ok scfg ccfg 7 d (keyboard_messages scfg) (attached_system scfg)"
    using busyI [OF attached_system_busy [OF fits]] by (simp add: system_ok_def)
  moreover have "follows (attached_system scfg) (attached_system scfg)"
    by (simp add: follows_def system_start_def)
  ultimately obtain sy0 where "follows sy sy0" "system_ok scfg ccfg 7 d (keyboard_messages scfg) sy0"
    using faulty_run_follows [OF _ _ fits keyboard_event_messages run] by blast
  then show ?thesis
    using system_ok_delivered(1,2) [OF _ fits] by (auto simp: follows_def daemon_closed_def)
qed


text \<open>The client's write of its request fails; the daemon's next read gives an error.\<close>

abbreviation broken_run :: "faulty_event list" where
  "broken_run \<equiv> [Works ClientTask [], Works ClientTask [], Works ClientWrites [False], Works DaemonWorker [],
    DaemonReadError, Works ClientReads []]"


end
