(* ===== verification/Programs.thy ===== *)
theory Programs imports Config_Properties System_Faults Windows_Backend begin

text \<open>
  The \<open>main\<close> functions of the two programs, \<open>daemon/src/main.rs\<close> and \<open>client/src/main.rs\<close>: the
  configuration, the driver or host controller it asks for, the connection and the session.
  What the network answers is a parameter. On other systems than Windows the Windows backend
  is an error; that is the build modelled here, and the client's is a Unix one.
\<close>

section \<open>The daemon\<close>

datatype daemon_error =
    BadDaemonConfig string | DriverUnavailable driver_error | NoWindowsBackend string
  | DaemonIo string | UsbIpFailed usbip_session_error

text \<open>\<open>build_windows_backend\<close> without Windows.\<close>

definition build_windows_backend_elsewhere :: "string \<Rightarrow> bool \<Rightarrow> daemon_error + mock_driver" where
  "build_windows_backend_elsewhere device_path map_shared_memory =
     Inl (NoWindowsBackend ''Windows driver backend is only available on Windows'')"

text \<open>The results of binding, accepting and \<open>set_nodelay\<close>, and what the peer then sends.\<close>

record 'a daemon_world =
  dw_init_status :: i32
  dw_bind :: "'a \<Rightarrow> string + unit"
  dw_accept :: "string + unit"
  dw_nodelay :: "string + unit"
  dw_events :: "(session_event \<times> bool list) list"
  dw_stream :: byte_stream
  dw_writes :: "bool list"

datatype daemon_result =
    DaemonRan "bytes list" loop_flow "mock_driver session"
  | DaemonRanUsbIp "bytes list" lifecycle mock_driver

text \<open>The configuration and the driver; the part of \<open>main\<close> before the socket.\<close>

definition daemon_setup ::
  "(string \<Rightarrow> string + 'a) \<Rightarrow> process_env \<Rightarrow> i32 \<Rightarrow> daemon_error + 'a daemon_config \<times> mock_driver" where
  "daemon_setup parse_addr pe init_status =
     (case daemon_config_from_env parse_addr pe of
        Inl e \<Rightarrow> Inl (BadDaemonConfig e)
      | Inr config \<Rightarrow>
          map_sum id (Pair config)
            (case dc_driver_backend config of
               MockDriver \<Rightarrow> map_sum DriverUnavailable id (mock_driver_init init_status)
             | WindowsDriver \<Rightarrow>
                 build_windows_backend_elsewhere (dc_driver_device_path config) (dc_map_shared_memory config)))"

definition daemon_session_config :: "'a daemon_config \<Rightarrow> session_config" where
  "daemon_session_config config =
     \<lparr>sc_attach_device = dc_attach_device config, sc_mock_hid_keycodes = dc_mock_hid_keycodes config,
      sc_mock_transfer_outcomes = dc_mock_transfer_outcomes config\<rparr>"

definition daemon_serve ::
  "'a daemon_world \<Rightarrow> 'a daemon_config \<Rightarrow> mock_driver \<Rightarrow> (daemon_error + daemon_result) option" where
  "daemon_serve w config driver =
     (case dw_nodelay w of
        Inl e \<Rightarrow> Some (Inl (DaemonIo e))
      | Inr _ \<Rightarrow>
          (case dc_protocol_mode config of
             WhyMode \<Rightarrow>
               map_option (\<lambda>(sent, fl, s). Inr (DaemonRan sent fl s))
                 (session_run mock_ops (daemon_session_config config) (dw_events w) (session_start driver))
           | UsbIpMode \<Rightarrow>
               Some (case run_single_usbip_client mock_ops (dc_attach_device config)
                       (dc_mock_hid_keycodes config) (dw_stream w) (dw_writes w) driver of
                       (Inl e, written, lc, d) \<Rightarrow> Inl (UsbIpFailed e)
                     | (Inr _, written, lc, d) \<Rightarrow> Inr (DaemonRanUsbIp written lc d))))"

definition daemon_main ::
  "(string \<Rightarrow> string + 'a) \<Rightarrow> process_env \<Rightarrow> 'a daemon_world \<Rightarrow> (daemon_error + daemon_result) option" where
  "daemon_main parse_addr pe w =
     (case daemon_setup parse_addr pe (dw_init_status w) of
        Inl e \<Rightarrow> Some (Inl e)
      | Inr (config, driver) \<Rightarrow>
          (case dw_bind w (dc_bind_addr config) of
             Inl e \<Rightarrow> Some (Inl (DaemonIo e))
           | Inr _ \<Rightarrow>
               (case dw_accept w of
                  Inl e \<Rightarrow> Some (Inl (DaemonIo e))
                | Inr _ \<Rightarrow> daemon_serve w config driver)))"

section \<open>The client\<close>

datatype client_failure =
    BadClientConfig string | NoVhci string | ClientIo string | ClientHandshake client_error

text \<open>
  \<open>connect_with_retry\<close>: the attempts until one gives a socket; \<open>None\<close> when all the attempts
  listed fail, so that the client is still waiting to retry.
\<close>

fun connect_with_retry :: "(string + i32) list \<Rightarrow> i32 option" where
  "connect_with_retry [] = None"
| "connect_with_retry (Inr socket_fd # attempts) = Some socket_fd"
| "connect_with_retry (Inl e # attempts) = connect_with_retry attempts"

record client_world =
  cw_fs :: vhci_fs
  cw_attempts :: "(string + i32) list"
  cw_nodelay :: "string + unit"
  cw_events :: "(client_event \<times> bool) list"

text \<open>A session that ran has planned a Linux attach (which is logged), or none.\<close>

datatype client_result =
    ClientProbed | ClientRetrying
  | ClientRan "linux_vhci_attach_request option" "bytes list" loop_flow client

definition client_setup ::
  "(string \<Rightarrow> string + 'a) \<Rightarrow> process_env \<Rightarrow> vhci_fs \<Rightarrow> client_failure + 'a client_settings \<times> vhci_backend" where
  "client_setup parse_addr pe fs =
     (case client_config_from_env parse_addr pe of
        Inl e \<Rightarrow> Inl (BadClientConfig e)
      | Inr config \<Rightarrow>
          map_sum NoVhci (Pair config) (vhci_adapter_new fs (cs_vhci_backend config)))"

definition client_session_config :: "'a client_settings \<Rightarrow> vhci_backend \<Rightarrow> client_config" where
  "client_session_config config vhci_adapter =
     \<lparr>cc_vhci_adapter = vhci_adapter, cc_mock_frame_limit = cs_mock_frame_limit config,
      cc_mock_bulk_payload_len = cs_mock_bulk_payload_len config\<rparr>"

definition run_client_session ::
  "'p net_ops \<Rightarrow> client_world \<Rightarrow> 'a client_settings \<Rightarrow> vhci_backend \<Rightarrow> 'p \<Rightarrow>
   (client_failure + client_result) option" where
  "run_client_session net w config vhci_adapter p =
     (case connect_with_retry (cw_attempts w) of
        None \<Rightarrow> Some (Inr ClientRetrying)
      | Some socket_fd \<Rightarrow>
          (case cw_nodelay w of
             Inl e \<Rightarrow> Some (Inl (ClientIo e))
           | Inr _ \<Rightarrow>
               let plan = prepare_linux_attach_dry_run vhci_adapter socket_fd (cs_vhci_device_id config);
                   ccfg = client_session_config config vhci_adapter
               in Option.bind (client_attach net p) (\<lambda>(res, p').
                    case res of
                      Inl e \<Rightarrow> Some (Inl (ClientHandshake e))
                    | Inr next_request_id \<Rightarrow>
                        Option.bind (client_detach_id ccfg next_request_id) (\<lambda>detach_request_id.
                        map_option (\<lambda>(sent, fl, c). Inr (ClientRan plan sent fl c))
                          (client_run ccfg detach_request_id (cw_events w) (client_start next_request_id))))))"

definition client_main ::
  "(string \<Rightarrow> string + 'a) \<Rightarrow> process_env \<Rightarrow> 'p net_ops \<Rightarrow> client_world \<Rightarrow> 'p \<Rightarrow>
   (client_failure + client_result) option" where
  "client_main parse_addr pe net w p =
     (case client_setup parse_addr pe (cw_fs w) of
        Inl e \<Rightarrow> Some (Inl e)
      | Inr (config, vhci_adapter) \<Rightarrow>
          if cs_vhci_probe_only config then Some (Inr ClientProbed)
          else run_client_session net w config vhci_adapter p)"

section \<open>The two programs\<close>

text \<open>
  Both programs started: the first error of a set-up, the end of a client that only probes, or
  the session of the two loops over a connection.
\<close>

datatype programs_result =
    DaemonStopped daemon_error | ClientStopped client_failure | OnlyProbed | OtherProtocol
  | SessionRan u64 "mock_driver system"

definition programs_run ::
  "(string \<Rightarrow> string + 'a) \<Rightarrow> (string \<Rightarrow> string + 'b) \<Rightarrow> process_env \<Rightarrow> process_env \<Rightarrow> vhci_fs \<Rightarrow>
   faulty_event list \<Rightarrow> programs_result option" where
  "programs_run parse_bind parse_server dpe cpe fs events =
     (case daemon_setup parse_bind dpe 0 of
        Inl e \<Rightarrow> Some (DaemonStopped e)
      | Inr (dc, driver) \<Rightarrow>
          (case client_setup parse_server cpe fs of
             Inl e \<Rightarrow> Some (ClientStopped e)
           | Inr (cc, vhci_adapter) \<Rightarrow>
               if cs_vhci_probe_only cc then Some OnlyProbed
               else if dc_protocol_mode dc \<noteq> WhyMode then Some OtherProtocol
               else map_option (\<lambda>res. case res of
                        Inl e \<Rightarrow> ClientStopped (ClientHandshake e)
                      | Inr (d, sy) \<Rightarrow> SessionRan d sy)
                    (faulty_session mock_ops (daemon_session_config dc)
                       (client_session_config cc vhci_adapter) driver events)))"

section \<open>The daemon always ends well\<close>

lemma session_run_mock_closed:
  "session_run mock_ops cfg events s = Some (sent, Break, s') \<Longrightarrow>
   lc_state (ss_lifecycle s') = Closed \<and> \<not> lc_attached_by_control_plane (ss_lifecycle s')"
proof (induction events arbitrary: s sent)
  case (Cons e events)
  obtain event oks where e: "e = (event, oks)" by fastforce
  obtain sent1 fl s1 where step: "session_step mock_ops cfg event oks s = Some (sent1, fl, s1)"
    using Cons.prems by (auto simp: e bind_eq_Some_conv)
  show ?case
  proof (cases fl)
    case Break
    then have "s' = session_cleanup mock_ops s1" using Cons.prems step by (simp add: e)
    then show ?thesis by (simp add: mock_cleanup_closed)
  next
    case Continue
    then show ?thesis using Cons.prems Cons.IH step by (auto simp: e bind_eq_Some_conv)
  qed
qed simp

lemma usbip_client_mock:
  "\<exists>written. run_single_usbip_client mock_ops dev keys st oks d =
     (Inr (), written, \<lparr>lc_attached_by_control_plane = False, lc_state = Closed\<rparr>, d)"
proof -
  let ?dev = "\<lparr>ud_registers = \<lparr>reg_address = 0, reg_configuration = 0\<rparr>, ud_reports = []\<rparr>"
  obtain r written dev' where w: "usbip_loop (descriptor_set_for_attach dev) keys st oks ?dev =
      (r, written, dev')" by (metis prod_cases3)
  have "r = Inr ()"
    using usbip_loop_ok [of ?dev "descriptor_set_for_attach dev" keys st oks] w by (simp add: device_ok_def)
  moreover have "attach_session mock_ops dev \<lparr>lc_attached_by_control_plane = False, lc_state = Connected\<rparr> d =
      (0, \<lparr>lc_attached_by_control_plane = dev \<noteq> None, lc_state = Attached\<rparr>, d)"
    by (cases dev) (simp_all add: attach_session_def mock_attach_device_def)
  ultimately show ?thesis
    by (simp add: run_single_usbip_client_def w detach_session_def mock_detach_device_def Let_def)
qed

definition daemon_fails ::
  "(string \<Rightarrow> string + 'a) \<Rightarrow> process_env \<Rightarrow> 'a daemon_world \<Rightarrow> bool" where
  "daemon_fails parse_addr pe w \<longleftrightarrow>
     (case daemon_config_from_env parse_addr pe of
        Inl _ \<Rightarrow> True
      | Inr config \<Rightarrow>
          dc_driver_backend config = WindowsDriver \<or> dw_init_status w \<noteq> 0 \<or>
          isl (dw_bind w (dc_bind_addr config)) \<or> isl (dw_accept w) \<or> isl (dw_nodelay w))"

definition daemon_settled :: "'a daemon_config \<Rightarrow> daemon_result \<Rightarrow> bool" where
  "daemon_settled config result =
     (case result of
        DaemonRan sent fl s \<Rightarrow>
          dc_protocol_mode config = WhyMode \<and>
          (fl = Continue \<or> lc_state (ss_lifecycle s) = Closed \<and>
             \<not> lc_attached_by_control_plane (ss_lifecycle s) \<and> all_pending (ss_queues s) = [])
      | DaemonRanUsbIp written lc d \<Rightarrow>
          dc_protocol_mode config = UsbIpMode \<and> lc_state lc = Closed \<and> \<not> lc_attached_by_control_plane lc)"

lemma daemon_serve_settles:
  assumes "\<not> isl (dw_nodelay w)"
  shows "\<exists>result. daemon_serve w config driver = Some (Inr result) \<and> daemon_settled config result"
proof (cases "dc_protocol_mode config")
  case WhyMode
  obtain sent fl s where run: "session_run mock_ops (daemon_session_config config) (dw_events w)
      (session_start driver) = Some (sent, fl, s)" and idle: "queues_idle (ss_queues s)"
    using session_run_ok [OF session_ok_start] by metis
  then have "fl = Continue \<or> lc_state (ss_lifecycle s) = Closed \<and>
      \<not> lc_attached_by_control_plane (ss_lifecycle s) \<and> all_pending (ss_queues s) = []"
    using session_run_mock_closed [of "daemon_session_config config" "dw_events w" "session_start driver" sent s]
    by (cases fl) (auto simp: queues_idle_def all_pending_Nil)
  then show ?thesis
    using assms run WhyMode
    by (cases "dw_nodelay w") (auto simp: daemon_serve_def daemon_settled_def)
next
  case UsbIpMode
  obtain written where "run_single_usbip_client mock_ops (dc_attach_device config)
      (dc_mock_hid_keycodes config) (dw_stream w) (dw_writes w) driver =
      (Inr (), written, \<lparr>lc_attached_by_control_plane = False, lc_state = Closed\<rparr>, driver)"
    using usbip_client_mock by blast
  then show ?thesis
    using assms UsbIpMode
    by (cases "dw_nodelay w") (auto simp: daemon_serve_def daemon_settled_def)
qed

lemma daemon_main_cases:
  "if daemon_fails parse_addr pe w then \<exists>e. daemon_main parse_addr pe w = Some (Inl e)
   else \<exists>config result. daemon_config_from_env parse_addr pe = Inr config \<and>
     daemon_main parse_addr pe w = Some (Inr result) \<and> daemon_settled config result"
proof (cases "daemon_config_from_env parse_addr pe")
  case (Inl e)
  then show ?thesis by (simp add: daemon_fails_def daemon_main_def daemon_setup_def)
next
  case (Inr config)
  show ?thesis
  proof (cases "dc_driver_backend config = WindowsDriver \<or> dw_init_status w \<noteq> 0")
    case True
    then have "\<exists>e. daemon_setup parse_addr pe (dw_init_status w) = Inl e"
      by (cases "dc_driver_backend config")
        (simp_all add: daemon_setup_def Inr build_windows_backend_elsewhere_def mock_driver_init_def)
    then show ?thesis using True by (auto simp: daemon_fails_def Inr daemon_main_def)
  next
    case False
    then have "dc_driver_backend config = MockDriver" by (cases "dc_driver_backend config") simp_all
    then have made: "daemon_setup parse_addr pe 0 =
        Inr (config, \<lparr>md_tx = ring_empty, md_rx = ring_empty\<rparr>)"
      using False by (simp add: daemon_setup_def Inr mock_driver_init_def)
    have nodelay: "daemon_serve w config driver = Some (Inl (DaemonIo e))" if "dw_nodelay w = Inl e" for e driver
      using that by (simp add: daemon_serve_def)
    show ?thesis
      using False daemon_serve_settles [of w config] nodelay
      by (cases "dw_bind w (dc_bind_addr config)"; cases "dw_accept w"; cases "dw_nodelay w")
        (simp_all add: daemon_fails_def Inr daemon_main_def made)
  qed
qed


end
