(* ===== verification/Program_Properties.thy ===== *)
theory Program_Properties imports Programs begin

text \<open>
  The two programs from their environments on: which configurations make a session that
  fits, and that started with one the programs complete it.
\<close>

section \<open>Configurations whose requests fit\<close>

text \<open>The room of a request in the driver's ring: the length field, the frame and its payload.\<close>

definition request_room :: "nat option \<Rightarrow> nat" where
  "request_room bulk = (case bulk of None \<Rightarrow> 58 | Some len \<Rightarrow> 48 + len)"

lemma length_task_payload:
  assumes "\<forall>len. bulk = Some len \<longrightarrow> len < 2 ^ 32"
  shows "28 + length (fr_payload (task_request bulk n i)) + 4 = request_room bulk"
proof (cases bulk)
  case None
  then show ?thesis
    by (simp add: task_request_def mock_request_def frame_new_def request_room_def mock_urb_text_def)
next
  case (Some len)
  then have "len < 2 ^ 32" using assms by simp
  then show ?thesis
    by (simp add: Some task_request_def mock_request_def frame_new_def request_room_def mock_bulk_encode_def
        mock_bulk_synthetic_def MOCK_BULK_MAGIC_def Let_def)
qed

lemma length_ring_requests:
  assumes "\<forall>len. bulk = Some len \<longrightarrow> len < 2 ^ 32"
  shows "length (ring_bytes (map wire (task_requests bulk n k))) = k * request_room bulk"
  using length_task_payload [OF assms]
  by (induction k) (simp_all add: task_requests_Suc task_requests_def [of bulk n 0] frame_bytes_def add.commute add.left_commute)

definition settings_fit :: "'a client_settings \<Rightarrow> u64 \<Rightarrow> bool" where
  "settings_fit cs limit \<longleftrightarrow>
     cs_vhci_backend cs = MockBackend \<and> \<not> cs_vhci_probe_only cs \<and>
     cs_mock_frame_limit cs = Some limit \<and> 0 < limit \<and>
     request_room (cs_mock_bulk_payload_len cs) \<le> 65540 \<and>
     unat limit * request_room (cs_mock_bulk_payload_len cs) \<le> RING_BUFFER_SIZE"

lemma settings_session_fits:
  assumes f: "settings_fit cs limit" and none: "sc_mock_transfer_outcomes scfg = []"
  shows "session_fits scfg (client_session_config cs VhciMock) n"
proof -
  let ?bulk = "cs_mock_bulk_payload_len cs"
  have len: "\<forall>len. ?bulk = Some len \<longrightarrow> len < 2 ^ 32"
    using f by (auto simp: settings_fit_def request_room_def)
  have reqs: "session_requests (client_session_config cs VhciMock) n = task_requests ?bulk n (unat limit)"
    using f by (simp add: settings_fit_def session_requests_def client_session_config_def)
  have "length (wire (task_request ?bulk n i)) \<le> 65536" for i
    using length_task_payload [OF len, of n i] f by (simp add: settings_fit_def)
  then have "list_all (\<lambda>f. length (wire f) \<le> 65536) (task_requests ?bulk n (unat limit))"
    by (auto simp: list_all_iff task_requests_def)
  moreover have "task_requests ?bulk n (unat limit) \<noteq> []"
    using f by (simp add: settings_fit_def word_gt_0 unat_gt_0 task_requests_def unat_eq_zero)
  moreover have "cc_vhci_adapter (client_session_config cs VhciMock) = VhciMock"
    "cc_mock_bulk_payload_len (client_session_config cs VhciMock) = ?bulk"
    by (simp_all add: client_session_config_def)
  ultimately show ?thesis
    using f none len
    by (simp add: session_fits_def reqs length_ring_requests [OF len] settings_fit_def split: option.split)
qed

lemma settings_detach_id:
  assumes "settings_fit cs limit"
  shows "client_detach_id (client_session_config cs VhciMock) 7 = Some (7 + limit)"
proof -
  have "48 \<le> request_room (cs_mock_bulk_payload_len cs)"
    by (simp add: request_room_def split: option.split)
  then have "unat limit * 48 \<le> unat limit * request_room (cs_mock_bulk_payload_len cs)"
    by (rule mult_le_mono2)
  also have "\<dots> \<le> RING_BUFFER_SIZE" using assms by (simp add: settings_fit_def)
  finally have "unat limit * 48 \<le> RING_BUFFER_SIZE" .
  then have "7 + unat limit < 2 ^ 64" by (simp add: RING_BUFFER_SIZE_def)
  then show ?thesis
    using assms by (simp add: client_detach_id_def client_session_config_def settings_fit_def)
qed

section \<open>From the environments to the end of the session\<close>

text \<open>What the client reads in a session of the configurations.\<close>

definition configured_answers :: "'a daemon_config \<Rightarrow> 'b client_settings \<Rightarrow> u64 \<Rightarrow> bytes list" where
  "configured_answers dc cs limit =
     map wire (mock_hid_keyboard_events (dc_mock_hid_keycodes dc)) @
     map echo (task_requests (cs_mock_bulk_payload_len cs) 7 (unat limit)) @
     [detach_answer (7 + limit)]"

lemma programs_run_session:
  assumes "daemon_config_from_env parse_bind dpe = Inr dc" and "dc_protocol_mode dc = WhyMode"
    and "dc_driver_backend dc = MockDriver"
    and "client_config_from_env parse_server cpe = Inr cs" and "settings_fit cs limit"
  shows "programs_run parse_bind parse_server dpe cpe fs events =
    map_option (\<lambda>sy. SessionRan (7 + limit) sy)
      (faulty_run mock_ops (daemon_session_config dc) (client_session_config cs VhciMock) (7 + limit) events
         (attached_system (daemon_session_config dc)))"
proof -
  have "daemon_setup parse_bind dpe 0 = Inr (dc, fresh_mock)"
    using assms(1,3) by (simp add: daemon_setup_def mock_driver_init_def)
  moreover have "client_setup parse_server cpe fs = Inr (cs, VhciMock)"
    using assms(4,5) by (simp add: client_setup_def settings_fit_def vhci_adapter_new_def)
  ultimately show ?thesis
    using assms(2,5) settings_detach_id [OF assms(5)]
    by (simp add: programs_run_def faulty_session_mock settings_fit_def option.map_comp comp_def)
qed

lemma configured_answers_session:
  assumes "settings_fit cs limit"
  shows "session_answers (client_session_config cs VhciMock) 7 (keyboard_messages (daemon_session_config dc)) @
      [detach_answer (7 + limit)] = configured_answers dc cs limit"
  using assms
  by (simp add: session_answers_def configured_answers_def session_requests_def daemon_session_config_def
      client_session_config_def settings_fit_def)


section \<open>The client's \<open>main\<close>\<close>

text \<open>The first attempt that succeeds is taken; failures before it only delay.\<close>

lemma connect_with_retry_Some:
  "connect_with_retry attempts = Some socket_fd \<longleftrightarrow>
     (\<exists>es rest. attempts = map Inl es @ Inr socket_fd # rest)"
proof (induction attempts)
  case (Cons a attempts)
  have "(\<exists>es rest. a # attempts = map Inl es @ Inr socket_fd # rest) \<longleftrightarrow>
      a = Inr socket_fd \<or> (\<exists>e. a = Inl e) \<and> (\<exists>es rest. attempts = map Inl es @ Inr socket_fd # rest)"
    (is "?l \<longleftrightarrow> ?r")
  proof
    assume ?l
    then obtain es rest where "a # attempts = map Inl es @ Inr socket_fd # rest" by blast
    then show ?r by (cases es) auto
  next
    assume ?r
    then show ?l by (metis append_Cons append_Nil list.simps(8) list.simps(9))
  qed
  then show ?case using Cons by (cases a) simp_all
qed simp

text \<open>Against the daemon, the client's \<open>main\<close> comes to the loop of \<open>programs_run\<close>.\<close>

lemma client_main_attaches:
  assumes "client_config_from_env parse_server cpe = Inr cs" and "settings_fit cs limit"
    and "connect_with_retry (cw_attempts w) = Some socket_fd" and "cw_nodelay w = Inr ()"
  shows "client_main parse_server cpe (daemon_net mock_ops scfg) w
      \<lparr>dp_session = session_start fresh_mock, dp_inbox = []\<rparr> =
    map_option (\<lambda>(sent, fl, c). Inr (ClientRan None sent fl c))
      (client_run (client_session_config cs VhciMock) (7 + limit) (cw_events w) (client_start 7))"
proof -
  have "attach_session mock_ops (sc_attach_device scfg)
      \<lparr>lc_attached_by_control_plane = False, lc_state = Connected\<rparr> fresh_mock =
    (0, \<lparr>lc_attached_by_control_plane = sc_attach_device scfg \<noteq> None, lc_state = Attached\<rparr>, fresh_mock)"
    by (cases "sc_attach_device scfg") (simp_all add: attach_session_def mock_attach_device_def)
  then obtain p where "client_attach (daemon_net mock_ops scfg)
      \<lparr>dp_session = session_start fresh_mock, dp_inbox = []\<rparr> = Some (Inr 7, p)"
    by (simp add: client_attach_daemon)
  then show ?thesis
    using assms settings_detach_id [OF assms(2)]
    by (simp add: client_main_def client_setup_def settings_fit_def vhci_adapter_new_def run_client_session_def
        prepare_linux_attach_dry_run_def Let_def)
qed

section \<open>A run of the repository's scripts\<close>

text \<open>The environments that \<open>scripts/local_mock_bulk.sh\<close> starts the two programs with.\<close>

definition script_env :: "(string \<times> string) list \<Rightarrow> process_env" where
  "script_env vars = \<lparr>pe_args = [''why-usb'', ''127.0.0.1:3035''], pe_vars = map_of vars\<rparr>"

definition script_daemon_env :: process_env where
  "script_daemon_env =
     script_env [(''WHY_USB_ATTACH_DEVICE'', ''1234:5678:1:2''), (''WHY_USB_MOCK_HID_KEYS'', ''a,enter'')]"

definition script_client_env :: process_env where
  "script_client_env =
     script_env [(''WHY_USB_MOCK_FRAME_LIMIT'', ''3''), (''WHY_USB_MOCK_FRAME_INTERVAL_MS'', ''50''),
       (''WHY_USB_MOCK_BULK_BYTES'', ''4096'')]"

lemma script_parts:
  "split_on (CHR '':'') ''1234:5678:1:2'' = [''1234'', ''5678'', ''1'', ''2'']"
  "parse_u16 (Some ''1234'') f = Inr 0x1234" "parse_u16 (Some ''5678'') f = Inr 0x5678"
  "parse_u8 ''1'' f = Inr 1" "parse_u8 ''2'' f = Inr 2"
  by (simp_all add: split_on_def parse_u16_def parse_u8_def trim_start_matches_none parse_unsigned_def to_digit_def)

lemma script_attach:
  "parse_attach_device script_daemon_env ''1234:5678:1:2'' =
     Inr \<lparr>da_vendor_id = 0x1234, da_product_id = 0x5678, da_bus_id = 1, da_port_id = 2, da_flags = 0\<rparr>"
  by (simp add: parse_attach_device_def script_parts nth_part_def unwrap_or_def env_parse_def script_daemon_env_def
      script_env_def and_then_def)
lemma script_keys: "parse_hid_keycodes ''a,enter'' = Inr [4, 0x28]"
  by (simp add: parse_hid_keycodes_def list_parts_def split_on_def trim_def is_whitespace_def
      parse_hid_keycode_def to_ascii_lowercase_def KEY_A_def and_then_def Let_def)
lemma script_numbers:
  "parse_int 10 18446744073709551615 ''3'' = Inr 3" "parse_int 10 18446744073709551615 ''50'' = Inr 50"
  "parse_int 10 18446744073709551615 ''4096'' = Inr 4096"
  by (simp_all add: parse_int_def parse_unsigned_def to_digit_def)
lemma script_client_config:
  "client_config_from_env Inr script_client_env =
     Inr \<lparr>cs_server_addr = ''127.0.0.1:3035'', cs_vhci_backend = MockBackend, cs_vhci_probe_only = False,
          cs_vhci_device_id = 0x00010001, cs_mock_frame_limit = Some 3, cs_mock_frame_interval = 50,
          cs_mock_bulk_payload_len = Some 4096\<rparr>"
  by (simp add: client_config_from_env_def script_client_env_def script_env_def address_text_def env_parse_def env_flag_def
      script_numbers and_then_def unwrap_or_def)

lemma script_daemon_config:
  "daemon_config_from_env Inr script_daemon_env =
     Inr \<lparr>dc_bind_addr = ''127.0.0.1:3035'', dc_protocol_mode = WhyMode, dc_driver_backend = MockDriver,
          dc_driver_device_path = CHR 0x5C # CHR 0x5C # ''.'' @ CHR 0x5C # ''why_usb_vhci'',
          dc_map_shared_memory = False,
          dc_attach_device = Some \<lparr>da_vendor_id = 0x1234, da_product_id = 0x5678, da_bus_id = 1, da_port_id = 2,
            da_flags = 0\<rparr>,
          dc_mock_hid_keycodes = [4, 0x28], dc_mock_transfer_outcomes = []\<rparr>"
proof -
  have "pe_vars script_daemon_env =
      map_of [(''WHY_USB_ATTACH_DEVICE'', ''1234:5678:1:2''), (''WHY_USB_MOCK_HID_KEYS'', ''a,enter'')]"
    "pe_args script_daemon_env = [''why-usb'', ''127.0.0.1:3035'']"
    by (simp_all add: script_daemon_env_def script_env_def)
  then show ?thesis
    by (simp add: daemon_config_from_env_def script_attach script_keys address_text_def env_parse_def env_flag_def
        and_then_def unwrap_or_def)
qed

end
