(* ===== verification/Spec2Isabelle.thy ===== *)
theory Spec2Isabelle imports Prelude Wire_Enums Usbip_Packets Control_Transfer Mock_Payloads Usb_Descriptors Descriptor_Body Descriptor_Set Frames Ordered_Map Endpoint_Queue Queue_Spec Mapped_Ring Ring_Channel Ring_Concurrency Driver_Backend Control_Requests Daemon_Session Session_Dispatch Session_Run Session_Properties Session_Echo Usbip_Session Text_Format Error_Texts Client_Vhci Client_Session Client_Run Client_Daemon Ioctl_Abi Windows_Backend Windows_Memory Windows_Properties Daemon_Config Client_Config Config_Properties System_Model System_Run System_Properties System_Liveness System_Progress System_Faults Programs Program_Properties begin

text \<open>
  Verification library for why-usb, a USB device shared over the network.

  THE PROGRAM. A user-mode daemon (\<open>daemon/\<close>) speaks to a driver through two rings in shared
  memory, RX towards the driver and TX back, and to one client over TCP. It has two modes.
  In the why-usb mode the messages are frames of \<open>protocol/src/lib.rs\<close>: the client attaches
  the device, enumerates it with control transfers and sends requests, which the daemon
  queues per endpoint, pushes into the RX ring, and answers when the driver's frame comes out
  of the TX ring. In the USB/IP mode the daemon answers the kernel's USB/IP packets for a
  mock keyboard. The client (\<open>client/\<close>) makes mock transfers at intervals, hands responses to
  a mock virtual host controller, or probes the kernel's \<open>vhci_hcd\<close>.

  CONVENTIONS. A Rust integer of w bits is a \<open>w word\<close>, \<open>usize\<close> is \<open>nat\<close> with the bounds
  written out where the code checks them, \<open>Result\<close> is a sum with the error on the left,
  \<open>?\<close> is \<open>and_then\<close>, and \<open>None\<close> as the result of a whole operation is a panic (also of a
  checked addition) or a wait that never ends; the theorems say when it cannot happen.
  Strings are ASCII. A trait is a record of operations over a state that is passed along.

  THEORIES, in the order of import.
  \<^item> Prelude, Text_Format, Ordered_Map: machine integers, results, bytes and slices;
    the string and number functions of the standard library that the code calls; \<open>BTreeMap\<close>.
    They hold the interfaces \<open>wire_enum\<close>, \<open>codec\<close>, \<open>canonical_codec\<close> and \<open>ordered_map\<close>.
  \<^item> \<open>protocol/src/lib.rs\<close>: Wire_Enums (enumerations, errors), Usbip_Packets (the four USB/IP
    packets), Control_Transfer (setup packets, control payloads), Mock_Payloads (checksummed
    bulk payload, keyboard report), Usb_Descriptors, Descriptor_Body and Descriptor_Set (the
    leaf descriptors, a configuration's block, the set with its sidecars and its queries),
    Frames (frames and their constructors). Every format interprets a codec.
  \<^item> \<open>daemon/src/endpoint_queue.rs\<close>: Endpoint_Queue (operations, invariant, refinement of
    an abstract rotation) and Queue_Spec (the contract \<open>round_robin\<close> and its consequences).
  \<^item> \<open>daemon/src/mapped_ring.rs\<close>, \<open>driver/inc/ring_buffer.h\<close>: Mapped_Ring (push and pop),
    Ring_Channel (the contract \<open>frame_channel\<close>), Ring_Concurrency (the accesses of producer
    and consumer as an inductive step relation, with its invariant).
  \<^item> \<open>daemon/src/driver_backend.rs\<close>, \<open>driver/src/vhci.cpp\<close>: Driver_Backend (the trait as a
    record, the mock driver, the contract \<open>loopback_driver\<close>), Error_Texts (messages).
  \<^item> \<open>daemon/src/session.rs\<close>: Control_Requests, Daemon_Session (handlers, one step per event
    of \<open>select!\<close> or turn of the TX worker, cleanup), Session_Dispatch (the dispatch loop),
    Session_Run, Session_Properties and Session_Echo (all runs; the path through the driver).
  \<^item> \<open>daemon/src/usbip_session.rs\<close>: Usbip_Session.
  \<^item> \<open>daemon/src/ioctl.rs\<close>, \<open>windows_driver_backend.rs\<close>: Ioctl_Abi (control codes, structures
    as bytes, checks), Windows_Backend (the operations), Windows_Memory (a ring at an address
    interprets \<open>frame_channel\<close> again), Windows_Properties.
  \<^item> \<open>client/src/vhci.rs\<close>, \<open>client/src/session.rs\<close>: Client_Vhci (probe, status table, planned
    attach), Client_Session (handshake, enumeration, task, loop), Client_Run (all runs) and
    Client_Daemon (the handshake against the model of the daemon).
  \<^item> Both programs: System_Model (client loop, task, daemon session, worker, driver and the
    connection as one state; the phases of a session), System_Run (the phases are kept by every
    step), System_Properties and System_Liveness, System_Progress (from every state the session
    can be completed) and System_Faults (reads that give errors, writes that fail).
  \<^item> \<open>daemon/src/config.rs\<close>, \<open>client/src/config.rs\<close>: Daemon_Config, Client_Config and
    Config_Properties.
  \<^item> \<open>daemon/src/main.rs\<close>, \<open>client/src/main.rs\<close>: Programs (\<open>main\<close> of both, the entry of
    \<open>run_client_session\<close> with \<open>connect_with_retry\<close>, and both programs started together) and
    Program_Properties (from the environment variables to the end of the session).

  WHAT IS SHOWN. Formats: what is written is read back, and for each decoder exactly which
  bytes it accepts. Queues: no transfer is lost or duplicated, each endpoint is FIFO, the
  rotation starves nobody, cancel takes exactly one transfer. Ring: a bounded FIFO in
  sequence, under every interleaving of its two sides, and inside the mapped memory, where
  two rings that do not overlap do not disturb each other. Daemon: no run panics or hangs,
  requests are answered or forwarded exactly once, attach and detach are balanced, and every
  forwarded request comes back under its identifier in order. USB/IP: every packet is
  answered under its number, the session always ends and detaches. Client: requests go out
  in order once each, the detach at most once; the one state in which the loop blocks.
  Both: the handshake succeeds exactly when the driver accepts the device; under every
  interleaving of the two programs the client reads the answers to its requests in order, each
  once; under a schedule of rounds the session completes and both close, and from every
  reachable state it still can. When reads and writes of the connection fail the client has
  read an initial part of that, and a daemon that stopped has let go of the device: a run with
  failures is matched, loop by loop, by one without (\<open>follows\<close>). Configuration: the device to
  attach is read back; decimal numbers are read as hexadecimal ones where that fits. Entry
  points: the daemon's \<open>main\<close> never panics, fails exactly for the listed reasons and ends with
  the device detached; started with the variables of a mock set-up whose requests fit the ring,
  among them those of \<open>scripts/local_mock_bulk.sh\<close>, the two programs complete.
  Lemmas that state a defect (\<open>long_frame_blocks_ring\<close>, \<open>overlapping_rings_echo\<close>,
  \<open>pop_frame_overreads\<close>, \<open>client_can_block\<close> and others) show it on the model of the code.

  ENVIRONMENT. The TCP stream of the why-usb mode is a sequence of messages (the framing
  of tokio's \<open>LengthDelimitedCodec\<close> is library code), in USB/IP mode the bytes before the
  stream ends or fails; each write has an outcome given from outside. \<open>select!\<close> and the tasks
  are a sequence of events chosen from outside, so the theorems hold for every schedule.
  An mpsc channel is a list with its capacity. Time is not modelled: a timer is an event.
  The Windows API is a record of functions over a machine with a memory of bytes; the only
  law assumed of it, and only where it is named, is that \<open>SetEvent\<close> keeps the memory.
  The file system of \<open>vhci_hcd\<close>, the environment variables and the parser of socket addresses
  are parameters. Atomic accesses to the ring's counters happen in program order of each
  side, which the release and acquire orderings give.

  BOUNDS AND TERMINATION. No definition has fuel. Loops are structural or have a measure;
  \<open>flush_endpoint_transfers\<close> and the client's two waits are \<open>partial_function (option)\<close>. The
  first is proved to end from every queue state (\<open>flush_ends\<close>); each wait consumes an answer
  of the connection per turn, and against the daemon both are proved to return in
  \<open>client_attaches_to_daemon\<close>. The ring's counters are 64-bit: theorems about pushes name the
  bound of \<open>2 ^ 64\<close> bytes after which the checked addition would panic. The theorems on both
  programs together ask that all requests of the session fit into the ring at once (1 MiB) and
  each into 64 KiB (\<open>session_fits\<close>): the client sends without waiting for answers, so a fuller
  ring makes the daemon answer requests as failed, which \<open>request_answered_or_forwarded\<close> covers.

  NOT MODELLED. Logging and the build script (I/O and a call of the C++ compiler); the texts
  written to the log; the kernel-mode driver in C++ except the ring and the pump of the mock
  driver, and the shell scripts, which are other languages; the framing and scheduling of
  tokio. The daemon's \<open>main\<close> is that of the build without Windows: on Windows it would start
  the session over \<open>Windows_Backend\<close>, whose operations may panic on inconsistent ring counters
  and are verified by themselves. What is left of the Rust code are its unit tests.
\<close>

end
